(* ===== verification/Rust_Prelude.thy ===== *)
theory Rust_Prelude
  imports Main "HOL-Library.Word" "HOL-Library.Char_ord" "HOL-Library.List_Lexorder" "HOL-Library.Code_Target_Nat" "HOL-Library.Multiset"
begin

text \<open>
  What every component of the model shares: the fragment of the Rust language and of its
  standard library that the modelled code calls.

  \<^item> A \<open>Result<T, String>\<close> is a sum with the error on the left; the question mark operator
    is \<open>rbind\<close>.
  \<^item> A \<open>u8\<close> is an 8-bit word and a \<open>Vec<u8>\<close> a list of them.
  \<^item> A Rust \<open>String\<close> is the list of its UTF-8 bytes, written as an Isabelle string (the
    type of characters of HOL has exactly 256 values), so that \<open>len\<close>, the ordering and
    the slicing count bytes, as they do in Rust.
  \<^item> \<open>usize\<close> is 64 bits wide; sizes are natural numbers with the saturation written out.
\<close>

named_theorems result_simps \<open>unfolding of the error plumbing\<close>
named_theorems str_simps \<open>evaluation of the string library\<close>

subsection \<open>Results\<close>

type_synonym err = string
type_synonym 'a result = "string + 'a"

definition rbind :: "'e + 'a \<Rightarrow> ('a \<Rightarrow> 'e + 'b) \<Rightarrow> 'e + 'b" where
  "rbind m f = (case m of Inl e \<Rightarrow> Inl e | Inr x \<Rightarrow> f x)"

definition map_err :: "('e \<Rightarrow> 'f) \<Rightarrow> 'e + 'a \<Rightarrow> 'f + 'a" where
  "map_err g m = (case m of Inl e \<Rightarrow> Inl (g e) | Inr x \<Rightarrow> Inr x)"

definition ok_or :: "'e \<Rightarrow> 'a option \<Rightarrow> 'e + 'a" where
  "ok_or e m = (case m of None \<Rightarrow> Inl e | Some x \<Rightarrow> Inr x)"

definition is_ok :: "'e + 'a \<Rightarrow> bool" where
  "is_ok m = (case m of Inl _ \<Rightarrow> False | Inr _ \<Rightarrow> True)"

text \<open>Collecting an iterator of results: the first error wins.\<close>

fun collect_results :: "('a \<Rightarrow> 'e + 'b) \<Rightarrow> 'a list \<Rightarrow> 'e + 'b list" where
  "collect_results f [] = Inr []"
| "collect_results f (x # xs) =
     rbind (f x) (\<lambda>y. rbind (collect_results f xs) (\<lambda>ys. Inr (y # ys)))"

lemma rbind_simps [simp, result_simps]:
  "rbind (Inl e) f = Inl e"
  "rbind (Inr x) f = f x"
  by (simp_all add: rbind_def)

lemma rbind_eq_Inr [simp, result_simps]:
  "rbind m f = Inr y \<longleftrightarrow> (\<exists>x. m = Inr x \<and> f x = Inr y)"
  by (cases m) auto

lemma rbind_eq_Inl [result_simps]:
  "rbind m f = Inl e \<longleftrightarrow> m = Inl e \<or> (\<exists>x. m = Inr x \<and> f x = Inl e)"
  by (cases m) auto

lemma ok_or_simps [simp, result_simps]:
  "ok_or e None = Inl e"
  "ok_or e (Some x) = Inr x"
  "ok_or e m = Inr y \<longleftrightarrow> m = Some y"
  by (auto simp: ok_or_def split: option.splits)

lemma is_ok_simps [simp, result_simps]:
  "\<not> is_ok (Inl e)"
  "is_ok (Inr x)"
  by (simp_all add: is_ok_def)

lemma is_ok_iff: "is_ok m \<longleftrightarrow> (\<exists>x. m = Inr x)"
  by (cases m) auto

lemma if_Inl_eq_Inr [simp, result_simps]:
  "(if b then Inl e else m) = Inr y \<longleftrightarrow> \<not> b \<and> m = Inr y"
  by simp

lemma collect_results_Inr_iff:
  "collect_results f xs = Inr ys \<longleftrightarrow>
     length xs = length ys \<and> (\<forall>i < length xs. f (xs ! i) = Inr (ys ! i))"
proof (induction xs arbitrary: ys)
  case Nil
  then show ?case by auto
next
  case (Cons x xs)
  show ?case
    by (cases ys) (auto simp: Cons.IH nth_Cons split: nat.splits)
qed

lemma collect_results_iff_all2:
  "collect_results f xs = Inr ys \<longleftrightarrow> list_all2 (\<lambda>x y. f x = Inr y) xs ys"
  by (simp add: collect_results_Inr_iff list_all2_conv_all_nth)

lemma collect_results_total:
  "(\<And>x. x \<in> set xs \<Longrightarrow> f x = Inr (g x)) \<Longrightarrow> collect_results f xs = Inr (map g xs)"
  by (induction xs) auto


subsection \<open>Machine sizes\<close>

definition USIZE_MAX :: nat where
  "USIZE_MAX = 2 ^ 64 - 1"

definition U64_MAX :: nat where
  "U64_MAX = 2 ^ 64 - 1"

lemma machine_maxima_code [code]:
  "USIZE_MAX = 18446744073709551615" "U64_MAX = 18446744073709551615"
  by (simp_all add: USIZE_MAX_def U64_MAX_def)

definition saturating_add :: "nat \<Rightarrow> nat \<Rightarrow> nat" where
  "saturating_add a b = min (a + b) USIZE_MAX"

definition saturating_mul :: "nat \<Rightarrow> nat \<Rightarrow> nat" where
  "saturating_mul a b = min (a * b) USIZE_MAX"

definition checked_add :: "nat \<Rightarrow> nat \<Rightarrow> nat option" where
  "checked_add a b = (if a + b \<le> USIZE_MAX then Some (a + b) else None)"

definition checked_mul :: "nat \<Rightarrow> nat \<Rightarrow> nat option" where
  "checked_mul a b = (if a * b \<le> USIZE_MAX then Some (a * b) else None)"

lemma saturating_add_le_sum: "saturating_add a b \<le> a + b"
  by (simp add: saturating_add_def)

lemma saturating_add_exact: "a + b \<le> USIZE_MAX \<Longrightarrow> saturating_add a b = a + b"
  by (simp add: saturating_add_def)

lemma saturating_mul_exact: "a * b \<le> USIZE_MAX \<Longrightarrow> saturating_mul a b = a * b"
  by (simp add: saturating_mul_def)

lemma checked_add_Some [simp]: "checked_add a b = Some c \<longleftrightarrow> c = a + b \<and> a + b \<le> USIZE_MAX"
  by (auto simp: checked_add_def)

lemma checked_mul_Some [simp]: "checked_mul a b = Some c \<longleftrightarrow> c = a * b \<and> a * b \<le> USIZE_MAX"
  by (auto simp: checked_mul_def)

subsection \<open>Bytes\<close>

type_synonym u8 = "8 word"
type_synonym bytes = "8 word list"

definition byte_of :: "char \<Rightarrow> u8" where
  "byte_of c = of_char c"

definition char_of_byte :: "u8 \<Rightarrow> char" where
  "char_of_byte b = char_of (unat b)"

definition as_bytes :: "string \<Rightarrow> bytes" where
  "as_bytes s = map byte_of s"

definition of_bytes :: "bytes \<Rightarrow> string" where
  "of_bytes bs = map char_of_byte bs"

lemma unat_u8_less: "unat (b :: u8) < 256"
  using unsigned_less [of b, where ?'a = nat] by simp

lemma unat_byte_of [simp]: "unat (byte_of c) = of_char c"
proof -
  have "byte_of c = word_of_nat (of_char c)"
    by (simp add: byte_of_def of_nat_of_char)
  then show ?thesis by (simp add: unat_of_nat)
qed

lemma char_of_byte_of [simp]: "char_of_byte (byte_of c) = c"
  by (simp add: char_of_byte_def)

lemma byte_of_char_of_byte [simp]: "byte_of (char_of_byte b) = b"
proof -
  have "of_char (char_of_byte b) = unat b"
    using unat_u8_less [of b] by (simp add: char_of_byte_def)
  then have "unat (byte_of (char_of_byte b)) = unat b" by simp
  then show ?thesis by (simp only: unsigned_word_eqI)
qed

lemma as_bytes_inverse [simp]:
  "of_bytes (as_bytes s) = s"
  "as_bytes (of_bytes bs) = bs"
  by (simp_all add: as_bytes_def of_bytes_def comp_def)

lemma as_bytes_simps [simp]:
  "length (as_bytes s) = length s"
  "length (of_bytes bs) = length bs"
  "as_bytes [] = []"
  "as_bytes s = as_bytes t \<longleftrightarrow> s = t"
  by (auto simp: as_bytes_def of_bytes_def dest: arg_cong [where f = of_bytes])
     (metis as_bytes_def as_bytes_inverse(1))

text \<open>Big-endian encoding of a natural number in a fixed number of bytes.\<close>

fun be_bytes :: "nat \<Rightarrow> nat \<Rightarrow> bytes" where
  "be_bytes 0 n = []"
| "be_bytes (Suc k) n = be_bytes k (n div 256) @ [of_nat (n mod 256)]"

definition be_nat :: "bytes \<Rightarrow> nat" where
  "be_nat bs = foldl (\<lambda>a b. a * 256 + unat b) 0 bs"

lemma length_be_bytes [simp]: "length (be_bytes k n) = k"
  by (induction k n rule: be_bytes.induct) auto

lemma be_nat_append1: "be_nat (bs @ [b]) = be_nat bs * 256 + unat b"
  by (simp add: be_nat_def)

lemma be_nat_be_bytes: "be_nat (be_bytes k n) = n mod 256 ^ k"
proof (induction k n rule: be_bytes.induct)
  case (1 n)
  then show ?case by (simp add: be_nat_def)
next
  case (2 k n)
  have "unat (word_of_nat (n mod 256) :: u8) = n mod 256"
    by (simp add: unat_of_nat)
  then have "be_nat (be_bytes (Suc k) n) = (n div 256) mod 256 ^ k * 256 + n mod 256"
    by (simp add: be_nat_append1 2)
  also have "\<dots> = n mod 256 ^ Suc k"
    using mod_mult2_eq [of n 256 "256 ^ k"] by simp
  finally show ?case .
qed

lemma be_nat_less: "be_nat bs < 256 ^ length bs"
proof (induction bs rule: rev_induct)
  case Nil
  then show ?case by (simp add: be_nat_def)
next
  case (snoc b bs)
  have "unat b < 256" using unat_u8_less [of b] by simp
  with snoc show ?case by (simp add: be_nat_append1)
qed

lemma be_bytes_be_nat: "be_bytes (length bs) (be_nat bs) = bs"
proof (induction bs rule: rev_induct)
  case Nil
  then show ?case by simp
next
  case (snoc b bs)
  have "unat b < 256" using unat_u8_less [of b] by simp
  with snoc show ?case by (simp add: be_nat_append1)
qed

lemma be_bytes_inj:
  assumes "be_bytes k m = be_bytes k n" and "m < 256 ^ k" and "n < 256 ^ k"
  shows "m = n"
  using arg_cong [OF assms(1), of be_nat] assms(2,3) by (simp add: be_nat_be_bytes)


subsection \<open>Characters\<close>

definition is_digit :: "char \<Rightarrow> bool" where
  "is_digit c \<longleftrightarrow> (let n = (of_char c :: nat) in 48 \<le> n \<and> n \<le> 57)"

definition is_alpha :: "char \<Rightarrow> bool" where
  "is_alpha c \<longleftrightarrow>
     (let n = (of_char c :: nat) in (65 \<le> n \<and> n \<le> 90) \<or> (97 \<le> n \<and> n \<le> 122))"

definition is_ascii :: "char \<Rightarrow> bool" where
  "is_ascii c \<longleftrightarrow> (of_char c :: nat) < 128"

definition ascii_upper :: "char \<Rightarrow> char" where
  "ascii_upper c = (let n = (of_char c :: nat) in
     if 97 \<le> n \<and> n \<le> 122 then char_of (n - 32) else c)"

definition to_ascii_uppercase :: "string \<Rightarrow> string" where
  "to_ascii_uppercase s = map ascii_upper s"

definition eq_ignore_ascii_case :: "string \<Rightarrow> string \<Rightarrow> bool" where
  "eq_ignore_ascii_case s t \<longleftrightarrow> to_ascii_uppercase s = to_ascii_uppercase t"

subsection \<open>White space\<close>

text \<open>
  \<open>trim\<close> and \<open>split_whitespace\<close> use the Unicode property White\_Space. \<open>ws_len\<close> is the
  number of bytes of the white space character a string starts with, 0 when it starts with
  none; \<open>ws_len_rev\<close> is the same read backwards from the end.
\<close>

definition ws3 :: "(char \<times> char \<times> char) list" where
  "ws3 = [(CHR 0xE1, CHR 0x9A, CHR 0x80), (CHR 0xE2, CHR 0x80, CHR 0x80),
     (CHR 0xE2, CHR 0x80, CHR 0x81), (CHR 0xE2, CHR 0x80, CHR 0x82),
     (CHR 0xE2, CHR 0x80, CHR 0x83), (CHR 0xE2, CHR 0x80, CHR 0x84),
     (CHR 0xE2, CHR 0x80, CHR 0x85), (CHR 0xE2, CHR 0x80, CHR 0x86),
     (CHR 0xE2, CHR 0x80, CHR 0x87), (CHR 0xE2, CHR 0x80, CHR 0x88),
     (CHR 0xE2, CHR 0x80, CHR 0x89), (CHR 0xE2, CHR 0x80, CHR 0x8A),
     (CHR 0xE2, CHR 0x80, CHR 0xA8), (CHR 0xE2, CHR 0x80, CHR 0xA9),
     (CHR 0xE2, CHR 0x80, CHR 0xAF), (CHR 0xE2, CHR 0x81, CHR 0x9F),
     (CHR 0xE3, CHR 0x80, CHR 0x80)]"

definition ws1 :: "char \<Rightarrow> bool" where
  "ws1 c \<longleftrightarrow> (let n = (of_char c :: nat) in (9 \<le> n \<and> n \<le> 13) \<or> n = 32)"

fun ws_len :: "string \<Rightarrow> nat" where
  "ws_len (a # b # c # s) =
     (if ws1 a then 1
      else if a = CHR 0xC2 \<and> (b = CHR 0x85 \<or> b = CHR 0xA0) then 2
      else if (a, b, c) \<in> set ws3 then 3 else 0)"
| "ws_len [a, b] =
     (if ws1 a then 1 else if a = CHR 0xC2 \<and> (b = CHR 0x85 \<or> b = CHR 0xA0) then 2 else 0)"
| "ws_len [a] = (if ws1 a then 1 else 0)"
| "ws_len [] = 0"

fun ws_len_rev :: "string \<Rightarrow> nat" where
  "ws_len_rev (c # b # a # s) =
     (if ws1 c then 1
      else if b = CHR 0xC2 \<and> (c = CHR 0x85 \<or> c = CHR 0xA0) then 2
      else if (a, b, c) \<in> set ws3 then 3 else 0)"
| "ws_len_rev [c, b] =
     (if ws1 c then 1 else if b = CHR 0xC2 \<and> (c = CHR 0x85 \<or> c = CHR 0xA0) then 2 else 0)"
| "ws_len_rev [c] = (if ws1 c then 1 else 0)"
| "ws_len_rev [] = 0"

lemma ws_len_pos: "0 < ws_len s \<Longrightarrow> 0 < length s"
  by (cases s) auto

lemma ws_len_rev_pos: "0 < ws_len_rev s \<Longrightarrow> 0 < length s"
  by (cases s) auto

function trim_start :: "string \<Rightarrow> string" where
  "trim_start s = (if 0 < ws_len s then trim_start (drop (ws_len s) s) else s)"
  by pat_completeness auto
termination
  by (relation "measure length") (auto dest: ws_len_pos intro: diff_less)

declare trim_start.simps [simp del]

function trim_end_rev :: "string \<Rightarrow> string" where
  "trim_end_rev s = (if 0 < ws_len_rev s then trim_end_rev (drop (ws_len_rev s) s) else s)"
  by pat_completeness auto
termination
  by (relation "measure length") (auto dest: ws_len_rev_pos intro: diff_less)

declare trim_end_rev.simps [simp del]

definition trim_end :: "string \<Rightarrow> string" where
  "trim_end s = rev (trim_end_rev (rev s))"

definition trim :: "string \<Rightarrow> string" where
  "trim s = trim_end (trim_start s)"

lemma trim_empty [simp]: "trim [] = []"
  by (simp add: trim_def trim_end_def trim_start.simps [of "[]"] trim_end_rev.simps [of "[]"])

text \<open>\<open>split_whitespace\<close>: the maximal pieces without white space, none of them empty.\<close>

function split_ws :: "string \<Rightarrow> string \<Rightarrow> string list" where
  "split_ws acc [] = (if acc = [] then [] else [rev acc])"
| "split_ws acc (c # cs) =
     (if 0 < ws_len (c # cs)
      then (if acc = [] then [] else [rev acc]) @ split_ws [] (drop (ws_len (c # cs)) (c # cs))
      else split_ws (c # acc) cs)"
  by pat_completeness auto
termination
  by (relation "measure (\<lambda>(acc, s). length s)") auto

definition split_whitespace :: "string \<Rightarrow> string list" where
  "split_whitespace s = split_ws [] s"

subsection \<open>Searching, splitting and joining\<close>

definition starts_with :: "string \<Rightarrow> string \<Rightarrow> bool" where
  "starts_with p s \<longleftrightarrow> take (length p) s = p"

definition ends_with :: "string \<Rightarrow> string \<Rightarrow> bool" where
  "ends_with p s \<longleftrightarrow> starts_with (rev p) (rev s)"

definition strip_prefix :: "string \<Rightarrow> string \<Rightarrow> string option" where
  "strip_prefix p s = (if starts_with p s then Some (drop (length p) s) else None)"

definition strip_suffix :: "string \<Rightarrow> string \<Rightarrow> string option" where
  "strip_suffix p s = (if ends_with p s then Some (take (length s - length p) s) else None)"

definition unwrap_or :: "'a \<Rightarrow> 'a option \<Rightarrow> 'a" where
  "unwrap_or d m = (case m of None \<Rightarrow> d | Some x \<Rightarrow> x)"

fun contains :: "string \<Rightarrow> string \<Rightarrow> bool" where
  "contains p [] = (p = [])"
| "contains p (c # cs) = (starts_with p (c # cs) \<or> contains p cs)"

fun split_char :: "char \<Rightarrow> string \<Rightarrow> string list" where
  "split_char d [] = [[]]"
| "split_char d (c # cs) =
     (if c = d then [] # split_char d cs
      else (case split_char d cs of [] \<Rightarrow> [[c]] | w # ws \<Rightarrow> (c # w) # ws))"

fun split_once :: "string \<Rightarrow> string \<Rightarrow> (string \<times> string) option" where
  "split_once p [] = (if p = [] then Some ([], []) else None)"
| "split_once p (c # cs) =
     (if starts_with p (c # cs) then Some ([], drop (length p) (c # cs))
      else map_option (\<lambda>(a, b). (c # a, b)) (split_once p cs))"

definition trim_start_matches :: "char \<Rightarrow> string \<Rightarrow> string" where
  "trim_start_matches c s = dropWhile (\<lambda>x. x = c) s"

definition trim_end_matches :: "char \<Rightarrow> string \<Rightarrow> string" where
  "trim_end_matches c s = rev (dropWhile (\<lambda>x. x = c) (rev s))"

definition replace_char :: "char \<Rightarrow> string \<Rightarrow> string \<Rightarrow> string" where
  "replace_char c r s = concat (map (\<lambda>x. if x = c then r else [x]) s)"

fun join :: "string \<Rightarrow> string list \<Rightarrow> string" where
  "join sep [] = []"
| "join sep [x] = x"
| "join sep (x # y # xs) = x @ sep @ join sep (y # xs)"

lemma strip_prefix_Some_iff: "strip_prefix p s = Some r \<longleftrightarrow> s = p @ r"
  unfolding strip_prefix_def starts_with_def
  by (auto simp: append_eq_conv_conj) (metis append_take_drop_id)

lemma unwrap_or_simps [simp]:
  "unwrap_or d None = d"
  "unwrap_or d (Some x) = x"
  by (simp_all add: unwrap_or_def)

lemma split_char_not_Nil [simp]: "split_char d s \<noteq> []"
  by (induction s) (auto split: list.splits)

lemma split_char_join: "join [d] (split_char d s) = s"
proof (induction s)
  case Nil
  then show ?case by simp
next
  case (Cons c s)
  obtain w ws where w: "split_char d s = w # ws"
    by (cases "split_char d s") auto
  from Cons show ?case by (cases ws) (auto simp: w)
qed

lemma split_once_Some: "split_once p s = Some (a, b) \<Longrightarrow> s = a @ p @ b"
proof (induction s arbitrary: a)
  case Nil
  then show ?case by (auto split: if_splits)
next
  case (Cons c s)
  then show ?case
    by (auto simp: starts_with_def split: if_splits) (metis append_take_drop_id)
qed

subsection \<open>Numbers in decimal\<close>

definition digit_char :: "nat \<Rightarrow> char" where
  "digit_char d = char_of (48 + d)"

definition digit_val :: "char \<Rightarrow> nat" where
  "digit_val c = of_char c - 48"

fun nat_to_string :: "nat \<Rightarrow> string" where
  "nat_to_string n =
     (if n < 10 then [digit_char n] else nat_to_string (n div 10) @ [digit_char (n mod 10)])"

declare nat_to_string.simps [simp del]

definition int_to_string :: "int \<Rightarrow> string" where
  "int_to_string i =
     (if i < 0 then CHR ''-'' # nat_to_string (nat (- i)) else nat_to_string (nat i))"

definition digits_val :: "string \<Rightarrow> nat" where
  "digits_val s = foldl (\<lambda>a c. 10 * a + digit_val c) 0 s"

text \<open>
  \<open>str::parse\<close> of an unsigned integer with largest value \<open>m\<close>: an optional plus sign, at
  least one digit, no other character, no overflow.
\<close>

definition parse_uint :: "nat \<Rightarrow> string \<Rightarrow> nat option" where
  "parse_uint m s =
     (let ds = unwrap_or s (strip_prefix ''+'' s) in
      if ds \<noteq> [] \<and> (\<forall>c \<in> set ds. is_digit c) \<and> digits_val ds \<le> m
      then Some (digits_val ds) else None)"

lemma of_char_digit_char: "d < 10 \<Longrightarrow> of_char (digit_char d) = 48 + d"
  by (simp add: digit_char_def)

lemma is_digit_digit_char: "d < 10 \<Longrightarrow> is_digit (digit_char d)"
  by (simp add: is_digit_def of_char_digit_char)

lemma digit_val_digit_char: "d < 10 \<Longrightarrow> digit_val (digit_char d) = d"
  by (simp add: digit_val_def of_char_digit_char)

lemma nat_to_string_not_Nil [simp]: "nat_to_string n \<noteq> []"
  by (subst nat_to_string.simps) simp

lemma nat_to_string_digits: "\<forall>c \<in> set (nat_to_string n). is_digit c"
proof (induction n rule: nat_to_string.induct)
  case (1 n)
  then show ?case
    by (subst nat_to_string.simps) (auto simp: is_digit_digit_char)
qed

lemma digits_val_append1: "digits_val (s @ [c]) = 10 * digits_val s + digit_val c"
  by (simp add: digits_val_def)

lemma digits_val_nat_to_string [simp]: "digits_val (nat_to_string n) = n"
proof (induction n rule: nat_to_string.induct)
  case (1 n)
  then show ?case
    by (subst nat_to_string.simps)
       (auto simp: digits_val_append1 digit_val_digit_char, simp add: digits_val_def digit_val_digit_char)
qed

lemma parse_uint_nat_to_string [simp]:
  "parse_uint m (nat_to_string n) = (if n \<le> m then Some n else None)"
proof -
  have "is_digit (hd (nat_to_string n))"
    using nat_to_string_digits [of n] hd_in_set [of "nat_to_string n"] by auto
  then have "hd (nat_to_string n) \<noteq> CHR ''+''"
    by (auto simp: is_digit_def)
  then have "strip_prefix ''+'' (nat_to_string n) = None"
    by (cases "nat_to_string n") (auto simp: strip_prefix_def starts_with_def)
  then show ?thesis
    using nat_to_string_digits [of n] by (simp add: parse_uint_def)
qed

lemma nat_to_string_inj [simp]: "nat_to_string m = nat_to_string n \<longleftrightarrow> m = n"
  by (metis digits_val_nat_to_string)

lemma parse_uint_le: "parse_uint m s = Some n \<Longrightarrow> n \<le> m"
  by (auto simp: parse_uint_def Let_def split: if_splits)

subsection \<open>UTF-8\<close>

definition is_cont :: "char \<Rightarrow> bool" where
  "is_cont c \<longleftrightarrow> (let n = (of_char c :: nat) in 128 \<le> n \<and> n < 192)"

text \<open>The length of the well-formed code point a byte sequence starts with, if it does.\<close>

definition utf8_first :: "string \<Rightarrow> nat option" where
  "utf8_first s = (case s of
     [] \<Rightarrow> None
   | a # t \<Rightarrow> (let n = (of_char a :: nat); k = (\<lambda>i. i < length t \<and> is_cont (t ! i));
        b = (if t = [] then 0 else of_char (hd t) :: nat) in
      if n < 128 then Some 1
      else if 194 \<le> n \<and> n < 224 \<and> k 0 then Some 2
      else if 224 \<le> n \<and> n < 240 \<and> k 0 \<and> k 1 \<and> (n = 224 \<longrightarrow> 160 \<le> b) \<and> (n = 237 \<longrightarrow> b < 160) then Some 3
      else if 240 \<le> n \<and> n < 245 \<and> k 0 \<and> k 1 \<and> k 2 \<and> (n = 240 \<longrightarrow> 144 \<le> b) \<and> (n = 244 \<longrightarrow> b < 144) then Some 4
      else None))"

lemma utf8_first_pos: "utf8_first s = Some n \<Longrightarrow> 0 < n \<and> n \<le> length s"
  by (auto simp: utf8_first_def Let_def Suc_le_eq split: list.splits if_splits)

function valid_utf8 :: "string \<Rightarrow> bool" where
  "valid_utf8 s =
     (if s = [] then True
      else (case utf8_first s of None \<Rightarrow> False | Some n \<Rightarrow> valid_utf8 (drop n s)))"
  by pat_completeness auto
termination
  by (relation "measure length") (auto dest: utf8_first_pos)

declare valid_utf8.simps [simp del]

text \<open>\<open>str.chars().count()\<close>: one code point per byte that does not continue one.\<close>

definition char_count :: "string \<Rightarrow> nat" where
  "char_count s = length (filter (\<lambda>c. \<not> is_cont c) s)"

definition is_char_boundary :: "string \<Rightarrow> nat \<Rightarrow> bool" where
  "is_char_boundary s i \<longleftrightarrow> i = 0 \<or> i = length s \<or> (i < length s \<and> \<not> is_cont (s ! i))"

lemma valid_utf8_ascii: "\<forall>c \<in> set s. is_ascii c \<Longrightarrow> valid_utf8 s"
proof (induction s)
  case Nil
  then show ?case by (simp add: valid_utf8.simps)
next
  case (Cons c s)
  then have "utf8_first (c # s) = Some 1"
    by (simp add: utf8_first_def is_ascii_def)
  with Cons show ?case by (simp add: valid_utf8.simps [of "c # s"])
qed

subsection \<open>Evaluation\<close>

text \<open>
  Equations for the evaluation of the definitions on concrete inputs only: a natural number that is
  computed step by step is brought to a numeral before it is used again.
\<close>

definition forced :: "nat \<Rightarrow> nat" where
  "forced n = nat_of_integer (integer_of_nat n)"

lemma forced [simp]: "forced n = n" by (simp add: forced_def)

lemma take_forced [code]: "take n xs = (case xs of [] \<Rightarrow> [] | x # xs \<Rightarrow> let m = forced n in if m = 0 then [] else x # take (m - 1) xs)"
  by (cases xs; cases n) auto

lemma drop_forced [code]: "drop n xs = (case xs of [] \<Rightarrow> [] | y # ys \<Rightarrow> let m = forced n in if m = 0 then xs else drop (m - 1) ys)"
  by (cases xs; cases n) auto

lemma nth_forced [code]: "(x # xs) ! n = (let m = forced n in if m = 0 then x else xs ! (m - 1))"
  by (cases n) auto

lemma replicate_forced [code]: "replicate n x = (let m = forced n in if m = 0 then [] else x # replicate (m - 1) x)"
  by (cases n) auto

primrec int_length :: "'a list \<Rightarrow> integer" where
  "int_length [] = 0"
| "int_length (x # xs) = int_length xs + 1"

lemma length_forced [code]: "length xs = nat_of_integer (int_length xs)"
proof -
  have "int_length xs = of_nat (length xs)" by (induction xs) simp_all
  then show ?thesis by simp
qed

fun be_loop :: "nat \<Rightarrow> nat \<Rightarrow> bytes \<Rightarrow> bytes" where
  "be_loop k n bs = (if k = 0 then bs else be_loop (k - 1) (forced (n div 256)) (of_nat (forced (n mod 256)) # bs))"

declare be_loop.simps [simp del]

lemma be_loop: "be_loop k n bs = be_bytes k n @ bs"
proof (induction k arbitrary: n bs)
  case (Suc k)
  have "be_loop (Suc k) n bs = be_bytes k (n div 256) @ of_nat (n mod 256) # bs"
    by (subst be_loop.simps) (simp add: Suc)
  then show ?case by simp
qed (simp add: be_loop.simps)

lemma be_bytes_forced [code]: "be_bytes k n = (if integer_of_nat n < 0 then [] else be_loop k (forced n) [])"
  by (simp add: be_loop integer_of_nat_eq_of_nat)

lemma be_nat_forced [code]: "be_nat bs = foldl (\<lambda>a b. forced (a * 256 + unat b)) 0 bs"
  by (simp add: be_nat_def)

end
