(* ===== verification/Data_Value.thy ===== *)
theory Data_Value
  imports Complex_Main Rust_Prelude
begin

text \<open>
  The typed cell values of a data task and their canonical byte encoding
  (\<open>src-tauri/src/db/data\_tasks/value.rs\<close>). Rows are compared, sorted, hashed and spooled
  by these bytes, so the encoding has to be injective and decodable.
\<close>

subsection \<open>Values and rows\<close>

datatype data_value =
    Null
  | Bool bool
  | Int64 "64 word"
  | UInt64 "64 word"
  | Decimal string
  | Float "64 word"
  | Text string
  | Binary bytes
  | Temporal string string
  | Uuid bytes
  | Json string

record canonical_row =
  row_table :: string
  row_key :: "data_value list"
  row_values :: "data_value list"

definition is_null :: "data_value \<Rightarrow> bool" where
  "is_null v = (case v of Null \<Rightarrow> True | _ \<Rightarrow> False)"

subsection \<open>Normal forms of text values\<close>

definition all_digits :: "string \<Rightarrow> bool" where
  "all_digits s \<longleftrightarrow> (\<forall>b \<in> set s. is_digit b)"

text \<open>MySQL pads the fraction of a temporal value with zeros; only those zeros go.\<close>

definition normalize_mysql_temporal :: "string \<Rightarrow> string" where
  "normalize_mysql_temporal input =
     (case split_once ''.'' input of
        None \<Rightarrow> input
      | Some (whole, fraction) \<Rightarrow>
          if all_digits fraction
          then (let fraction' = trim_end_matches CHR ''0'' fraction in
                if fraction' = [] then whole else whole @ ''.'' @ fraction')
          else input)"

text \<open>Exact decimals are normalised as text, never through a floating point number.\<close>

definition decimal_parts :: "string \<Rightarrow> (bool \<times> string \<times> string) result" where
  "decimal_parts input =
     (let (negative, digits) =
        (case strip_prefix ''-'' input of
           Some s \<Rightarrow> (True, s)
         | None \<Rightarrow> (False, unwrap_or input (strip_prefix ''+'' input)));
        parts = split_char CHR ''.'' digits;
        whole = (case parts of w # _ \<Rightarrow> w | _ \<Rightarrow> '''');
        fraction = (case parts of _ # f # _ \<Rightarrow> f | _ \<Rightarrow> '''')
      in if 2 < length parts \<or> whole = [] \<or> \<not> all_digits whole \<or> \<not> all_digits fraction
         then Inl ''unsupported_capability: invalid exact decimal''
         else Inr (negative, whole, fraction))"

definition render_decimal :: "bool \<Rightarrow> string \<Rightarrow> string \<Rightarrow> string" where
  "render_decimal negative whole fraction =
     (let whole0 = trim_start_matches CHR ''0'' whole;
          whole1 = (if whole0 = [] then ''0'' else whole0);
          fraction1 = trim_end_matches CHR ''0'' fraction;
          sign = (if negative \<and> (whole1 \<noteq> ''0'' \<or> fraction1 \<noteq> []) then ''-'' else '''')
      in if fraction1 = [] then sign @ whole1 else sign @ whole1 @ ''.'' @ fraction1)"

definition normalize_decimal :: "string \<Rightarrow> string result" where
  "normalize_decimal input =
     rbind (decimal_parts input)
       (\<lambda>(negative, whole, fraction). Inr (render_decimal negative whole fraction))"

subsection \<open>Canonical bytes\<close>

definition field :: "bytes \<Rightarrow> bytes" where
  "field bs = be_bytes 8 (length bs) @ bs"

fun canonical_bytes :: "data_value \<Rightarrow> bytes result" where
  "canonical_bytes Null = Inr [0]"
| "canonical_bytes (Bool v) = Inr [1, if v then 1 else 0]"
| "canonical_bytes (Int64 v) = Inr (2 # be_bytes 8 (unat v))"
| "canonical_bytes (UInt64 v) = Inr (3 # be_bytes 8 (unat v))"
| "canonical_bytes (Decimal v) =
     rbind (normalize_decimal v) (\<lambda>n. Inr (4 # field (as_bytes n)))"
| "canonical_bytes (Float v) = Inr (5 # be_bytes 8 (unat v))"
| "canonical_bytes (Text v) = Inr (6 # field (as_bytes v))"
| "canonical_bytes (Binary v) = Inr (7 # field v)"
| "canonical_bytes (Temporal kind v) = Inr (8 # field (as_bytes kind) @ field (as_bytes v))"
| "canonical_bytes (Uuid v) = Inr (9 # v)"
| "canonical_bytes (Json v) = Inr (10 # field (as_bytes v))"

definition values_bytes :: "data_value list \<Rightarrow> bytes result" where
  "values_bytes vs =
     rbind (collect_results (\<lambda>v. rbind (canonical_bytes v) (\<lambda>b. Inr (field b))) vs)
       (\<lambda>fs. Inr (be_bytes 8 (length vs) @ concat fs))"

definition key_bytes :: "canonical_row \<Rightarrow> bytes result" where
  "key_bytes r =
     rbind (values_bytes (row_key r)) (\<lambda>k. Inr (field (as_bytes (row_table r)) @ k))"

definition row_canonical_bytes :: "canonical_row \<Rightarrow> bytes result" where
  "row_canonical_bytes r =
     rbind (key_bytes r) (\<lambda>k. rbind (values_bytes (row_values r)) (\<lambda>v. Inr (k @ v)))"

definition new_row :: "string \<Rightarrow> data_value list \<Rightarrow> data_value list \<Rightarrow> canonical_row result" where
  "new_row t k v =
     (let row = \<lparr>row_table = t, row_key = k, row_values = v\<rparr>
      in rbind (row_canonical_bytes row) (\<lambda>_. Inr row))"

fun encoded_size :: "data_value \<Rightarrow> nat" where
  "encoded_size Null = 1"
| "encoded_size (Bool _) = 2"
| "encoded_size (Int64 _) = 9"
| "encoded_size (UInt64 _) = 9"
| "encoded_size (Float _) = 9"
| "encoded_size (Uuid _) = 17"
| "encoded_size (Text s) = saturating_add 9 (length s)"
| "encoded_size (Decimal s) = saturating_add 9 (length s)"
| "encoded_size (Json s) = saturating_add 9 (length s)"
| "encoded_size (Binary b) = saturating_add 9 (length b)"
| "encoded_size (Temporal kind v) = saturating_add (saturating_add 17 (length kind)) (length v)"

definition row_encoded_size :: "canonical_row \<Rightarrow> nat" where
  "row_encoded_size r =
     foldl (\<lambda>n v. saturating_add (saturating_add n 8) (encoded_size v))
       (saturating_add 24 (length (row_table r))) (row_key r @ row_values r)"

subsection \<open>Decoding\<close>

record reader =
  rd_data :: bytes
  rd_pos :: nat

definition rd_take :: "nat \<Rightarrow> reader \<Rightarrow> (bytes \<times> reader) result" where
  "rd_take n r =
     rbind (ok_or ''resource_limit: snapshot record length is invalid'' (checked_add (rd_pos r) n))
       (\<lambda>end_pos. if end_pos \<le> length (rd_data r)
          then Inr (take n (drop (rd_pos r) (rd_data r)), r\<lparr>rd_pos := end_pos\<rparr>)
          else Inl ''resource_limit: snapshot record is damaged'')"

definition rd_number :: "reader \<Rightarrow> (nat \<times> reader) result" where
  "rd_number r = rbind (rd_take 8 r) (\<lambda>(b, r'). Inr (be_nat b, r'))"

definition rd_field :: "reader \<Rightarrow> (bytes \<times> reader) result" where
  "rd_field r = rbind (rd_number r) (\<lambda>(n, r'). rd_take n r')"

definition rd_string :: "reader \<Rightarrow> (string \<times> reader) result" where
  "rd_string r = rbind (rd_field r) (\<lambda>(b, r').
     if valid_utf8 (of_bytes b) then Inr (of_bytes b, r')
     else Inl ''resource_limit: snapshot text is damaged'')"

definition decode_payload :: "u8 \<Rightarrow> reader \<Rightarrow> (data_value \<times> reader) result" where
  "decode_payload tag v =
    (if tag = 0 then Inr (Null, v)
     else if tag = 1 then rbind (rd_take 1 v) (\<lambda>(b, v).
       if b = [0] then Inr (Bool False, v)
       else if b = [1] then Inr (Bool True, v)
       else Inl ''resource_limit: boolean record is damaged'')
     else if tag = 2 then rbind (rd_take 8 v) (\<lambda>(b, v). Inr (Int64 (of_nat (be_nat b)), v))
     else if tag = 3 then rbind (rd_number v) (\<lambda>(n, v). Inr (UInt64 (of_nat n), v))
     else if tag = 4 then rbind (rd_string v) (\<lambda>(s, v). Inr (Decimal s, v))
     else if tag = 5 then rbind (rd_number v) (\<lambda>(n, v). Inr (Float (of_nat n), v))
     else if tag = 6 then rbind (rd_string v) (\<lambda>(s, v). Inr (Text s, v))
     else if tag = 7 then rbind (rd_field v) (\<lambda>(b, v). Inr (Binary b, v))
     else if tag = 8 then rbind (rd_string v) (\<lambda>(k, v).
       rbind (rd_string v) (\<lambda>(s, v). Inr (Temporal k s, v)))
     else if tag = 9 then rbind (rd_take 16 v) (\<lambda>(b, v). Inr (Uuid b, v))
     else if tag = 10 then rbind (rd_string v) (\<lambda>(s, v). Inr (Json s, v))
     else Inl ''resource_limit: snapshot type is damaged'')"

definition decode_value :: "bytes \<Rightarrow> data_value result" where
  "decode_value bs =
     rbind (rd_take 1 \<lparr>rd_data = bs, rd_pos = 0\<rparr>) (\<lambda>(t, v).
     rbind (decode_payload (hd t) v) (\<lambda>(x, v).
       if rd_pos v \<noteq> length (rd_data v)
       then Inl ''resource_limit: snapshot field has a damaged tail'' else Inr x))"

fun rd_values_loop :: "nat \<Rightarrow> reader \<Rightarrow> (data_value list \<times> reader) result" where
  "rd_values_loop 0 r = Inr ([], r)"
| "rd_values_loop (Suc n) r =
     rbind (rd_field r) (\<lambda>(b, r).
     rbind (decode_value b) (\<lambda>x.
     rbind (rd_values_loop n r) (\<lambda>(xs, r). Inr (x # xs, r))))"

definition rd_values :: "reader \<Rightarrow> (data_value list \<times> reader) result" where
  "rd_values r =
     rbind (rd_number r) (\<lambda>(n, r).
       if length (rd_data r) div 9 < n
       then Inl ''resource_limit: snapshot field count is invalid''
       else rd_values_loop n r)"

definition decode_row :: "bytes \<Rightarrow> canonical_row result" where
  "decode_row input =
     rbind (rd_string \<lparr>rd_data = input, rd_pos = 0\<rparr>) (\<lambda>(t, r).
     rbind (rd_values r) (\<lambda>(k, r).
     rbind (rd_values r) (\<lambda>(v, r).
       if rd_pos r \<noteq> length input
       then Inl ''resource_limit: snapshot record has a damaged tail''
       else Inr \<lparr>row_table = t, row_key = k, row_values = v\<rparr>)))"

subsection \<open>Readers and writers that agree\<close>

definition reader_at :: "bytes \<Rightarrow> bytes \<Rightarrow> reader" where
  "reader_at xs ys = \<lparr>rd_data = xs @ ys, rd_pos = length xs\<rparr>"

locale codec =
  fixes enc :: "'a \<Rightarrow> bytes result"
    and dec :: "reader \<Rightarrow> ('b \<times> reader) result"
    and good :: "'a \<Rightarrow> bool"
    and norm :: "'a \<Rightarrow> 'b"
  assumes dec_enc: "enc x = Inr bs \<Longrightarrow> good x \<Longrightarrow> length (xs @ bs @ zs) \<le> USIZE_MAX \<Longrightarrow>
    dec (reader_at xs (bs @ zs)) = Inr (norm x, reader_at (xs @ bs) zs)"
begin

lemma prefix_free:
  assumes "enc x = Inr a" and "enc y = Inr b" and "good x" and "good y"
    and "a @ u = b @ v" and "length (a @ u) \<le> USIZE_MAX"
  shows "norm x = norm y \<and> a = b \<and> u = v"
proof -
  have x: "dec (reader_at [] (a @ u)) = Inr (norm x, reader_at a u)"
    using dec_enc [of x a "[]" u] assms by simp
  have y: "dec (reader_at [] (b @ v)) = Inr (norm y, reader_at b v)"
    using dec_enc [of y b "[]" v] assms by simp
  from x y assms(5) have "norm x = norm y" and "reader_at a u = reader_at b v"
    by simp_all
  with assms(5) show ?thesis by (simp add: reader_at_def)
qed

lemma injective:
  assumes "enc x = Inr a" and "enc y = Inr a" and "good x" and "good y" and "length a \<le> USIZE_MAX"
  shows "norm x = norm y"
  using prefix_free [of x a y a "[]" "[]"] assms by simp

end

locale whole_codec =
  fixes enc :: "'a \<Rightarrow> bytes result"
    and dec :: "bytes \<Rightarrow> 'b result"
    and good :: "'a \<Rightarrow> bool"
    and norm :: "'a \<Rightarrow> 'b"
  assumes whole: "enc x = Inr bs \<Longrightarrow> good x \<Longrightarrow> length bs \<le> USIZE_MAX \<Longrightarrow> dec bs = Inr (norm x)"
begin

lemma whole_injective:
  assumes "enc x = Inr a" and "enc y = Inr a" and "good x" and "good y" and "length a \<le> USIZE_MAX"
  shows "norm x = norm y"
  using whole [OF assms(1,3,5)] whole [OF assms(2,4,5)] by simp

end

lemma rd_take_at:
  "length (xs @ bs @ zs) \<le> USIZE_MAX \<Longrightarrow> length bs = n \<Longrightarrow>
     rd_take n (reader_at xs (bs @ zs)) = Inr (bs, reader_at (xs @ bs) zs)"
  by (simp add: rd_take_def reader_at_def checked_add_def)

lemma rd_number_at:
  "length (xs @ be_bytes 8 n @ zs) \<le> USIZE_MAX \<Longrightarrow> n \<le> USIZE_MAX \<Longrightarrow>
     rd_number (reader_at xs (be_bytes 8 n @ zs)) = Inr (n, reader_at (xs @ be_bytes 8 n) zs)"
  by (simp add: rd_number_def rd_take_at be_nat_be_bytes USIZE_MAX_def)

lemma rd_field_at:
  "length (xs @ field bs @ zs) \<le> USIZE_MAX \<Longrightarrow>
     rd_field (reader_at xs (field bs @ zs)) = Inr (bs, reader_at (xs @ field bs) zs)"
  by (simp add: rd_field_def field_def rd_number_at rd_take_at)

lemma rd_string_at:
  "length (xs @ field (as_bytes s) @ zs) \<le> USIZE_MAX \<Longrightarrow> valid_utf8 s \<Longrightarrow>
     rd_string (reader_at xs (field (as_bytes s) @ zs))
       = Inr (s, reader_at (xs @ field (as_bytes s)) zs)"
  by (simp add: rd_string_def rd_field_at)

interpretation number_codec: codec "\<lambda>n. Inr (be_bytes 8 n)" rd_number "\<lambda>n. n \<le> USIZE_MAX" id
  by unfold_locales (auto simp: rd_number_at)

interpretation field_codec: codec "\<lambda>b. Inr (field b)" rd_field "\<lambda>_. True" id
  by unfold_locales (auto simp: rd_field_at)

interpretation string_codec: codec "\<lambda>s. Inr (field (as_bytes s))" rd_string valid_utf8 id
  by unfold_locales (auto simp: rd_string_at)

subsection \<open>The normal form and well-formedness of values\<close>

fun norm_value :: "data_value \<Rightarrow> data_value" where
  "norm_value (Decimal s) = (case normalize_decimal s of Inl _ \<Rightarrow> Decimal s | Inr n \<Rightarrow> Decimal n)"
| "norm_value v = v"

fun wf_value :: "data_value \<Rightarrow> bool" where
  "wf_value (Text s) = valid_utf8 s"
| "wf_value (Decimal s) = valid_utf8 s"
| "wf_value (Json s) = valid_utf8 s"
| "wf_value (Temporal k s) = (valid_utf8 k \<and> valid_utf8 s)"
| "wf_value (Uuid u) = (length u = 16)"
| "wf_value _ = True"

definition norm_row :: "canonical_row \<Rightarrow> canonical_row" where
  "norm_row r = r\<lparr>row_key := map norm_value (row_key r), row_values := map norm_value (row_values r)\<rparr>"

definition wf_row :: "canonical_row \<Rightarrow> bool" where
  "wf_row r \<longleftrightarrow> valid_utf8 (row_table r)
     \<and> (\<forall>v \<in> set (row_key r) \<union> set (row_values r). wf_value v)"

lemma digit_ascii: "is_digit c \<Longrightarrow> is_ascii c"
  by (simp add: is_digit_def is_ascii_def Let_def)

lemma set_trim_matches:
  "set (trim_start_matches c s) \<subseteq> set s"
  "set (trim_end_matches c s) \<subseteq> set s"
  by (auto simp: trim_start_matches_def trim_end_matches_def dest: set_dropWhileD)

lemma decimal_parts_digits:
  "decimal_parts s = Inr (neg, w, f) \<Longrightarrow> w \<noteq> [] \<and> all_digits w \<and> all_digits f"
  unfolding decimal_parts_def Let_def by (auto split: prod.splits if_splits)

lemma normalize_decimal_Inr:
  "normalize_decimal s = Inr n \<longleftrightarrow>
     (\<exists>neg w f. decimal_parts s = Inr (neg, w, f) \<and> n = render_decimal neg w f)"
  by (auto simp: normalize_decimal_def)

lemma all_digits_simps [simp]:
  "all_digits []"
  "all_digits (c # s) \<longleftrightarrow> is_digit c \<and> all_digits s"
  "all_digits (s @ t) \<longleftrightarrow> all_digits s \<and> all_digits t"
  by (auto simp: all_digits_def)

lemma all_digits_trim:
  "all_digits s \<Longrightarrow> all_digits (trim_start_matches c s)"
  "all_digits s \<Longrightarrow> all_digits (trim_end_matches c s)"
  using set_trim_matches [of c s] by (auto simp: all_digits_def)

lemma render_decimal_shape:
  assumes "all_digits w" and "all_digits f"
  obtains sign p q where "render_decimal neg w f = sign @ p @ q"
    and "sign = [] \<or> sign = ''-''" and "all_digits p" and "p \<noteq> []"
    and "q = [] \<or> (\<exists>g. q = CHR ''.'' # g \<and> all_digits g \<and> g \<noteq> [])"
proof -
  define p where "p = (if trim_start_matches CHR ''0'' w = [] then ''0'' else trim_start_matches CHR ''0'' w)"
  define g where "g = trim_end_matches CHR ''0'' f"
  define q where "q = (if g = [] then [] else CHR ''.'' # g)"
  define sign where "sign = (if neg \<and> (p \<noteq> ''0'' \<or> g \<noteq> []) then ''-'' else [])"
  have "render_decimal neg w f = sign @ p @ q"
    by (simp add: render_decimal_def Let_def p_def g_def q_def sign_def)
  moreover have "all_digits p" "p \<noteq> []"
    using assms by (auto simp: p_def all_digits_trim is_digit_def)
  moreover have "q = [] \<or> (\<exists>g. q = CHR ''.'' # g \<and> all_digits g \<and> g \<noteq> [])"
    using assms by (simp add: q_def g_def all_digits_trim)
  moreover have "sign = [] \<or> sign = ''-''" by (simp add: sign_def)
  ultimately show ?thesis using that by blast
qed

lemma all_digits_ascii: "all_digits s \<Longrightarrow> c \<in> set s \<Longrightarrow> is_ascii c"
  by (simp add: all_digits_def digit_ascii)

lemma normalize_decimal_ascii:
  assumes "normalize_decimal s = Inr n"
  shows "\<forall>c \<in> set n. is_ascii c"
proof -
  obtain neg w f where parts: "decimal_parts s = Inr (neg, w, f)" and n: "n = render_decimal neg w f"
    using assms by (auto simp: normalize_decimal_Inr)
  from decimal_parts_digits [OF parts] have "all_digits w" and "all_digits f" by simp_all
  then obtain sign p q where "render_decimal neg w f = sign @ p @ q"
    and "sign = [] \<or> sign = ''-''" and "all_digits p" and "p \<noteq> []"
    and "q = [] \<or> (\<exists>g. q = CHR ''.'' # g \<and> all_digits g \<and> g \<noteq> [])"
    by (rule render_decimal_shape)
  moreover have "is_ascii CHR ''-''" and "is_ascii CHR ''.''"
    by (simp_all add: is_ascii_def)
  ultimately show ?thesis
    unfolding n using all_digits_ascii by auto
qed

lemma normalize_decimal_utf8: "normalize_decimal s = Inr n \<Longrightarrow> valid_utf8 n"
  by (rule valid_utf8_ascii) (rule normalize_decimal_ascii)

lemma unat64_le: "unat (v :: 64 word) \<le> USIZE_MAX"
  using unsigned_less [of v, where ?'a = nat] by (simp add: USIZE_MAX_def)

lemma be_nat_word64 [simp]: "(of_nat (be_nat (be_bytes 8 (unat v))) :: 64 word) = v"
  using unat64_le [of v] by (simp add: be_nat_be_bytes USIZE_MAX_def)

lemma rd_take_tail:
  "length (xs @ bs) \<le> USIZE_MAX \<Longrightarrow> length bs = n \<Longrightarrow>
     rd_take n (reader_at xs bs) = Inr (bs, reader_at (xs @ bs) [])"
  using rd_take_at [of xs bs "[]"] by simp

lemma rd_number_tail:
  "length xs + 8 \<le> USIZE_MAX \<Longrightarrow> n \<le> USIZE_MAX \<Longrightarrow>
     rd_number (reader_at xs (be_bytes 8 n)) = Inr (n, reader_at (xs @ be_bytes 8 n) [])"
  using rd_number_at [of xs n "[]"] by simp

lemma rd_field_tail:
  "length (xs @ field bs) \<le> USIZE_MAX \<Longrightarrow>
     rd_field (reader_at xs (field bs)) = Inr (bs, reader_at (xs @ field bs) [])"
  using rd_field_at [of xs bs "[]"] by simp

lemma rd_string_tail:
  "length (xs @ field (as_bytes s)) \<le> USIZE_MAX \<Longrightarrow> valid_utf8 s \<Longrightarrow>
     rd_string (reader_at xs (field (as_bytes s)))
       = Inr (s, reader_at (xs @ field (as_bytes s)) [])"
  using rd_string_at [of xs s "[]"] by simp

lemmas rd_tails = rd_take_tail rd_number_tail rd_field_tail rd_string_tail unat64_le

lemma decode_payload_simps:
  "decode_payload 0 v = Inr (Null, v)"
  "decode_payload 1 v = rbind (rd_take 1 v) (\<lambda>(b, v).
     if b = [0] then Inr (Bool False, v) else if b = [1] then Inr (Bool True, v)
     else Inl ''resource_limit: boolean record is damaged'')"
  "decode_payload 2 v = rbind (rd_take 8 v) (\<lambda>(b, v). Inr (Int64 (of_nat (be_nat b)), v))"
  "decode_payload 3 v = rbind (rd_number v) (\<lambda>(n, v). Inr (UInt64 (of_nat n), v))"
  "decode_payload 4 v = rbind (rd_string v) (\<lambda>(s, v). Inr (Decimal s, v))"
  "decode_payload 5 v = rbind (rd_number v) (\<lambda>(n, v). Inr (Float (of_nat n), v))"
  "decode_payload 6 v = rbind (rd_string v) (\<lambda>(s, v). Inr (Text s, v))"
  "decode_payload 7 v = rbind (rd_field v) (\<lambda>(b, v). Inr (Binary b, v))"
  "decode_payload 8 v = rbind (rd_string v) (\<lambda>(k, v).
     rbind (rd_string v) (\<lambda>(s, v). Inr (Temporal k s, v)))"
  "decode_payload 9 v = rbind (rd_take 16 v) (\<lambda>(b, v). Inr (Uuid b, v))"
  "decode_payload 10 v = rbind (rd_string v) (\<lambda>(s, v). Inr (Json s, v))"
  by (simp_all add: decode_payload_def)

lemma decode_payload_canonical:
  assumes enc: "canonical_bytes v = Inr (t # p)" and wf: "wf_value v"
    and len: "length (t # p) \<le> USIZE_MAX"
  shows "decode_payload t (reader_at [t] p) = Inr (norm_value v, reader_at (t # p) [])"
proof (cases v)
  case (Bool b)
  with enc have t: "t = 1" and p: "p = [if b then 1 else 0]" by simp_all
  have "rd_take 1 (reader_at [1] p) = Inr (p, reader_at ([1] @ p) [])"
    using len by (intro rd_take_tail) (simp_all add: p)
  then show ?thesis
    unfolding Bool t decode_payload_simps by (simp add: p)
next
  case (Decimal s)
  with enc obtain n where "normalize_decimal s = Inr n" and "t = 4" and "p = field (as_bytes n)"
    by auto
  moreover from this have "rd_string (reader_at [4] p) = Inr (n, reader_at ([4] @ p) [])"
    using rd_string_tail [of "[4]" n] len by (simp add: normalize_decimal_utf8)
  ultimately show ?thesis
    by (simp add: Decimal decode_payload_simps)
next
  case (Temporal k s)
  with enc have "t = 8" and "p = field (as_bytes k) @ field (as_bytes s)" by simp_all
  with Temporal wf len rd_string_at [of "[8]" k "field (as_bytes s)"]
    rd_string_tail [of "8 # field (as_bytes k)" s]
  show ?thesis by (simp add: decode_payload_simps)
qed (use enc wf len in \<open>clarsimp simp: decode_payload_simps rd_tails\<close>)+

lemma canonical_bytes_tag: "canonical_bytes v = Inr bs \<Longrightarrow> \<exists>t p. bs = t # p"
  by (cases v) auto

lemma decode_value_canonical:
  assumes "canonical_bytes v = Inr bs" and "wf_value v" and "length bs \<le> USIZE_MAX"
  shows "decode_value bs = Inr (norm_value v)"
proof -
  obtain t p where bs: "bs = t # p"
    using canonical_bytes_tag [OF assms(1)] by blast
  have start: "rd_take (Suc 0) \<lparr>rd_data = t # p, rd_pos = 0\<rparr> = Inr ([t], reader_at [t] p)"
    using assms(3) rd_take_at [of "[]" "[t]" p "Suc 0"] by (simp add: bs reader_at_def)
  have "decode_payload t (reader_at [t] p) = Inr (norm_value v, reader_at (t # p) [])"
    using assms by (intro decode_payload_canonical) (simp_all add: bs)
  then show ?thesis
    by (simp add: decode_value_def start bs) (simp add: reader_at_def)
qed

interpretation value_codec: whole_codec canonical_bytes decode_value wf_value norm_value
  by unfold_locales (rule decode_value_canonical)


subsection \<open>Lists of values and rows\<close>

lemma rd_values_loop_at:
  assumes "list_all2 (\<lambda>v f. \<exists>b. canonical_bytes v = Inr b \<and> f = field b) vs fs"
    and "\<forall>v \<in> set vs. wf_value v" and "length (xs @ concat fs @ zs) \<le> USIZE_MAX"
  shows "rd_values_loop (length vs) (reader_at xs (concat fs @ zs))
    = Inr (map norm_value vs, reader_at (xs @ concat fs) zs)"
  using assms
proof (induction vs fs arbitrary: xs rule: list_all2_induct)
  case Nil
  then show ?case by simp
next
  case (Cons v vs f fs)
  then obtain b where b: "canonical_bytes v = Inr b" and f: "f = field b" by blast
  have "rd_field (reader_at xs (field b @ concat fs @ zs))
      = Inr (b, reader_at (xs @ field b) (concat fs @ zs))"
    using Cons.prems by (intro rd_field_at) (simp add: f)
  moreover have "decode_value b = Inr (norm_value v)"
    using Cons.prems by (intro decode_value_canonical [OF b]) (simp_all add: f field_def)
  moreover have "rd_values_loop (length vs) (reader_at (xs @ f) (concat fs @ zs))
      = Inr (map norm_value vs, reader_at ((xs @ f) @ concat fs) zs)"
    using Cons.prems by (intro Cons.IH) simp_all
  ultimately show ?case by (simp add: f)
qed

lemma values_bytes_Inr:
  "values_bytes vs = Inr bs \<longleftrightarrow>
     (\<exists>fs. list_all2 (\<lambda>v f. \<exists>b. canonical_bytes v = Inr b \<and> f = field b) vs fs
        \<and> bs = be_bytes 8 (length vs) @ concat fs)"
proof -
  have "(rbind (canonical_bytes v) (\<lambda>b. Inr (field b)) = Inr f)
      = (\<exists>b. canonical_bytes v = Inr b \<and> f = field b)" for v and f :: bytes
    by auto
  then show ?thesis
    by (auto simp: values_bytes_def collect_results_iff_all2)
qed

lemma fields_length:
  "list_all2 (\<lambda>v f. \<exists>b. canonical_bytes v = Inr b \<and> f = field b) vs fs \<Longrightarrow>
     9 * length vs \<le> length (concat fs)"
proof (induction vs fs rule: list_all2_induct)
  case (Cons v vs f fs)
  then obtain b where "canonical_bytes v = Inr b" and f: "f = field b" by blast
  then have "1 \<le> length b" by (cases b) (auto dest: canonical_bytes_tag)
  then have "9 \<le> length f" by (simp add: f field_def)
  with Cons.IH show ?case by simp
qed simp

lemma rd_values_at:
  assumes "values_bytes vs = Inr bs" and "\<forall>v \<in> set vs. wf_value v"
    and "length (xs @ bs @ zs) \<le> USIZE_MAX"
  shows "rd_values (reader_at xs (bs @ zs)) = Inr (map norm_value vs, reader_at (xs @ bs) zs)"
proof -
  obtain fs where fs: "list_all2 (\<lambda>v f. \<exists>b. canonical_bytes v = Inr b \<and> f = field b) vs fs"
    and bs: "bs = be_bytes 8 (length vs) @ concat fs"
    using assms(1) by (auto simp: values_bytes_Inr)
  have count: "9 * length vs \<le> length (concat fs)"
    by (rule fields_length [OF fs])
  have "length vs \<le> USIZE_MAX"
    using count assms(3) by (simp add: bs)
  then have "rd_number (reader_at xs (bs @ zs))
      = Inr (length vs, reader_at (xs @ be_bytes 8 (length vs)) (concat fs @ zs))"
    using rd_number_at [of xs "length vs" "concat fs @ zs"] assms(3) by (simp add: bs)
  moreover have "length vs \<le> length (rd_data (reader_at (xs @ be_bytes 8 (length vs)) (concat fs @ zs))) div 9"
    using count by (simp add: reader_at_def)
  moreover have "rd_values_loop (length vs) (reader_at (xs @ be_bytes 8 (length vs)) (concat fs @ zs))
      = Inr (map norm_value vs, reader_at (xs @ bs) zs)"
    using rd_values_loop_at [OF fs assms(2), of "xs @ be_bytes 8 (length vs)" zs] assms(3)
    by (simp add: bs)
  ultimately show ?thesis by (simp add: rd_values_def)
qed

interpretation values_codec: codec values_bytes rd_values "\<lambda>vs. \<forall>v \<in> set vs. wf_value v" "map norm_value"
  by unfold_locales (rule rd_values_at)

lemma decode_row_canonical:
  assumes "row_canonical_bytes r = Inr bs" and "wf_row r" and "length bs \<le> USIZE_MAX"
  shows "decode_row bs = Inr (norm_row r)"
proof -
  obtain k v where k: "values_bytes (row_key r) = Inr k" and v: "values_bytes (row_values r) = Inr v"
    and bs: "bs = field (as_bytes (row_table r)) @ k @ v"
    using assms(1) by (auto simp: row_canonical_bytes_def key_bytes_def)
  let ?t = "field (as_bytes (row_table r))"
  have "rd_string \<lparr>rd_data = bs, rd_pos = 0\<rparr> = Inr (row_table r, reader_at ?t (k @ v))"
    using rd_string_at [of "[]" "row_table r" "k @ v"] assms by (simp add: bs reader_at_def wf_row_def)
  moreover have "rd_values (reader_at ?t (k @ v)) = Inr (map norm_value (row_key r), reader_at (?t @ k) v)"
    using assms(2,3) by (intro rd_values_at [OF k]) (simp_all add: bs wf_row_def)
  moreover have "rd_values (reader_at (?t @ k) v)
      = Inr (map norm_value (row_values r), reader_at bs [])"
    using assms(2,3) rd_values_at [OF v, of "?t @ k" "[]"] by (simp add: bs wf_row_def)
  ultimately show ?thesis
    by (simp add: decode_row_def norm_row_def) (simp add: reader_at_def)
qed

interpretation row_codec: whole_codec row_canonical_bytes decode_row wf_row norm_row
  by unfold_locales (rule decode_row_canonical)

lemma key_bytes_determines:
  assumes "key_bytes r = Inr bs" and "key_bytes q = Inr bs" and "wf_row r" and "wf_row q"
    and "length bs \<le> USIZE_MAX"
  shows "row_table r = row_table q \<and> map norm_value (row_key r) = map norm_value (row_key q)"
proof -
  obtain k l where k: "values_bytes (row_key r) = Inr k" and l: "values_bytes (row_key q) = Inr l"
    and bs: "bs = field (as_bytes (row_table r)) @ k" and bs': "bs = field (as_bytes (row_table q)) @ l"
    using assms(1,2) by (auto simp: key_bytes_def)
  have eq: "field (as_bytes (row_table r)) @ k = field (as_bytes (row_table q)) @ l"
    using bs bs' by simp
  have "row_table r = row_table q \<and> k = l"
    using string_codec.prefix_free [OF refl refl _ _ eq] assms(3-5) bs by (simp add: wf_row_def)
  then show ?thesis
    using values_codec.injective [of "row_key r" k "row_key q"] k l assms(3-5) bs
    by (simp add: wf_row_def)
qed

subsection \<open>Decimals denote the number they are normalised to\<close>

definition fraction_value :: "string \<Rightarrow> rat" where
  "fraction_value f = of_nat (digits_val f) / 10 ^ length f"

definition parts_value :: "bool \<times> string \<times> string \<Rightarrow> rat" where
  "parts_value p = (case p of (neg, w, f) \<Rightarrow>
     (if neg then - 1 else 1) * (of_nat (digits_val w) + fraction_value f))"

text \<open>The rational number an exact decimal text denotes.\<close>

definition decimal_value :: "string \<Rightarrow> rat option" where
  "decimal_value s = (case decimal_parts s of Inl _ \<Rightarrow> None | Inr p \<Rightarrow> Some (parts_value p))"

lemma digits_val_simps [simp]:
  "digits_val [] = 0"
  "digits_val (s @ [c]) = 10 * digits_val s + digit_val c"
  by (simp add: digits_val_def) (rule digits_val_append1)

lemma digit_val_less: "is_digit c \<Longrightarrow> digit_val c < 10"
  by (auto simp: is_digit_def digit_val_def Let_def)

lemma digit_char_val: "is_digit c \<Longrightarrow> digit_char (digit_val c) = c"
  by (auto simp: is_digit_def digit_val_def digit_char_def Let_def)

lemma digit_val_inj: "is_digit c \<Longrightarrow> is_digit d \<Longrightarrow> digit_val c = digit_val d \<Longrightarrow> c = d"
  by (metis digit_char_val)

lemma digit_zero: "digit_val CHR 0x30 = 0" "is_digit CHR 0x30"
  by code_simp+

lemma digit_val_zero: "is_digit c \<Longrightarrow> digit_val c = 0 \<longleftrightarrow> c = CHR 0x30"
  using digit_val_inj [of c "CHR 0x30"] digit_zero by auto

lemma nat_to_string_digit: "is_digit c \<Longrightarrow> nat_to_string (digit_val c) = [c]"
  by (subst nat_to_string.simps) (simp add: digit_val_less digit_char_val)

lemma nat_to_string_snoc:
  "0 < n \<Longrightarrow> is_digit c \<Longrightarrow> nat_to_string (10 * n + digit_val c) = nat_to_string n @ [c]"
  by (subst nat_to_string.simps) (simp add: digit_val_less digit_char_val)

lemma digits_val_less: "all_digits s \<Longrightarrow> digits_val s < 10 ^ length s"
proof (induction s rule: rev_induct)
  case (snoc c s)
  then have "digits_val s + 1 \<le> 10 ^ length s" and "digit_val c < 10"
    by (simp_all add: digit_val_less)
  then show ?case by simp
qed simp

lemma digits_val_inj:
  "all_digits s \<Longrightarrow> all_digits t \<Longrightarrow> length s = length t \<Longrightarrow> digits_val s = digits_val t \<Longrightarrow> s = t"
proof (induction s arbitrary: t rule: rev_induct)
  case (snoc c s)
  obtain u d where t: "t = u @ [d]"
    using snoc.prems by (cases t rule: rev_cases) auto
  have "digit_val c < 10" "digit_val d < 10"
    using snoc.prems by (simp_all add: t digit_val_less)
  moreover have "10 * digits_val s + digit_val c = 10 * digits_val u + digit_val d"
    using snoc.prems by (simp add: t)
  ultimately have "digits_val s = digits_val u" and "digit_val c = digit_val d"
    by presburger+
  with snoc show ?case by (auto simp: t digit_val_inj)
qed simp

text \<open>The whole part of the normal form is the shortest numeral of its value.\<close>

definition norm_whole :: "string \<Rightarrow> string" where
  "norm_whole w = (if trim_start_matches CHR 0x30 w = [] then ''0'' else trim_start_matches CHR 0x30 w)"

definition norm_fraction :: "string \<Rightarrow> string" where
  "norm_fraction f = trim_end_matches CHR 0x30 f"

lemma nat_to_string_0: "nat_to_string 0 = ''0''"
  by code_simp

lemma trim_start_matches_append:
  "trim_start_matches c (s @ t) = (if trim_start_matches c s = [] then trim_start_matches c t
     else trim_start_matches c s @ t)"
  by (induction s) (auto simp: trim_start_matches_def)

lemma norm_whole_value: "all_digits w \<Longrightarrow> norm_whole w = nat_to_string (digits_val w)"
proof (induction w rule: rev_induct)
  case Nil
  then show ?case by (simp add: norm_whole_def trim_start_matches_def nat_to_string_0)
next
  case (snoc c w)
  then have c: "is_digit c" and IH: "norm_whole w = nat_to_string (digits_val w)" by simp_all
  show ?case
  proof (cases "digits_val w = 0")
    case True
    with IH have "trim_start_matches CHR 0x30 w = [] \<or> trim_start_matches CHR 0x30 w = ''0''"
      by (simp add: norm_whole_def nat_to_string_0 split: if_splits)
    moreover have "trim_start_matches CHR 0x30 w \<noteq> ''0''"
      by (auto simp: trim_start_matches_def dropWhile_eq_Cons_conv)
    ultimately have "trim_start_matches CHR 0x30 w = []" by blast
    then have "norm_whole (w @ [c]) = [c]"
      by (simp add: norm_whole_def trim_start_matches_append) (simp add: trim_start_matches_def)
    with True c show ?thesis
      by (simp add: nat_to_string_digit)
  next
    case False
    with IH have "trim_start_matches CHR 0x30 w \<noteq> []"
      using nat_to_string_inj [of "digits_val w" 0] by (auto simp: norm_whole_def nat_to_string_0)
    with IH have "norm_whole (w @ [c]) = nat_to_string (digits_val w) @ [c]"
      by (simp add: norm_whole_def trim_start_matches_append)
    also have "\<dots> = nat_to_string (10 * digits_val w + digit_val c)"
      using False c by (simp add: nat_to_string_snoc)
    finally show ?thesis by simp
  qed
qed

lemma norm_fraction_snoc:
  "norm_fraction (s @ [c]) = (if c = CHR 0x30 then norm_fraction s else s @ [c])"
  by (simp add: norm_fraction_def trim_end_matches_def)

lemma norm_fraction_value: "fraction_value (norm_fraction f) = fraction_value f"
proof (induction f rule: rev_induct)
  case Nil
  then show ?case by (simp add: norm_fraction_def trim_end_matches_def)
next
  case (snoc c f)
  have "digit_val CHR 0x30 = 0" by code_simp
  with snoc show ?case
    by (simp add: norm_fraction_snoc) (simp add: fraction_value_def)
qed

lemma norm_fraction_last: "norm_fraction f \<noteq> [] \<Longrightarrow> last (norm_fraction f) \<noteq> CHR 0x30"
  by (induction f rule: rev_induct)
     (auto simp: norm_fraction_snoc, simp add: norm_fraction_def trim_end_matches_def)

lemma fraction_value_bounds:
  assumes "all_digits f"
  shows "0 \<le> fraction_value f" and "fraction_value f < 1"
proof -
  have "(of_nat (digits_val f) :: rat) < of_nat (10 ^ length f)"
    using digits_val_less [OF assms] by (simp only: of_nat_less_iff)
  then show "fraction_value f < 1"
    by (simp add: fraction_value_def)
qed (simp add: fraction_value_def)

lemma fraction_value_longer:
  assumes "all_digits f" "all_digits g" "length f < length g" "fraction_value f = fraction_value g"
  shows "last g = CHR 0x30"
proof -
  obtain h c where g: "g = h @ [c]"
    using assms(3) by (cases g rule: rev_cases) auto
  define k where "k = length g - length f"
  have k: "length g = length f + k" "0 < k" using assms(3) by (simp_all add: k_def)
  have "(of_nat (digits_val g) :: rat) = of_nat (digits_val f * 10 ^ k)"
    using assms(4) k by (simp add: fraction_value_def field_simps power_add)
  then have "digits_val g = digits_val f * 10 ^ k"
    by (simp only: of_nat_eq_iff)
  then have "digits_val g mod 10 = 0"
    using k by (cases k) simp_all
  moreover have "digit_val c < 10"
    using assms(2) digit_val_less [of c] by (simp add: g)
  ultimately have "digit_val c = 0"
    by (simp add: g)
  with assms(2) show ?thesis by (simp add: g digit_val_zero)
qed

lemma fraction_value_inj:
  assumes "all_digits f" "all_digits g" "fraction_value f = fraction_value g"
  shows "norm_fraction f = norm_fraction g"
proof -
  define x y where "x = norm_fraction f" and "y = norm_fraction g"
  have dig: "all_digits x" "all_digits y"
    using assms by (simp_all add: x_def y_def norm_fraction_def all_digits_trim)
  have val: "fraction_value x = fraction_value y"
    using assms by (simp add: x_def y_def norm_fraction_value)
  have last: "x = [] \<or> last x \<noteq> CHR 0x30" "y = [] \<or> last y \<noteq> CHR 0x30"
    using norm_fraction_last by (auto simp: x_def y_def)
  have "length x = length y"
    using fraction_value_longer [of x y] fraction_value_longer [of y x] dig val last
    by (cases "length x" "length y" rule: linorder_cases) auto
  moreover from this val have "digits_val x = digits_val y"
    by (simp add: fraction_value_def)
  ultimately show ?thesis
    using dig digits_val_inj by (simp add: x_def y_def)
qed

lemma render_decimal_alt:
  "render_decimal neg w f =
     (if neg \<and> (norm_whole w \<noteq> ''0'' \<or> norm_fraction f \<noteq> []) then ''-'' else []) @ norm_whole w
       @ (if norm_fraction f = [] then [] else CHR 0x2E # norm_fraction f)"
  by (simp add: render_decimal_def Let_def norm_whole_def norm_fraction_def)

lemma norm_digits:
  "all_digits w \<Longrightarrow> all_digits (norm_whole w)"
  "norm_whole w \<noteq> []"
  "all_digits f \<Longrightarrow> all_digits (norm_fraction f)"
  using digit_zero by (auto simp: norm_whole_def norm_fraction_def all_digits_trim)

lemma split_char_digits:
  "all_digits w \<Longrightarrow> split_char CHR 0x2E w = [w]"
  "all_digits w \<Longrightarrow> all_digits f \<Longrightarrow> split_char CHR 0x2E (w @ CHR 0x2E # f) = [w, f]"
proof -
  have "\<not> is_digit CHR 0x2E" by code_simp
  then have dot: "is_digit c \<Longrightarrow> c \<noteq> CHR 0x2E" for c by blast
  have one: "all_digits w \<Longrightarrow> split_char CHR 0x2E w = [w]" for w
    by (induction w) (auto dest: dot)
  show "all_digits w \<Longrightarrow> split_char CHR 0x2E w = [w]" by (rule one)
  show "all_digits w \<Longrightarrow> all_digits f \<Longrightarrow> split_char CHR 0x2E (w @ CHR 0x2E # f) = [w, f]"
    by (induction w) (auto simp: one dest: dot)
qed

lemma strip_prefix_digits:
  "all_digits w \<Longrightarrow> w \<noteq> [] \<Longrightarrow> strip_prefix ''-'' (w @ r) = None"
  "all_digits w \<Longrightarrow> w \<noteq> [] \<Longrightarrow> strip_prefix ''+'' (w @ r) = None"
  "strip_prefix ''-'' (CHR 0x2D # s) = Some s"
proof -
  have "\<not> is_digit CHR 0x2D" and "\<not> is_digit CHR 0x2B" by code_simp+
  then show "all_digits w \<Longrightarrow> w \<noteq> [] \<Longrightarrow> strip_prefix ''-'' (w @ r) = None"
    and "all_digits w \<Longrightarrow> w \<noteq> [] \<Longrightarrow> strip_prefix ''+'' (w @ r) = None"
    by (cases w; auto simp: strip_prefix_def starts_with_def)+
qed (simp add: strip_prefix_Some_iff)

lemma decimal_parts_plain:
  assumes "all_digits w" "w \<noteq> []" "all_digits f"
  shows "decimal_parts (w @ (if f = [] then [] else CHR 0x2E # f)) = Inr (False, w, f)"
    and "decimal_parts (CHR 0x2D # w @ (if f = [] then [] else CHR 0x2E # f)) = Inr (True, w, f)"
proof -
  let ?t = "w @ (if f = [] then [] else CHR 0x2E # f)"
  have "split_char CHR 0x2E ?t = (if f = [] then [w] else [w, f])"
    using assms by (simp add: split_char_digits)
  then show "decimal_parts ?t = Inr (False, w, f)" and "decimal_parts (CHR 0x2D # ?t) = Inr (True, w, f)"
    unfolding decimal_parts_def strip_prefix_digits(1,2) [OF assms(1,2)] strip_prefix_digits(3)
    using assms by (auto simp: Let_def)
qed

lemma decimal_parts_render:
  assumes "all_digits w" "w \<noteq> []" "all_digits f"
  shows "decimal_parts (render_decimal neg w f) =
    Inr (neg \<and> (norm_whole w \<noteq> ''0'' \<or> norm_fraction f \<noteq> []), norm_whole w, norm_fraction f)"
  using assms decimal_parts_plain [of "norm_whole w" "norm_fraction f"] norm_digits
  unfolding render_decimal_alt by auto

lemma norm_whole_zero: "all_digits w \<Longrightarrow> norm_whole w = ''0'' \<longleftrightarrow> digits_val w = 0"
  unfolding norm_whole_value nat_to_string_0 [symmetric] by (rule nat_to_string_inj)

lemma norm_fraction_Nil: "norm_fraction [] = []" "fraction_value [] = 0"
  by (simp_all add: norm_fraction_def trim_end_matches_def fraction_value_def)

lemma norm_fraction_zero:
  assumes "all_digits f"
  shows "norm_fraction f = [] \<longleftrightarrow> fraction_value f = 0"
proof
  assume "norm_fraction f = []"
  then show "fraction_value f = 0"
    using norm_fraction_value [of f] by (simp add: norm_fraction_Nil)
next
  assume "fraction_value f = 0"
  then have "norm_fraction f = norm_fraction []"
    using assms by (intro fraction_value_inj) (simp_all add: norm_fraction_Nil)
  then show "norm_fraction f = []" by (simp add: norm_fraction_Nil)
qed

lemma norm_whole_same: "all_digits w \<Longrightarrow> digits_val (norm_whole w) = digits_val w"
  by (simp add: norm_whole_value)

lemma decimal_value_normalize:
  assumes "normalize_decimal s = Inr n"
  shows "decimal_value n = decimal_value s" and "decimal_value s \<noteq> None"
proof -
  obtain neg w f where p: "decimal_parts s = Inr (neg, w, f)" and n: "n = render_decimal neg w f"
    using assms by (auto simp: normalize_decimal_Inr)
  from decimal_parts_digits [OF p] have d: "w \<noteq> []" "all_digits w" "all_digits f" by simp_all
  show "decimal_value n = decimal_value s"
    using d by (auto simp: decimal_value_def p n decimal_parts_render parts_value_def norm_whole_same
      norm_fraction_value norm_whole_zero norm_fraction_zero)
  show "decimal_value s \<noteq> None" by (simp add: decimal_value_def p)
qed

lemma parts_value_inj:
  assumes d: "all_digits w" "all_digits f" "all_digits w'" "all_digits f'"
    and eq: "parts_value (neg, w, f) = parts_value (neg', w', f')"
  shows "render_decimal neg w f = render_decimal neg' w' f'"
proof -
  let ?a = "of_nat (digits_val w) + fraction_value f"
  let ?b = "of_nat (digits_val w') + fraction_value f'"
  have pos: "0 \<le> ?a" "0 \<le> ?b" using d fraction_value_bounds by simp_all
  have "?a = ?b" and sgn: "?a = 0 \<or> neg = neg'"
    using eq pos by (auto simp: parts_value_def split: if_splits)
  have "\<lfloor>?a\<rfloor> = int (digits_val w)" "\<lfloor>?b\<rfloor> = int (digits_val w')"
    using d fraction_value_bounds [of f] fraction_value_bounds [of f'] by (simp_all add: floor_eq_iff)
  with \<open>?a = ?b\<close> have w: "digits_val w = digits_val w'" by linarith
  with \<open>?a = ?b\<close> have f: "fraction_value f = fraction_value f'" by simp
  have "norm_fraction f = norm_fraction f'"
    by (rule fraction_value_inj [OF d(2,4) f])
  moreover have "norm_whole w = norm_whole w'"
    using w d by (simp add: norm_whole_value)
  moreover have "?a = 0 \<longleftrightarrow> norm_whole w = ''0'' \<and> norm_fraction f = []"
    using fraction_value_bounds(1) [OF d(2)]
    unfolding norm_whole_zero [OF d(1)] norm_fraction_zero [OF d(2)]
    by (simp add: add_nonneg_eq_0_iff)
  ultimately show ?thesis using sgn by (auto simp: render_decimal_alt)
qed

lemma normalize_decimal_complete:
  assumes "normalize_decimal s = Inr n" and "normalize_decimal t = Inr m"
  shows "n = m \<longleftrightarrow> decimal_value s = decimal_value t"
proof
  show "n = m \<Longrightarrow> decimal_value s = decimal_value t"
    using decimal_value_normalize [OF assms(1)] decimal_value_normalize [OF assms(2)] by simp
next
  assume eq: "decimal_value s = decimal_value t"
  obtain neg w f neg' w' f' where p: "decimal_parts s = Inr (neg, w, f)" "n = render_decimal neg w f"
    "decimal_parts t = Inr (neg', w', f')" "m = render_decimal neg' w' f'"
    using assms by (auto simp: normalize_decimal_Inr)
  with eq have "parts_value (neg, w, f) = parts_value (neg', w', f')"
    by (simp add: decimal_value_def)
  with p decimal_parts_digits [OF p(1)] decimal_parts_digits [OF p(3)] show "n = m"
    by (auto intro: parts_value_inj)
qed

lemma normalize_decimal_idem: "normalize_decimal s = Inr n \<Longrightarrow> normalize_decimal n = Inr n"
proof -
  assume a: "normalize_decimal s = Inr n"
  then obtain neg w f where p: "decimal_parts s = Inr (neg, w, f)" and n: "n = render_decimal neg w f"
    by (auto simp: normalize_decimal_Inr)
  from decimal_parts_digits [OF p] have "w \<noteq> []" "all_digits w" "all_digits f" by simp_all
  then obtain m where m: "normalize_decimal n = Inr m"
    by (simp add: normalize_decimal_def n decimal_parts_render)
  then show ?thesis
    using normalize_decimal_complete [OF a m] decimal_value_normalize [OF a] by simp
qed

subsection \<open>The size the budget accounts for\<close>

lemma decimal_parts_shape:
  assumes "decimal_parts s = Inr (neg, w, f)"
  shows "(if neg then 1 else 0) + length w + (if f = [] then 0 else 1 + length f) \<le> length s"
proof -
  obtain digits where len: "(if neg then 1 else 0) + length digits \<le> length s"
    and parts: "length (split_char CHR 0x2E digits) \<le> 2"
      "w = (case split_char CHR 0x2E digits of w # _ \<Rightarrow> w | _ \<Rightarrow> [])"
      "f = (case split_char CHR 0x2E digits of _ # f # _ \<Rightarrow> f | _ \<Rightarrow> [])"
  proof (cases "strip_prefix ''-'' s")
    case None
    show ?thesis
      by (rule that [of "unwrap_or s (strip_prefix ''+'' s)"])
         (use assms None in \<open>auto simp: decimal_parts_def Let_def strip_prefix_Some_iff
            unwrap_or_def split: if_splits option.splits\<close>)
  next
    case (Some d)
    show ?thesis
      by (rule that [of d])
         (use assms Some in \<open>auto simp: decimal_parts_def Let_def strip_prefix_Some_iff split: if_splits\<close>)
  qed
  have "length w + (if f = [] then 0 else 1 + length f) \<le> length digits"
    using split_char_join [of "CHR 0x2E" digits] parts
    by (auto split: list.splits)
  with len show ?thesis by simp
qed

lemma norm_length:
  "w \<noteq> [] \<Longrightarrow> length (norm_whole w) \<le> length w"
  "length (norm_fraction f) \<le> length f"
  by (simp_all add: norm_whole_def norm_fraction_def trim_start_matches_def trim_end_matches_def
      length_dropWhile_le Suc_le_eq) (metis length_dropWhile_le length_rev)

lemma normalize_decimal_length:
  assumes "normalize_decimal s = Inr n"
  shows "length n \<le> length s"
proof -
  obtain neg w f where p: "decimal_parts s = Inr (neg, w, f)" and n: "n = render_decimal neg w f"
    using assms by (auto simp: normalize_decimal_Inr)
  have "w \<noteq> []" using decimal_parts_digits [OF p] by simp
  then have "length n \<le> (if neg then 1 else 0) + length w + (if f = [] then 0 else 1 + length f)"
    using norm_length(1) [of w] norm_length(2) [of f] unfolding n render_decimal_alt by auto
  with decimal_parts_shape [OF p] show ?thesis by simp
qed

lemma canonical_bytes_size:
  assumes "canonical_bytes v = Inr b" and "wf_value v" and "length b \<le> USIZE_MAX"
  shows "length b \<le> encoded_size v"
proof (cases v)
  case (Decimal s)
  then obtain n where "normalize_decimal s = Inr n" "b = 4 # field (as_bytes n)"
    using assms by auto
  then show ?thesis
    using normalize_decimal_length [of s n] assms(3)
    by (simp add: Decimal field_def saturating_add_def)
qed (use assms in \<open>auto simp: field_def saturating_add_def\<close>)

lemma fields_size:
  assumes "list_all2 (\<lambda>v f. \<exists>b. canonical_bytes v = Inr b \<and> f = field b) vs fs"
    and "\<forall>v \<in> set vs. wf_value v" and "length (concat fs) + n \<le> USIZE_MAX" and "n \<le> m"
  shows "length (concat fs) + n \<le> foldl (\<lambda>n v. saturating_add (saturating_add n 8) (encoded_size v)) m vs"
  using assms
proof (induction vs fs arbitrary: n m rule: list_all2_induct)
  case (Cons v vs f fs)
  then obtain b where b: "canonical_bytes v = Inr b" and f: "f = field b" by blast
  have "length b \<le> encoded_size v"
    using Cons.prems by (intro canonical_bytes_size [OF b]) (simp_all add: f field_def)
  then have "n + length f \<le> saturating_add (saturating_add m 8) (encoded_size v)"
    using Cons.prems by (simp add: f field_def saturating_add_def)
  from Cons.IH [OF _ _ this] Cons.prems show ?case by (simp add: ac_simps)
qed simp

lemma row_bytes_size:
  assumes "row_canonical_bytes r = Inr bs" and "wf_row r" and "length bs \<le> USIZE_MAX"
  shows "length bs \<le> row_encoded_size r"
proof -
  let ?rel = "list_all2 (\<lambda>v f. \<exists>b. canonical_bytes v = Inr b \<and> f = field b)"
  obtain ks vs where k: "?rel (row_key r) ks" and v: "?rel (row_values r) vs"
    and bs: "bs = field (as_bytes (row_table r)) @ (be_bytes 8 (length (row_key r)) @ concat ks)
      @ be_bytes 8 (length (row_values r)) @ concat vs"
    using assms(1) by (auto simp: row_canonical_bytes_def key_bytes_def values_bytes_Inr)
  have "?rel (row_key r @ row_values r) (ks @ vs)" using k v by (rule list_all2_appendI)
  moreover have "length (concat (ks @ vs)) + (24 + length (row_table r)) = length bs"
    by (simp add: bs field_def)
  ultimately show ?thesis
    using fields_size [of "row_key r @ row_values r" "ks @ vs" "24 + length (row_table r)"
        "saturating_add 24 (length (row_table r))"] assms(2,3)
    unfolding row_encoded_size_def by (simp add: wf_row_def ball_Un saturating_add_def)
qed

subsection \<open>Properties\<close>

text \<open>
  C1. A row written to a snapshot as canonical bytes is read back by \<open>decode\_row\<close> as the same
  row, its decimals in normal form. The row holds UTF-8 texts and 16-byte UUIDs, as its Rust
  types say, and its encoding fits the address space.
\<close>

theorem decode_row_round_trip:
  assumes "row_canonical_bytes r = Inr bs" and "wf_row r" and "length bs \<le> USIZE_MAX"
  shows "decode_row bs = Inr (norm_row r)"
  using assms by (rule row_codec.whole)

definition example_row :: canonical_row where
  "example_row = \<lparr>row_table = ''t'', row_key = [Int64 7, Uuid (replicate 16 1)],
     row_values = [Decimal ''-007.10'', Null, Text ''x'', Temporal ''date'' ''2024-01-01'']\<rparr>"

definition example_bytes :: bytes where
  "example_bytes = (case row_canonical_bytes example_row of Inl _ \<Rightarrow> [] | Inr bs \<Rightarrow> bs)"

lemma example_bytes_facts:
  "row_canonical_bytes example_row = Inr example_bytes"
  "wf_row example_row" "length example_bytes = 154"
  by code_simp+

lemma example_bytes_fit: "length example_bytes \<le> USIZE_MAX"
  by (simp add: example_bytes_facts USIZE_MAX_def)

theorem decode_row_round_trip_witness:
  "decode_row example_bytes = Inr (norm_row example_row)
     \<and> row_values (norm_row example_row) ! 0 = Decimal ''-7.1''"
  using decode_row_round_trip [OF example_bytes_facts(1,2) example_bytes_fit]
  by (rule conjI) code_simp

text \<open>
  C2. The key bytes a data task compares, sorts and hashes identify the row: two rows with the
  same key bytes are rows of the same table with the same key, decimals compared by value.
\<close>

theorem key_bytes_injective:
  assumes "key_bytes r = Inr bs" and "key_bytes q = Inr bs" and "wf_row r" and "wf_row q"
    and "length bs \<le> USIZE_MAX"
  shows "row_table r = row_table q \<and> map norm_value (row_key r) = map norm_value (row_key q)"
  using assms by (rule key_bytes_determines)

definition example_keys :: "canonical_row \<times> canonical_row" where
  "example_keys = (\<lparr>row_table = ''t'', row_key = [Decimal ''1.50''], row_values = [Null]\<rparr>,
     \<lparr>row_table = ''t'', row_key = [Decimal ''+01.5''], row_values = []\<rparr>)"

theorem key_bytes_injective_witness:
  "map norm_value (row_key (fst example_keys)) = map norm_value (row_key (snd example_keys))"
proof -
  have k: "key_bytes (fst example_keys) = Inr (case key_bytes (fst example_keys) of Inr b \<Rightarrow> b)"
    "key_bytes (snd example_keys) = Inr (case key_bytes (fst example_keys) of Inr b \<Rightarrow> b)"
    "wf_row (fst example_keys)" "wf_row (snd example_keys)"
    "length (case key_bytes (fst example_keys) of Inr b \<Rightarrow> b) = 37"
    by code_simp+
  then show ?thesis
    using key_bytes_injective [OF k(1-4)] by (simp add: USIZE_MAX_def)
qed

text \<open>
  C3. Exact decimals are normalised by value: the normal form of a decimal text denotes the
  same rational number, normalising again changes nothing, and two texts have the same
  normal form exactly when they denote the same number.
\<close>

theorem normalize_decimal_exact:
  assumes "normalize_decimal s = Inr n" and "normalize_decimal t = Inr m"
  shows "decimal_value s \<noteq> None \<and> decimal_value n = decimal_value s
    \<and> normalize_decimal n = Inr n \<and> (n = m \<longleftrightarrow> decimal_value s = decimal_value t)"
  using decimal_value_normalize [OF assms(1)] normalize_decimal_idem [OF assms(1)]
    normalize_decimal_complete [OF assms] by simp

theorem normalize_decimal_exact_witness:
  "decimal_value ''-0.500'' = decimal_value ''-00.5'' \<and> decimal_value ''1'' \<noteq> decimal_value ''10''"
proof -
  have "normalize_decimal ''-0.500'' = Inr ''-0.5''" "normalize_decimal ''-00.5'' = Inr ''-0.5''"
    "normalize_decimal ''1'' = Inr ''1''" "normalize_decimal ''10'' = Inr ''10''"
    by code_simp+
  then show ?thesis
    using normalize_decimal_exact [of "''-0.500''" "''-0.5''" "''-00.5''" "''-0.5''"]
      normalize_decimal_exact [of "''1''" "''1''" "''10''" "''10''"] by simp
qed

text \<open>
  C4. The size a resource budget accounts for a row is never less than the number of bytes its
  canonical encoding takes, also where the size saturates.
\<close>

theorem encoded_size_bounds_bytes:
  assumes "row_canonical_bytes r = Inr bs" and "wf_row r" and "length bs \<le> USIZE_MAX"
  shows "length bs \<le> row_encoded_size r"
  using assms by (rule row_bytes_size)

theorem encoded_size_bounds_bytes_witness: "154 \<le> row_encoded_size example_row"
  using encoded_size_bounds_bytes [OF example_bytes_facts(1,2) example_bytes_fit]
  by (simp add: example_bytes_facts)

end
