(* ===== verification/Data_Models.thy ===== *)
theory Data_Models
  imports Rust_Prelude
begin

text \<open>
  The request and result types of a data task (\<open>src-tauri/src/models/data\_tasks.rs\<close>), the
  supported databases (\<open>src-tauri/src/models/types.rs\<close>) and the structural validation every
  request passes before anything is read.
\<close>

subsection \<open>Types\<close>

datatype database_type = MySql | Postgres | Sqlite | SqlServer | ClickHouse

datatype data_task_kind = RowSync | Transfer

datatype data_task_mode = Merge | Mirror | Append | Replace

definition PROTOCOL_VERSION :: nat where
  "PROTOCOL_VERSION = 1"

record data_endpoint =
  ep_connection :: string
  ep_database :: string

record column_mapping =
  source_column :: string
  target_column :: string

record table_mapping =
  source_table :: string
  target_table :: string
  columns :: "column_mapping list"

record data_task_request =
  protocol_version :: nat
  req_kind :: data_task_kind
  req_source :: data_endpoint
  req_target :: data_endpoint
  mappings :: "table_mapping list"
  req_mode :: data_task_mode

record data_task_error =
  err_code :: string
  err_message :: string

datatype data_task_status =
    Created | Validating | Reading | Comparing | Ready | Executing | Verifying | Committing
  | Cancelling | Succeeded | Failed | Cancelled | Expired | Interrupted | OutcomeUnknown | Partial

definition is_terminal :: "data_task_status \<Rightarrow> bool" where
  "is_terminal s \<longleftrightarrow>
     s \<in> {Succeeded, Failed, Cancelled, Expired, Interrupted, OutcomeUnknown, Partial}"

datatype data_commit_state =
  CommitNone | Committed | RolledBack | CommitUnknown | CommitPartial

record data_task_blocker =
  blk_code :: string
  blk_message :: string
  blk_table :: "string option"

record data_task_object =
  obj_table :: string
  obj_columns :: "string list"

record data_task_capabilities =
  cap_row_sync :: bool
  cap_transfer :: bool
  supported_modes :: "data_task_mode list"
  cap_blockers :: "data_task_blocker list"
  cap_source_tables :: "data_task_object list"
  cap_target_tables :: "data_task_object list"

record data_task_risk =
  risk_id :: string
  risk_message :: string
  required :: bool

text \<open>Row counts and times travel as decimal texts, so that a web view reads them exactly.\<close>

record data_task_counts =
  source_rows :: string
  target_rows :: string
  inserted :: string
  updated :: string
  deleted :: string
  unchanged :: string
  retained :: string
  written :: string
  verified :: string

definition default_counts :: data_task_counts where
  "default_counts = \<lparr>source_rows = ''0'', target_rows = ''0'', inserted = ''0'', updated = ''0'',
     deleted = ''0'', unchanged = ''0'', retained = ''0'', written = ''0'', verified = ''0''\<rparr>"

record data_table_preview =
  table_id :: string
  tp_source_table :: string
  tp_target_table :: string
  tp_counts :: data_task_counts

record data_task_preview =
  pv_task_id :: string
  pv_plan_id :: string
  pv_fingerprint :: string
  pv_source :: data_endpoint
  pv_target :: data_endpoint
  pv_kind :: data_task_kind
  pv_mode :: data_task_mode
  pv_tables :: "data_table_preview list"
  pv_source_captured_at :: string
  pv_target_captured_at :: string
  pv_expires_at :: string
  pv_risks :: "data_task_risk list"
  pv_blockers :: "data_task_blocker list"
  pv_can_execute :: bool
  pv_sql_examples :: "string list"

record data_task_result =
  res_status :: data_task_status
  res_commit_state :: data_commit_state
  res_tables :: "data_table_preview list"
  res_error :: "data_task_error option"
  cleanup_errors :: "string list"
  requires_target_refresh :: bool

datatype data_diff_operation = DiffInsert | DiffUpdate | DiffDelete | DiffRetain

record execute_input =
  ex_plan_id :: string
  ex_fingerprint :: string
  ex_execution_id :: string
  accepted_risk_ids :: "string list"

record data_task_snapshot =
  sn_task_id :: string
  sn_execution_id :: "string option"
  sn_sequence :: string
  sn_status :: data_task_status
  sn_request :: data_task_request
  sn_created_at :: string
  sn_updated_at :: string
  sn_read_rows :: string
  sn_written_rows :: string
  sn_verified_rows :: string
  sn_bytes :: string
  sn_elapsed_ms :: string
  sn_preview :: "data_task_preview option"
  sn_result :: "data_task_result option"

subsection \<open>Validation of a request\<close>

definition task_error :: "string \<Rightarrow> string \<Rightarrow> data_task_error" where
  "task_error c m = \<lparr>err_code = c, err_message = m\<rparr>"

definition mode_matches :: "data_task_kind \<Rightarrow> data_task_mode \<Rightarrow> bool" where
  "mode_matches k m \<longleftrightarrow> (case k of
     RowSync \<Rightarrow> m = Merge \<or> m = Mirror
   | Transfer \<Rightarrow> m = Append \<or> m = Replace)"

fun validate_columns ::
    "string list \<Rightarrow> string list \<Rightarrow> column_mapping list \<Rightarrow> data_task_error + unit" where
  "validate_columns sources targets [] = Inr ()"
| "validate_columns sources targets (c # cs) =
     (if source_column c = [] \<or> target_column c = [] \<or> source_column c \<in> set sources
         \<or> target_column c \<in> set targets
      then Inl (task_error ''invalid_mapping'' ''column mapping must be one to one and not empty'')
      else validate_columns (source_column c # sources) (target_column c # targets) cs)"

fun validate_tables :: "string list \<Rightarrow> table_mapping list \<Rightarrow> data_task_error + unit" where
  "validate_tables targets [] = Inr ()"
| "validate_tables targets (t # ts) =
     (if source_table t = [] \<or> target_table t = [] \<or> columns t = []
         \<or> target_table t \<in> set targets
      then Inl (task_error ''invalid_mapping'' ''table mapping is empty or repeats a target'')
      else rbind (validate_columns [] [] (columns t))
        (\<lambda>_. validate_tables (target_table t # targets) ts))"

definition validate :: "data_task_request \<Rightarrow> data_task_error + unit" where
  "validate r =
     (if protocol_version r \<noteq> PROTOCOL_VERSION
      then Inl (task_error ''unsupported_capability'' ''protocol version is not supported'')
      else if \<not> mode_matches (req_kind r) (req_mode r)
      then Inl (task_error ''unsupported_capability'' ''kind and mode do not match'')
      else if trim (ep_connection (req_source r)) = [] \<or> trim (ep_connection (req_target r)) = []
         \<or> trim (ep_database (req_source r)) = [] \<or> trim (ep_database (req_target r)) = []
         \<or> mappings r = [] \<or> 100 < length (mappings r)
      then Inl (task_error ''invalid_mapping'' ''choose endpoints and 1 to 100 tables'')
      else validate_tables [] (mappings r))"

text \<open>What a valid table mapping promises, independent of the order of the checks.\<close>

definition valid_table :: "table_mapping \<Rightarrow> bool" where
  "valid_table t \<longleftrightarrow> source_table t \<noteq> [] \<and> target_table t \<noteq> [] \<and> columns t \<noteq> []
     \<and> distinct (map source_column (columns t)) \<and> distinct (map target_column (columns t))
     \<and> (\<forall>c \<in> set (columns t). source_column c \<noteq> [] \<and> target_column c \<noteq> [])"

lemma validate_columns_ok:
  "is_ok (validate_columns ss ts cs) \<longleftrightarrow>
     distinct (map source_column cs) \<and> distinct (map target_column cs)
     \<and> set (map source_column cs) \<inter> set ss = {} \<and> set (map target_column cs) \<inter> set ts = {}
     \<and> (\<forall>c \<in> set cs. source_column c \<noteq> [] \<and> target_column c \<noteq> [])"
  by (induction cs arbitrary: ss ts) auto

lemma is_ok_rbind: "is_ok (rbind m f) \<longleftrightarrow> (\<exists>x. m = Inr x \<and> is_ok (f x))"
  by (cases m) auto

lemma is_ok_rbind_unit: "is_ok (rbind m (\<lambda>_. k)) \<longleftrightarrow> is_ok m \<and> is_ok k"
  by (cases m) auto

lemma validate_tables_ok:
  "is_ok (validate_tables ts ms) \<longleftrightarrow>
     distinct (map target_table ms) \<and> set (map target_table ms) \<inter> set ts = {}
     \<and> (\<forall>t \<in> set ms. valid_table t)"
proof (induction ms arbitrary: ts)
  case (Cons m ms)
  then show ?case
    by (auto simp: is_ok_rbind_unit validate_columns_ok valid_table_def)
qed simp

lemma validate_ok:
  "is_ok (validate r) \<longleftrightarrow>
     protocol_version r = PROTOCOL_VERSION \<and> mode_matches (req_kind r) (req_mode r)
     \<and> (\<forall>e \<in> {req_source r, req_target r}. trim (ep_connection e) \<noteq> [] \<and> trim (ep_database e) \<noteq> [])
     \<and> mappings r \<noteq> [] \<and> length (mappings r) \<le> 100
     \<and> distinct (map target_table (mappings r)) \<and> (\<forall>t \<in> set (mappings r). valid_table t)"
  by (auto simp: validate_def validate_tables_ok)

subsection \<open>Properties\<close>

definition sample_request :: data_task_request where
  "sample_request = \<lparr>protocol_version = 1, req_kind = Transfer,
     req_source = \<lparr>ep_connection = ''a'', ep_database = ''db''\<rparr>,
     req_target = \<lparr>ep_connection = ''b'', ep_database = '' db''\<rparr>,
     mappings = [\<lparr>source_table = ''s'', target_table = ''t'',
       columns = [\<lparr>source_column = ''x'', target_column = ''x''\<rparr>]\<rparr>], req_mode = Append\<rparr>"

text \<open>
  C9. Validation of a request accepts exactly the well-formed ones: the protocol version, a mode of
  the kind, endpoints that are not blank, 1 to 100 tables with distinct targets, and in each
  table a non-empty one-to-one column mapping.
\<close>

theorem validate_accepts_exactly:
  "is_ok (validate r) \<longleftrightarrow>
     protocol_version r = PROTOCOL_VERSION \<and> mode_matches (req_kind r) (req_mode r)
     \<and> (\<forall>e \<in> {req_source r, req_target r}. trim (ep_connection e) \<noteq> [] \<and> trim (ep_database e) \<noteq> [])
     \<and> mappings r \<noteq> [] \<and> length (mappings r) \<le> 100
     \<and> distinct (map target_table (mappings r)) \<and> (\<forall>t \<in> set (mappings r). valid_table t)"
  by (rule validate_ok)

theorem validate_accepts_exactly_witness:
  "is_ok (validate sample_request)
     \<and> \<not> is_ok (validate (sample_request\<lparr>mappings := mappings sample_request @ mappings sample_request\<rparr>))"
proof -
  have "is_ok (validate sample_request)"
    unfolding validate_accepts_exactly by code_simp
  moreover have "\<not> is_ok (validate (sample_request\<lparr>mappings := mappings sample_request @ mappings sample_request\<rparr>))"
    unfolding validate_accepts_exactly by code_simp
  ultimately show ?thesis ..
qed

end
