(* ===== verification/Type_Mapping.thy ===== *)
theory Type_Mapping
  imports Data_Value Data_Models
begin

text \<open>
  The types a transfer may read and write (\<open>src-tauri/src/db/data\_tasks/type\_mapping.rs\<close>):
  how declared types are parsed, which pairs are compatible, and how temporal values are
  brought to the form the target reads.
\<close>

subsection \<open>Parsing declared types\<close>

datatype data_type =
    TInteger nat bool
  | TDecimal nat nat
  | TText "nat option"
  | TBinary "nat option"
  | TBoolean
  | TFloat nat
  | TTemporal string nat
  | TUuid
  | TJson

definition U16_MAX :: nat where
  "U16_MAX = 65535"

definition U8_MAX :: nat where
  "U8_MAX = 255"

text \<open>A loop that may return from the function: \<open>Some r\<close> returns \<open>r\<close>, \<open>None\<close> goes on.\<close>

fun first_return :: "('a \<Rightarrow> 'b option) \<Rightarrow> 'a list \<Rightarrow> 'b option" where
  "first_return f [] = None"
| "first_return f (x # xs) = (case f x of None \<Rightarrow> first_return f xs | Some r \<Rightarrow> Some r)"

definition integer_bits :: "string \<Rightarrow> nat option" where
  "integer_bits base =
     (if base \<in> {''TINYINT'', ''INT1''} then Some 8
      else if base \<in> {''SMALLINT'', ''INT2''} then Some 16
      else if base = ''MEDIUMINT'' then Some 24
      else if base \<in> {''INT'', ''INTEGER'', ''INT4''} then Some 32
      else if base \<in> {''BIGINT'', ''INT8''} then Some 64
      else None)"

text \<open>The text between the parentheses after a type name.\<close>

definition type_args :: "string \<Rightarrow> string \<Rightarrow> string option" where
  "type_args t prefix = Option.bind (strip_prefix prefix t) (\<lambda>r.
     Option.bind (strip_prefix ''('' r) (\<lambda>r. strip_suffix '')'' r))"

definition parse_decimal_args :: "string \<Rightarrow> data_type option" where
  "parse_decimal_args p =
     (case map trim (split_char CHR '','' p) of
        a # b # rest \<Rightarrow>
          Option.bind (parse_uint U16_MAX a) (\<lambda>precision.
          Option.bind (parse_uint U16_MAX b) (\<lambda>scale.
            if rest = [] \<and> 0 < precision \<and> precision \<le> 76 \<and> scale \<le> precision
            then Some (TDecimal precision scale) else None))
      | _ \<Rightarrow> None)"

definition temporal_kinds :: "string list" where
  "temporal_kinds =
     [''TIMESTAMP WITH TIME ZONE'', ''TIMESTAMP WITHOUT TIME ZONE'', ''DATETIMEOFFSET'',
      ''TIMESTAMP'', ''DATETIME2'', ''DATETIME'', ''TIME'', ''DATE'']"

definition parse_temporal :: "string \<Rightarrow> string \<Rightarrow> data_type option option" where
  "parse_temporal t kind =
     (if t = kind then Some (Some (TTemporal kind 6))
      else (case type_args t kind of
        None \<Rightarrow> None
      | Some n \<Rightarrow> (case parse_uint U8_MAX n of
          None \<Rightarrow> Some None
        | Some precision \<Rightarrow>
            if precision \<le> 9 then Some (Some (TTemporal kind precision)) else None)))"

definition parse_other :: "string \<Rightarrow> data_type option" where
  "parse_other t =
     (let decimal = first_return (\<lambda>prefix. map_option parse_decimal_args (type_args t prefix))
        [''DECIMAL'', ''NUMERIC''] in
      case decimal of Some r \<Rightarrow> r | None \<Rightarrow>
      if t \<in> {''TEXT'', ''CLOB'', ''LONGTEXT'', ''MEDIUMTEXT'', ''NVARCHAR(MAX)'', ''VARCHAR(MAX)''}
      then Some (TText None) else
      (let texts = first_return (\<lambda>prefix.
           map_option (\<lambda>n. map_option (\<lambda>k. TText (Some k)) (parse_uint U64_MAX n)) (type_args t prefix))
         [''VARCHAR'', ''NVARCHAR'', ''CHAR'', ''NCHAR'', ''CHARACTER VARYING''] in
       case texts of Some r \<Rightarrow> r | None \<Rightarrow>
       if t \<in> {''BLOB'', ''LONGBLOB'', ''MEDIUMBLOB'', ''BYTEA'', ''VARBINARY(MAX)''}
       then Some (TBinary None) else
       (let binaries = first_return (\<lambda>prefix.
            map_option (\<lambda>n. map_option (\<lambda>k. TBinary (Some k)) (parse_uint U64_MAX n)) (type_args t prefix))
          [''VARBINARY'', ''BINARY''] in
        case binaries of Some r \<Rightarrow> r | None \<Rightarrow>
        if t \<in> {''BOOL'', ''BOOLEAN'', ''BIT''} then Some TBoolean
        else if t \<in> {''REAL'', ''FLOAT'', ''DOUBLE'', ''DOUBLE PRECISION''} then Some (TFloat 64)
        else if t = ''FLOAT4'' then Some (TFloat 32)
        else if t \<in> {''UUID'', ''UNIQUEIDENTIFIER''} then Some TUuid
        else if t = ''JSON'' then Some TJson
        else (case first_return (parse_temporal t) temporal_kinds of
            Some r \<Rightarrow> r | None \<Rightarrow> None))))"

definition parse :: "string \<Rightarrow> data_type option" where
  "parse declared =
     (let upper = to_ascii_uppercase (trim declared);
          t = join '' '' (split_whitespace upper);
          unsigned = ends_with '' UNSIGNED'' t;
          base = unwrap_or t (strip_suffix '' UNSIGNED'' t)
      in case integer_bits base of
           Some bits \<Rightarrow> Some (TInteger bits unsigned)
         | None \<Rightarrow> if unsigned then None else parse_other t)"

subsection \<open>Compatible types\<close>

datatype type_compatibility = Compatible | Unsupported

fun bound_fits :: "nat option \<Rightarrow> nat option \<Rightarrow> bool" where
  "bound_fits _ None = True"
| "bound_fits (Some a) (Some b) = (a \<le> b)"
| "bound_fits None (Some b) = False"

fun types_fit :: "data_type \<Rightarrow> data_type \<Rightarrow> bool" where
  "types_fit (TInteger a au) t = (case t of
     TInteger b bu \<Rightarrow> if au = bu then a \<le> b else au \<and> \<not> bu \<and> a < b | _ \<Rightarrow> False)"
| "types_fit (TDecimal a sa) t = (case t of
     TDecimal b sb \<Rightarrow> sa \<le> sb \<and> a - sa \<le> b - sb | _ \<Rightarrow> False)"
| "types_fit (TText a) t = (case t of TText b \<Rightarrow> bound_fits a b | _ \<Rightarrow> False)"
| "types_fit (TBinary a) t = (case t of TBinary b \<Rightarrow> bound_fits a b | _ \<Rightarrow> False)"
| "types_fit (TFloat a) t = (case t of TFloat b \<Rightarrow> a \<le> b | _ \<Rightarrow> False)"
| "types_fit TBoolean t = (t = TBoolean)"
| "types_fit TUuid t = (t = TUuid)"
| "types_fit TJson t = (t = TJson)"
| "types_fit (TTemporal a pa) t = (case t of TTemporal b pb \<Rightarrow> a = b \<and> pa \<le> pb | _ \<Rightarrow> False)"

definition resolve_transfer_type :: "string \<Rightarrow> string \<Rightarrow> type_compatibility" where
  "resolve_transfer_type source target =
     (case (parse source, parse target) of
        (Some s, Some t) \<Rightarrow> if types_fit s t then Compatible else Unsupported
      | _ \<Rightarrow> Unsupported)"

subsection \<open>The types of one database, under common names\<close>

definition clickhouse_type_name :: "string \<Rightarrow> string option" where
  "clickhouse_type_name upper =
     (let native = unwrap_or upper
        (Option.bind (strip_prefix ''NULLABLE('' upper) (strip_suffix '')''))
      in if native = ''INT8'' then Some ''TINYINT''
         else if native = ''INT16'' then Some ''SMALLINT''
         else if native = ''INT32'' then Some ''INTEGER''
         else if native = ''INT64'' then Some ''BIGINT''
         else if native = ''UINT8'' then Some ''TINYINT UNSIGNED''
         else if native = ''UINT16'' then Some ''SMALLINT UNSIGNED''
         else if native = ''UINT32'' then Some ''INTEGER UNSIGNED''
         else if native = ''UINT64'' then Some ''BIGINT UNSIGNED''
         else if native = ''STRING'' then Some ''LONGBLOB''
         else None)"

definition cross_rejected :: "database_type \<Rightarrow> string \<Rightarrow> bool" where
  "cross_rejected db upper \<longleftrightarrow>
     (db \<noteq> SqlServer \<and> upper = ''BIT'')
   \<or> (db = MySql \<and> upper \<in> {''BOOL'', ''BOOLEAN''})
   \<or> (db = MySql \<and> starts_with ''TIMESTAMP'' upper)
   \<or> (db = SqlServer \<and> upper \<in> {''DATETIME'', ''SMALLDATETIME'', ''TIMESTAMP'', ''ROWVERSION''})
   \<or> contains ''WITH TIME ZONE'' upper
   \<or> starts_with ''DATETIMEOFFSET'' upper"

definition naive_kind :: "database_type \<Rightarrow> string \<Rightarrow> string option" where
  "naive_kind db base =
     (if (db = Postgres \<and> base = ''TIMESTAMP'') \<or> (db = MySql \<and> base = ''DATETIME'')
         \<or> (db = SqlServer \<and> base = ''DATETIME2'') then Some ''TIMESTAMP''
      else if base = ''TIME'' then Some ''TIME'' else None)"

text \<open>
  The part of \<open>database\_type\_name\<close> for naive temporal types of a cross-database transfer:
  \<open>None\<close> when it does not return, \<open>Some r\<close> when the function returns \<open>r\<close>.
\<close>

definition cross_temporal_name :: "database_type \<Rightarrow> string \<Rightarrow> string option option" where
  "cross_temporal_name db upper =
     (let naive = unwrap_or upper (strip_suffix '' WITHOUT TIME ZONE'' upper);
          base = hd (split_char CHR ''('' naive)
      in if base = ''DATE'' then Some (Some ''DATE(0)'')
         else (case naive_kind db base of
           None \<Rightarrow> None
         | Some kind \<Rightarrow>
             (let precision =
                (if naive = base
                 then Some (case db of MySql \<Rightarrow> 0 | SqlServer \<Rightarrow> 7 | _ \<Rightarrow> 6)
                 else Option.bind (strip_prefix base naive) (\<lambda>r.
                      Option.bind (strip_prefix ''('' r) (\<lambda>r.
                      Option.bind (strip_suffix '')'' r) (parse_uint U8_MAX))))
              in Some (Option.bind precision (\<lambda>p.
                   if (if db = SqlServer then 7 else 6) < p then None
                   else Some (kind @ ''('' @ nat_to_string p @ '')''))))))"

definition is_temporal_type :: "data_type option \<Rightarrow> bool" where
  "is_temporal_type t = (case t of Some (TTemporal _ _) \<Rightarrow> True | _ \<Rightarrow> False)"

definition native_type_name :: "database_type \<Rightarrow> string \<Rightarrow> bool \<Rightarrow> bool \<Rightarrow> string option" where
  "native_type_name db upper cross tgt =
     (if db = Sqlite \<and> contains ''INT'' upper then Some ''BIGINT''
      else if db = Sqlite \<and> (upper = ''BOOL'' \<or> upper = ''BOOLEAN'') then Some ''BOOLEAN''
      else if db = Sqlite \<and> cross \<and> (starts_with ''NUMERIC'' upper \<or> starts_with ''DECIMAL'' upper
          \<or> is_temporal_type (parse upper)) then None
      else if db = SqlServer \<and> upper = ''TINYINT'' then Some ''TINYINT UNSIGNED''
      else if db \<in> {Postgres, SqlServer} \<and> upper = ''REAL'' then Some ''FLOAT4''
      else if db = MySql \<and> upper \<in> {''DATETIME'', ''TIMESTAMP'', ''TIME''} then Some (upper @ ''(0)'')
      else if db = MySql \<and> cross \<and> tgt \<and> upper \<in> {''TEXT'', ''TINYTEXT'', ''BLOB'', ''TINYBLOB''}
        then None
      else if db = MySql \<and> upper = ''FLOAT'' then Some ''FLOAT4''
      else Some upper)"

definition database_type_name ::
    "database_type \<Rightarrow> string \<Rightarrow> bool \<Rightarrow> bool \<Rightarrow> string option" where
  "database_type_name db declared cross tgt =
     (let upper = to_ascii_uppercase (trim declared) in
      if db = ClickHouse then clickhouse_type_name upper
      else if cross \<and> cross_rejected db upper then None
      else (case (if cross \<and> db \<in> {Postgres, MySql, SqlServer}
                  then cross_temporal_name db upper else None) of
              Some r \<Rightarrow> r
            | None \<Rightarrow> native_type_name db upper cross tgt))"

fun cross_pair :: "data_type \<Rightarrow> data_type \<Rightarrow> bool" where
  "cross_pair (TInteger _ _) t = (case t of TInteger _ _ \<Rightarrow> True | _ \<Rightarrow> False)"
| "cross_pair (TText _) t = (case t of TText _ \<Rightarrow> True | _ \<Rightarrow> False)"
| "cross_pair (TBinary _) t = (case t of TBinary _ \<Rightarrow> True | _ \<Rightarrow> False)"
| "cross_pair (TDecimal _ _) t = (case t of TDecimal _ _ \<Rightarrow> True | _ \<Rightarrow> False)"
| "cross_pair TBoolean t = (case t of TBoolean \<Rightarrow> True | TInteger _ _ \<Rightarrow> True | _ \<Rightarrow> False)"
| "cross_pair (TTemporal _ _) t = (case t of TTemporal _ _ \<Rightarrow> True | _ \<Rightarrow> False)"
| "cross_pair _ t = False"

definition resolve_database_transfer_type ::
    "database_type \<Rightarrow> string \<Rightarrow> database_type \<Rightarrow> string \<Rightarrow> type_compatibility" where
  "resolve_database_transfer_type source_db source target_db target =
     (if target_db = ClickHouse then Unsupported
      else (let cross = (source_db \<noteq> target_db) in
        case (database_type_name source_db source cross False,
              database_type_name target_db target cross True) of
          (Some s, Some t) \<Rightarrow>
            if cross \<and> \<not> (case (parse s, parse t) of
                (Some a, Some b) \<Rightarrow> cross_pair a b | _ \<Rightarrow> False) then Unsupported
            else if cross \<and> (case (parse s, parse t) of
                (Some TBoolean, Some (TInteger _ _)) \<Rightarrow> True | _ \<Rightarrow> False) then Compatible
            else resolve_transfer_type s t
        | _ \<Rightarrow> Unsupported))"

subsection \<open>Temporal values\<close>

text \<open>\<open>str::parse\<close> of a signed integer between \<open>lo\<close> and \<open>hi\<close>.\<close>

definition parse_int :: "int \<Rightarrow> int \<Rightarrow> string \<Rightarrow> int option" where
  "parse_int lo hi s =
     (let (neg, ds) = (case strip_prefix ''-'' s of
          Some r \<Rightarrow> (True, r) | None \<Rightarrow> (False, unwrap_or s (strip_prefix ''+'' s)));
        v = (if neg then - int (digits_val ds) else int (digits_val ds))
      in if ds \<noteq> [] \<and> all_digits ds \<and> lo \<le> v \<and> v \<le> hi then Some v else None)"

text \<open>
  \<open>calendar year month day\<close> stands for the calendar of the \<open>time\<close> package: the month is a
  month and the date exists.
\<close>

type_synonym calendar = "int \<Rightarrow> nat \<Rightarrow> nat \<Rightarrow> bool"

definition temporal_error :: "'a result" where
  "temporal_error =
     Inl ''unsupported_capability: temporal value outside the range or precision of the target''"

definition check_date :: "calendar \<Rightarrow> database_type \<Rightarrow> string \<Rightarrow> unit result" where
  "check_date calendar target_db date =
     (if length date \<noteq> 10 \<or> date ! 4 \<noteq> CHR ''-'' \<or> date ! 7 \<noteq> CHR ''-'' then temporal_error
      else (case (parse_int (- (2 ^ 31)) (2 ^ 31 - 1) (take 4 date),
                  parse_uint U8_MAX (take 2 (drop 5 date)), parse_uint U8_MAX (drop 8 date)) of
        (Some year, Some month, Some day) \<Rightarrow>
          if year < 1 \<or> 9999 < year \<or> (target_db = MySql \<and> year < 1000) then temporal_error
          else if \<not> calendar year month day then temporal_error
          else Inr ()
      | _ \<Rightarrow> temporal_error))"

text \<open>The clock part: the whole seconds and the fraction without its trailing zeros.\<close>

definition split_clock :: "string \<Rightarrow> nat \<Rightarrow> (string \<times> string) result" where
  "split_clock clock precision =
     (let (whole, fraction) = unwrap_or (clock, []) (split_once ''.'' clock) in
      if length whole \<noteq> 8 \<or> whole ! 2 \<noteq> CHR '':'' \<or> whole ! 5 \<noteq> CHR '':'' then temporal_error
      else (case (parse_uint U8_MAX (take 2 whole), parse_uint U8_MAX (take 2 (drop 3 whole)),
                  parse_uint U8_MAX (drop 6 whole)) of
        (Some hour, Some minute, Some second) \<Rightarrow>
          if 23 < hour \<or> 59 < minute \<or> 59 < second \<or> \<not> all_digits fraction then temporal_error
          else (let fraction = trim_end_matches CHR ''0'' fraction in
            if precision < length fraction then temporal_error else Inr (whole, fraction))
      | _ \<Rightarrow> temporal_error))"

definition pad_zeros :: "nat \<Rightarrow> string \<Rightarrow> string" where
  "pad_zeros width s = s @ replicate (width - length s) (CHR ''0'')"

definition render_clock :: "database_type \<Rightarrow> nat \<Rightarrow> string \<Rightarrow> string \<Rightarrow> string" where
  "render_clock target_db precision whole fraction =
     (let fraction = (if target_db = Postgres \<or> (target_db = SqlServer \<and> fraction = [])
        then fraction else pad_zeros precision fraction)
      in whole @ (if fraction = [] then [] else CHR ''.'' # fraction))"

definition split_temporal :: "string \<Rightarrow> string \<Rightarrow> (string option \<times> string option) result" where
  "split_temporal input kind =
     (if kind = ''DATE'' then Inr (Some input, None)
      else if kind = ''TIMESTAMP'' \<and> 11 < length input
          \<and> (input ! 10 = CHR '' '' \<or> input ! 10 = CHR ''T'')
      then Inr (Some (take 10 input), Some (drop 11 input))
      else if kind = ''TIME'' then Inr (None, Some input)
      else temporal_error)"

definition temporal_kind_name :: "string \<Rightarrow> database_type \<Rightarrow> string" where
  "temporal_kind_name kind target_db =
     (if kind = ''DATE'' then ''date'' else if kind = ''TIME'' then ''time''
      else if target_db = Postgres then ''timestamp''
      else if target_db = SqlServer then ''datetime2'' else ''datetime'')"

definition temporal_text ::
    "database_type \<Rightarrow> nat \<Rightarrow> string option \<Rightarrow> string option \<Rightarrow> string result" where
  "temporal_text target_db precision date clock =
     (case clock of
        None \<Rightarrow> Inr (unwrap_or [] date)
      | Some c \<Rightarrow> rbind (split_clock c precision) (\<lambda>(whole, fraction).
          Inr (unwrap_or [] date
            @ (if date = None then [] else if target_db = SqlServer then ''T'' else '' '')
            @ render_clock target_db precision whole fraction)))"

definition normalize_temporal ::
    "calendar \<Rightarrow> string \<Rightarrow> string \<Rightarrow> nat \<Rightarrow> database_type \<Rightarrow> data_value result" where
  "normalize_temporal calendar input kind precision target_db =
     (if \<not> (\<forall>c \<in> set input. is_ascii c) then temporal_error
      else rbind (split_temporal input kind) (\<lambda>(date, clock).
        rbind (case date of None \<Rightarrow> Inr () | Some d \<Rightarrow> check_date calendar target_db d) (\<lambda>_.
        rbind (temporal_text target_db precision date clock)
          (\<lambda>value. Inr (Temporal (temporal_kind_name kind target_db)
            (if target_db = MySql then normalize_mysql_temporal value else value))))))"

subsection \<open>Which values a type holds\<close>

fun integer_of :: "data_value \<Rightarrow> int option" where
  "integer_of (Int64 w) = Some (sint w)"
| "integer_of (UInt64 w) = Some (uint w)"
| "integer_of _ = None"

definition int_in_range :: "nat \<Rightarrow> bool \<Rightarrow> int \<Rightarrow> bool" where
  "int_in_range bits uns i \<longleftrightarrow>
     (if uns then 0 \<le> i \<and> i < 2 ^ bits else - (2 ^ (bits - 1)) \<le> i \<and> i < 2 ^ (bits - 1))"

definition in_limit :: "nat \<Rightarrow> nat option \<Rightarrow> bool" where
  "in_limit n limit \<longleftrightarrow> (case limit of None \<Rightarrow> True | Some m \<Rightarrow> n \<le> m)"

definition decimal_fits :: "nat \<Rightarrow> nat \<Rightarrow> string \<Rightarrow> bool" where
  "decimal_fits precision scale d \<longleftrightarrow> (case decimal_parts d of
     Inl _ \<Rightarrow> False
   | Inr (_, w, f) \<Rightarrow> length (trim_start_matches CHR ''0'' w) \<le> precision - scale
       \<and> length (trim_end_matches CHR ''0'' f) \<le> scale)"

definition temporal_fraction :: "string \<Rightarrow> string" where
  "temporal_fraction s = (case split_once ''.'' s of None \<Rightarrow> [] | Some (_, f) \<Rightarrow> norm_fraction f)"

fun fits :: "data_type \<Rightarrow> data_value \<Rightarrow> bool" where
  "fits (TInteger bits uns) v =
     (case integer_of v of None \<Rightarrow> False | Some i \<Rightarrow> int_in_range bits uns i)"
| "fits (TDecimal p s) v = (case v of Decimal d \<Rightarrow> decimal_fits p s d | _ \<Rightarrow> False)"
| "fits (TText limit) v = (case v of Text t \<Rightarrow> in_limit (char_count t) limit | _ \<Rightarrow> False)"
| "fits (TBinary limit) v = (case v of Binary b \<Rightarrow> in_limit (length b) limit | _ \<Rightarrow> False)"
| "fits TBoolean v = (case v of Bool _ \<Rightarrow> True | Int64 w \<Rightarrow> w = 0 \<or> w = 1 | _ \<Rightarrow> False)"
| "fits (TFloat _) v = (case v of Float _ \<Rightarrow> True | _ \<Rightarrow> False)"
| "fits (TTemporal kind p) v =
     (case v of Temporal _ t \<Rightarrow> length (temporal_fraction t) \<le> p | _ \<Rightarrow> False)"
| "fits TUuid v = (case v of Uuid _ \<Rightarrow> True | _ \<Rightarrow> False)"
| "fits TJson v = (case v of Json _ \<Rightarrow> True | _ \<Rightarrow> False)"

fun wf_type :: "data_type \<Rightarrow> bool" where
  "wf_type (TInteger bits _) = (bits \<in> {8, 16, 24, 32, 64})"
| "wf_type (TDecimal p s) = (0 < p \<and> p \<le> 76 \<and> s \<le> p)"
| "wf_type (TTemporal kind p) = (kind \<in> set temporal_kinds \<and> p \<le> 9)"
| "wf_type _ = True"

lemma first_return_Some: "first_return f xs = Some r \<Longrightarrow> \<exists>x \<in> set xs. f x = Some r"
  by (induction xs) (auto split: option.splits)

lemma integer_bits_wf: "integer_bits t = Some bits \<Longrightarrow> wf_type (TInteger bits u)"
  by (auto simp: integer_bits_def split: if_splits)

lemma parse_decimal_args_wf: "parse_decimal_args p = Some t \<Longrightarrow> wf_type t"
  by (auto simp: parse_decimal_args_def bind_eq_Some_conv split: list.splits if_splits)

lemma parse_temporal_wf: "parse_temporal t kind = Some (Some ty) \<Longrightarrow> kind \<in> set temporal_kinds \<Longrightarrow> wf_type ty"
  by (auto simp: parse_temporal_def split: if_splits option.splits)

definition opt_wf :: "data_type option \<Rightarrow> bool" where
  "opt_wf m \<longleftrightarrow> (\<forall>ty. m = Some ty \<longrightarrow> wf_type ty)"

lemma opt_wf_intros:
  "(b \<Longrightarrow> opt_wf x) \<Longrightarrow> (\<not> b \<Longrightarrow> opt_wf y) \<Longrightarrow> opt_wf (if b then x else y)"
  "(\<And>r. first_return f xs = Some r \<Longrightarrow> opt_wf r) \<Longrightarrow> opt_wf y \<Longrightarrow>
     opt_wf (case first_return f xs of Some r \<Rightarrow> r | None \<Rightarrow> y)"
  "opt_wf None"
  "wf_type ty \<Longrightarrow> opt_wf (Some ty)"
  by (auto simp: opt_wf_def split: option.splits)

lemma loop_wf:
  assumes "first_return f xs = Some r" and "\<And>x r. x \<in> set xs \<Longrightarrow> f x = Some r \<Longrightarrow> opt_wf r"
  shows "opt_wf r"
  using first_return_Some [OF assms(1)] assms(2) by blast

lemma arg_wf:
  "(\<And>n. opt_wf (g n)) \<Longrightarrow> map_option g m = Some r \<Longrightarrow> opt_wf r"
  by auto

lemma parse_decimal_args_opt: "opt_wf (parse_decimal_args p)"
  by (simp add: opt_wf_def parse_decimal_args_wf)

lemma bound_wf:
  "opt_wf (map_option (\<lambda>k. TText (Some k)) m)"
  "opt_wf (map_option (\<lambda>k. TBinary (Some k)) m)"
  by (auto simp: opt_wf_def)

lemma parse_temporal_opt: "kind \<in> set temporal_kinds \<Longrightarrow> parse_temporal t kind = Some r \<Longrightarrow> opt_wf r"
  by (cases r) (auto simp: opt_wf_def parse_temporal_wf)

lemma parse_other_opt: "opt_wf (parse_other t)"
  unfolding parse_other_def Let_def
  by (intro opt_wf_intros; (erule loop_wf)?)
     (auto intro: arg_wf [OF parse_decimal_args_opt] arg_wf [OF bound_wf(1)] arg_wf [OF bound_wf(2)]
        parse_temporal_opt simp del: map_option_eq_Some)

lemma parse_other_wf: "parse_other t = Some ty \<Longrightarrow> wf_type ty"
  using parse_other_opt [of t] by (simp add: opt_wf_def)

lemma parse_wf: "parse d = Some ty \<Longrightarrow> wf_type ty"
  unfolding parse_def Let_def
  by (auto split: option.splits if_splits dest: integer_bits_wf parse_other_wf)

subsection \<open>Compatibility is a preorder that widens\<close>

lemma bound_fits_trans: "bound_fits a b \<Longrightarrow> bound_fits b c \<Longrightarrow> bound_fits a c"
  by (cases a; cases b; cases c) auto

lemma bound_fits_refl [simp]: "bound_fits a a"
  by (cases a) auto

lemma types_fit_refl: "types_fit t t"
  by (cases t) auto

lemma types_fit_trans: "types_fit a b \<Longrightarrow> types_fit b c \<Longrightarrow> types_fit a c"
  by (cases a) (auto split: data_type.splits if_splits intro: bound_fits_trans)

instantiation data_type :: preorder
begin

definition less_eq_data_type :: "data_type \<Rightarrow> data_type \<Rightarrow> bool" where
  "less_eq_data_type = types_fit"

definition less_data_type :: "data_type \<Rightarrow> data_type \<Rightarrow> bool" where
  "less_data_type a b \<longleftrightarrow> types_fit a b \<and> \<not> types_fit b a"

instance
  by standard
    (auto simp: less_eq_data_type_def less_data_type_def types_fit_refl intro: types_fit_trans)

end

lemma int_in_range_widen:
  assumes "int_in_range a au i" and "types_fit (TInteger a au) (TInteger b bu)" and "0 < a"
  shows "int_in_range b bu i"
proof (cases "au = bu")
  case True
  with assms have "a \<le> b" by simp
  then have "(2::int) ^ a \<le> 2 ^ b" and "(2::int) ^ (a - 1) \<le> 2 ^ (b - 1)"
    by (simp_all add: power_increasing)
  with True assms(1) show ?thesis
    unfolding int_in_range_def by (cases au) (simp_all only: if_True if_False simp_thms, linarith+)
next
  case False
  with assms have "au" "\<not> bu" "a \<le> b - 1" by (auto split: if_splits)
  moreover from this have "(2::int) ^ a \<le> 2 ^ (b - 1)" by (simp add: power_increasing)
  moreover have "(0::int) \<le> 2 ^ (b - 1)" by simp
  ultimately show ?thesis
    using assms(1) unfolding int_in_range_def by (simp only: if_True if_False simp_thms) linarith
qed

lemma decimal_fits_widen:
  "decimal_fits p s d \<Longrightarrow> types_fit (TDecimal p s) (TDecimal q t) \<Longrightarrow> decimal_fits q t d"
  by (auto simp: decimal_fits_def split: sum.splits)

lemma in_limit_widen: "in_limit n a \<Longrightarrow> bound_fits a b \<Longrightarrow> in_limit n b"
  by (cases a; cases b) (auto simp: in_limit_def)

lemma types_fit_sound:
  assumes "types_fit s t" and "wf_type s" and "fits s v"
  shows "fits t v"
  using assms
proof (cases s)
  case (TInteger a au)
  with assms obtain b bu where "t = TInteger b bu" by (auto split: data_type.splits)
  moreover from assms TInteger have "0 < a" by auto
  ultimately show ?thesis
    using assms TInteger int_in_range_widen by (auto split: option.splits)
next
  case (TDecimal p sc)
  with assms obtain q sd where "t = TDecimal q sd" by (auto split: data_type.splits)
  with assms TDecimal show ?thesis
    using decimal_fits_widen by (auto split: data_value.splits)
qed (auto split: data_type.splits data_value.splits intro: in_limit_widen)

lemma resolve_transfer_type_Compatible:
  "resolve_transfer_type s t = Compatible \<longleftrightarrow>
     (\<exists>a b. parse s = Some a \<and> parse t = Some b \<and> a \<le> b)"
  by (auto simp: resolve_transfer_type_def less_eq_data_type_def split: option.splits)

lemma resolve_transfer_type_holds:
  assumes "resolve_transfer_type s t = Compatible"
  obtains a b where "parse s = Some a" "parse t = Some b" "\<And>v. fits a v \<Longrightarrow> fits b v"
  using assms types_fit_sound parse_wf
  by (auto simp: resolve_transfer_type_Compatible less_eq_data_type_def)

lemma resolve_transfer_type_trans:
  "resolve_transfer_type s t = Compatible \<Longrightarrow> resolve_transfer_type t u = Compatible \<Longrightarrow>
     resolve_transfer_type s u = Compatible"
  by (auto simp: resolve_transfer_type_Compatible intro: order_trans)

subsection \<open>Temporal values keep their meaning\<close>

definition clock_meaning :: "string \<Rightarrow> string \<times> string" where
  "clock_meaning c = (let (w, f) = unwrap_or (c, []) (split_once ''.'' c) in (w, norm_fraction f))"

text \<open>The date and the time of day of a text, the fraction up to its trailing zeros.\<close>

definition temporal_meaning :: "string \<Rightarrow> string \<Rightarrow> (string option \<times> (string \<times> string) option) option" where
  "temporal_meaning kind s = (case split_temporal s kind of
     Inl _ \<Rightarrow> None | Inr (d, c) \<Rightarrow> Some (d, map_option clock_meaning c))"

lemma split_once_dot:
  "CHR 0x2E \<notin> set w \<Longrightarrow> split_once ''.'' (w @ CHR 0x2E # f) = Some (w, f)"
  "CHR 0x2E \<notin> set w \<Longrightarrow> split_once ''.'' w = None"
  by (induction w) (auto simp: starts_with_def)

lemma split_once_dot_Some: "split_once ''.'' s = Some (w, f) \<Longrightarrow> CHR 0x2E \<notin> set w \<and> s = w @ CHR 0x2E # f"
proof (induction s arbitrary: w)
  case (Cons c s)
  then show ?case by (cases "c = CHR 0x2E") (auto simp: starts_with_def)
qed simp

lemma parse_uint_no_dot: "parse_uint m s = Some n \<Longrightarrow> CHR 0x2E \<notin> set s"
  by (auto simp: parse_uint_def Let_def strip_prefix_Some_iff unwrap_or_def is_digit_def
      split: if_splits option.splits)

lemma parse_int_no_dot: "parse_int lo hi s = Some n \<Longrightarrow> CHR 0x2E \<notin> set s"
  by (auto simp: parse_int_def Let_def strip_prefix_Some_iff unwrap_or_def is_digit_def all_digits_def
      split: if_splits option.splits prod.splits)

lemma cut_at: "n < length s \<Longrightarrow> s = take n s @ s ! n # drop (Suc n) s"
  by (rule id_take_nth_drop)

lemma check_date_no_dot:
  assumes "check_date calendar db d = Inr ()"
  shows "length d = 10 \<and> CHR 0x2E \<notin> set d"
proof -
  have shape: "length d = 10" "d ! 4 = CHR ''-''" "d ! 7 = CHR ''-''"
    and parts: "CHR 0x2E \<notin> set (take 4 d)" "CHR 0x2E \<notin> set (take 2 (drop 5 d))" "CHR 0x2E \<notin> set (drop 8 d)"
    using assms parse_int_no_dot parse_uint_no_dot
    by (auto simp: check_date_def temporal_error_def split: if_splits option.splits)
  have "d = take 4 d @ CHR ''-'' # take 2 (drop 5 d) @ CHR ''-'' # drop 8 d"
    using cut_at [of 4 d] cut_at [of 2 "drop 5 d"] shape by simp
  then have "\<exists>a b c. d = a @ CHR ''-'' # b @ CHR ''-'' # c
      \<and> CHR 0x2E \<notin> set a \<and> CHR 0x2E \<notin> set b \<and> CHR 0x2E \<notin> set c"
    using parts by blast
  then have "CHR 0x2E \<notin> set d" by auto
  with shape show ?thesis by simp
qed

lemma norm_fraction_pad: "norm_fraction (pad_zeros n f) = norm_fraction f"
proof -
  have "norm_fraction (f @ replicate k (CHR ''0'')) = norm_fraction f" for k
  proof (induction k)
    case (Suc k)
    have "f @ replicate (Suc k) (CHR ''0'') = (f @ replicate k (CHR ''0'')) @ [CHR ''0'']"
      by (simp add: replicate_append_same)
    with Suc show ?case by (simp add: norm_fraction_snoc del: replicate_Suc append_assoc)
  qed simp
  then show ?thesis by (simp add: pad_zeros_def)
qed

lemma norm_fraction_idem: "norm_fraction (norm_fraction f) = norm_fraction f"
  by (induction f rule: rev_induct) (auto simp: norm_fraction_snoc norm_fraction_Nil)

lemma all_digits_pad: "all_digits f \<Longrightarrow> all_digits (pad_zeros n f)"
  using digit_zero by (auto simp: pad_zeros_def all_digits_def)

lemma split_clock_Inr:
  assumes "split_clock c precision = Inr (w, f)"
  shows "length w = 8 \<and> CHR 0x2E \<notin> set w \<and> all_digits f \<and> length f \<le> precision
    \<and> norm_fraction f = f \<and> clock_meaning c = (w, f)"
proof -
  obtain g where split: "unwrap_or (c, []) (split_once ''.'' c) = (w, g)" and f: "f = norm_fraction g"
    and len: "length w = 8" "length f \<le> precision" and dig: "all_digits g"
    using assms by (auto simp: split_clock_def Let_def temporal_error_def norm_fraction_def
        split: prod.splits if_splits option.splits)
  have "CHR 0x2E \<notin> set w"
  proof (cases "split_once ''.'' c")
    case None
    then have "w = c" using split by simp
    moreover have "CHR 0x2E \<in> set c \<Longrightarrow> split_once ''.'' c \<noteq> None"
      by (induction c) (auto simp: starts_with_def)
    ultimately show ?thesis using None by blast
  next
    case (Some p)
    with split show ?thesis by (cases p) (auto dest: split_once_dot_Some)
  qed
  with split f len dig show ?thesis
    by (simp add: clock_meaning_def norm_fraction_idem norm_digits)
qed

lemma clock_meaning_text:
  "CHR 0x2E \<notin> set w \<Longrightarrow> clock_meaning (w @ (if f = [] then [] else CHR 0x2E # f)) = (w, norm_fraction f)"
  by (simp add: clock_meaning_def split_once_dot norm_fraction_Nil)

lemma render_clock_meaning:
  assumes "CHR 0x2E \<notin> set w"
  shows "clock_meaning (render_clock db precision w f) = (w, norm_fraction f)"
  unfolding render_clock_def Let_def using clock_meaning_text [OF assms]
  by (auto simp: norm_fraction_pad)

text \<open>The text after the date and its separator, as the target database reads it.\<close>

definition stored_clock :: "database_type \<Rightarrow> nat \<Rightarrow> string \<Rightarrow> string \<Rightarrow> string" where
  "stored_clock db precision w f =
     (if db = MySql then w @ (if f = [] then [] else CHR 0x2E # f) else render_clock db precision w f)"

lemma normalize_mysql_clock:
  assumes "CHR 0x2E \<notin> set d" "CHR 0x2E \<notin> set w" "all_digits f" "norm_fraction f = f"
  shows "normalize_mysql_temporal (d @ render_clock MySql precision w f) =
    d @ w @ (if f = [] then [] else CHR 0x2E # f)"
proof -
  have nodot: "CHR 0x2E \<notin> set (d @ w)" using assms by simp
  have trim: "trim_end_matches CHR ''0'' (pad_zeros precision f) = f"
    using norm_fraction_pad [of precision f] assms(4) by (simp add: norm_fraction_def)
  have f: "pad_zeros precision f = [] \<Longrightarrow> f = []" by (simp add: pad_zeros_def)
  show ?thesis
    using split_once_dot [OF nodot] all_digits_pad [OF assms(3)] trim f
    by (auto simp: normalize_mysql_temporal_def render_clock_def Let_def)
qed

lemma normalize_temporal_Inr:
  assumes "normalize_temporal calendar s kind precision db = Inr v"
  obtains (date) "kind = ''DATE''" "check_date calendar db s = Inr ()" "v = Temporal ''date'' s"
  | (clock) pre c w f where "split_clock c precision = Inr (w, f)"
      "v = Temporal (temporal_kind_name kind db) (pre @ stored_clock db precision w f)"
      "kind = ''TIME'' \<and> pre = [] \<and> s = c
       \<or> kind = ''TIMESTAMP'' \<and> (\<exists>d sep. pre = d @ [sep] \<and> length d = 10 \<and> (sep = CHR '' '' \<or> sep = CHR ''T'')
           \<and> CHR 0x2E \<notin> set d \<and> split_temporal s kind = Inr (Some d, Some c))"
proof -
  obtain d c where sp: "split_temporal s kind = Inr (d, c)"
    and chk: "case d of None \<Rightarrow> True | Some d \<Rightarrow> check_date calendar db d = Inr ()"
    and val: "rbind (temporal_text db precision d c)
          (\<lambda>value. Inr (Temporal (temporal_kind_name kind db)
            (if db = MySql then normalize_mysql_temporal value else value))) = Inr v"
  proof (cases "split_temporal s kind")
    case (Inl e)
    with assms show thesis by (simp add: normalize_temporal_def temporal_error_def split: if_split_asm)
  next
    case (Inr dc)
    obtain d c where "dc = (d, c)" by (cases dc)
    with assms Inr show thesis
      by (intro that [of d c])
         (auto simp: normalize_temporal_def temporal_error_def split: if_split_asm option.splits)
  qed
  show thesis
  proof (cases c)
    case None
    then have k: "kind = ''DATE''" "d = Some s"
      using sp by (auto simp: split_temporal_def temporal_error_def split: if_splits)
    with chk have "check_date calendar db s = Inr ()" by simp
    moreover from this have "normalize_mysql_temporal s = s"
      using check_date_no_dot split_once_dot(2) by (simp add: normalize_mysql_temporal_def)
    ultimately show thesis
      using k val None by (intro date) (auto simp: temporal_kind_name_def temporal_text_def)
  next
    case (Some c')
    then obtain w f where w: "split_clock c' precision = Inr (w, f)"
      using val by (auto simp: temporal_text_def)
    note facts = split_clock_Inr [OF w]
    have nd: "d = Some x \<Longrightarrow> length x = 10 \<and> CHR 0x2E \<notin> set x" for x
      using chk check_date_no_dot by simp
    have kinds: "kind = ''TIME'' \<and> d = None \<and> s = c' \<or> kind = ''TIMESTAMP'' \<and> d \<noteq> None"
      using sp Some by (auto simp: split_temporal_def temporal_error_def split: if_splits)
    define pre where "pre = unwrap_or [] d @ (if d = None then [] else if db = SqlServer then ''T'' else '' '')"
    have "CHR 0x2E \<notin> set pre" using nd by (cases d) (auto simp: pre_def)
    then have "normalize_mysql_temporal (pre @ render_clock MySql precision w f) =
        pre @ stored_clock MySql precision w f"
      using facts normalize_mysql_clock [of pre w f] by (simp add: stored_clock_def)
    then have v: "v = Temporal (temporal_kind_name kind db) (pre @ stored_clock db precision w f)"
      using val Some w by (auto simp: pre_def stored_clock_def temporal_text_def)
    show thesis
      by (rule clock [OF w v]) (use kinds sp Some nd in \<open>auto simp: pre_def\<close>)
  qed
qed

lemma stored_clock_meaning:
  "CHR 0x2E \<notin> set w \<Longrightarrow> clock_meaning (stored_clock db precision w f) = (w, norm_fraction f)"
  by (cases "db = MySql") (simp_all add: stored_clock_def render_clock_meaning clock_meaning_text)

lemma stored_clock_prefix: "\<exists>r. stored_clock db precision w f = w @ r"
  by (auto simp: stored_clock_def render_clock_def Let_def)

lemma normalize_temporal_meaning:
  assumes "normalize_temporal calendar s kind precision db = Inr v"
  obtains t where "v = Temporal (temporal_kind_name kind db) t"
    and "temporal_meaning kind t = temporal_meaning kind s" and "temporal_meaning kind s \<noteq> None"
  using assms
proof (cases rule: normalize_temporal_Inr)
  case date
  then show thesis
    by (intro that [of s]) (auto simp: temporal_kind_name_def temporal_meaning_def split_temporal_def)
next
  case (clock pre c w f)
  note facts = split_clock_Inr [OF clock(1)]
  define t where "t = pre @ stored_clock db precision w f"
  have m: "clock_meaning (stored_clock db precision w f) = clock_meaning c"
    using facts by (simp add: stored_clock_meaning)
  obtain r where r: "stored_clock db precision w f = w @ r" using stored_clock_prefix by blast
  show thesis
  proof (rule that [of t])
    show "v = Temporal (temporal_kind_name kind db) t" using clock(2) by (simp add: t_def)
    from clock(3) consider "kind = ''TIME''" "pre = []" "s = c"
      | d sep where "kind = ''TIMESTAMP''" "pre = d @ [sep]" "length d = 10"
        "sep = CHR '' '' \<or> sep = CHR ''T''" "split_temporal s kind = Inr (Some d, Some c)"
      by blast
    then show "temporal_meaning kind t = temporal_meaning kind s"
    proof cases
      case 1
      then show ?thesis using m by (simp add: temporal_meaning_def split_temporal_def t_def)
    next
      case (2 d sep)
      have "split_temporal t kind = Inr (Some d, Some (stored_clock db precision w f))"
        using 2 facts r by (auto simp: t_def split_temporal_def nth_append)
      with 2 m show ?thesis by (simp add: temporal_meaning_def)
    qed
    have "\<exists>x. split_temporal s kind = Inr x" using clock(3) by (auto simp: split_temporal_def)
    then show "temporal_meaning kind s \<noteq> None"
      by (auto simp: temporal_meaning_def)
  qed
qed


subsection \<open>Properties\<close>



text \<open>
  C6. Temporal values are neither rounded nor reinterpreted: when a value is accepted for a
  target, the text written there names the same date, the same time of day and the same
  fraction of a second as the source text.
\<close>

theorem normalize_temporal_preserves:
  assumes "normalize_temporal calendar s kind precision db = Inr v"
  shows "\<exists>t. v = Temporal (temporal_kind_name kind db) t
    \<and> temporal_meaning kind s \<noteq> None \<and> temporal_meaning kind t = temporal_meaning kind s"
  using normalize_temporal_meaning [OF assms] by metis

theorem normalize_temporal_preserves_witness:
  "temporal_meaning ''TIMESTAMP'' ''2024-02-29T10:20:30.25''
     = temporal_meaning ''TIMESTAMP'' ''2024-02-29 10:20:30.250000''"
proof -
  have "normalize_temporal (\<lambda>y m d. m = 2 \<and> d = 29) ''2024-02-29 10:20:30.250000'' ''TIMESTAMP'' 3 MySql
    = Inr (Temporal ''datetime'' ''2024-02-29 10:20:30.25'')" by code_simp
  from normalize_temporal_preserves [OF this]
  have "temporal_meaning ''TIMESTAMP'' ''2024-02-29 10:20:30.25''
    = temporal_meaning ''TIMESTAMP'' ''2024-02-29 10:20:30.250000''" by auto
  moreover have "temporal_meaning ''TIMESTAMP'' ''2024-02-29T10:20:30.25''
    = temporal_meaning ''TIMESTAMP'' ''2024-02-29 10:20:30.25''" by code_simp
  ultimately show ?thesis by simp
qed

text \<open>
  The parts of a date and of a time of day are parsed by \<open>str::parse\<close>, which also reads a
  plus sign, and the text is passed on as it was: a date that no database writes is accepted.
\<close>

lemma normalize_temporal_accepts_plus:
  "calendar 2024 1 1 \<Longrightarrow> normalize_temporal calendar ''2024-+1-+1'' ''DATE'' 0 Postgres
     = Inr (Temporal ''date'' ''2024-+1-+1'')"
proof -
  have "check_date (\<lambda>y m d. y = 2024 \<and> m = 1 \<and> d = 1) Postgres ''2024-+1-+1'' = Inr ()" by code_simp
  moreover have "parse_int (- (2 ^ 31)) (2 ^ 31 - 1) ''2024'' = Some 2024"
    and "parse_uint U8_MAX ''+1'' = Some 1" by code_simp+
  moreover assume "calendar 2024 1 1"
  ultimately have "check_date calendar Postgres ''2024-+1-+1'' = Inr ()"
    by (simp add: check_date_def)
  moreover have "\<forall>c \<in> set ''2024-+1-+1''. is_ascii c" by code_simp
  ultimately show ?thesis
    by (simp add: normalize_temporal_def split_temporal_def temporal_text_def temporal_kind_name_def)
qed

end
