(* ===== verification/Metadata.thy ===== *)
theory Metadata
  imports Type_Mapping
begin

text \<open>
  What a data task knows about the two databases and what it demands of them before it reads a
  row (\<open>src-tauri/src/db/data\_tasks/metadata.rs\<close>): the capabilities it offers, the validation
  of a mapping against the metadata, the dependency order of the target tables and the check
  that source and target are not the same physical table.
\<close>

subsection \<open>Snapshots of the metadata\<close>

record data_column =
  col_name :: string
  declared_type :: string
  nullable :: bool
  default_sql :: "string option"
  generated :: bool
  primary_key_ordinal :: nat
  collation :: "string option"
  identity_col :: bool
  generator_safe :: bool

record data_foreign_key =
  from_columns :: "string list"
  parent_table :: string
  parent_columns :: "string list"
  on_update :: string
  on_delete :: string

record data_table =
  tab_name :: string
  create_sql :: string
  tab_columns :: "data_column list"
  foreign_keys :: "data_foreign_key list"
  enabled_user_triggers :: bool
  physical :: bool

record metadata_snapshot =
  md_database_type :: database_type
  md_tables :: "data_table list"
  md_read_only :: bool
  permissions_verified :: bool
  consistent_snapshot :: bool
  protected_write :: bool
  schema_fingerprint :: string
  configuration_fingerprint :: string

record validated_table =
  vt_source :: string
  vt_target :: string
  vt_source_columns :: "string list"
  vt_target_columns :: "string list"
  key_indices :: "nat list"

record validated_mapping =
  vm_tables :: "validated_table list"
  insert_order :: "string list"
  delete_order :: "string list"

subsection \<open>Capabilities\<close>

definition transaction_database :: "database_type \<Rightarrow> bool" where
  "transaction_database db \<longleftrightarrow> db \<in> {Sqlite, Postgres, MySql, SqlServer}"

definition CLICKHOUSE_TARGET_BLOCKER :: string where
  "CLICKHOUSE_TARGET_BLOCKER = ''appending to a ClickHouse target is not open''"

definition capabilities ::
    "database_type \<Rightarrow> database_type \<Rightarrow> bool \<Rightarrow> bool \<Rightarrow> data_task_capabilities" where
  "capabilities source target read_only safe =
     (let supported = transaction_database target \<and> safe \<and> \<not> read_only;
          row_sync = supported \<and> source = target;
          modes = (if \<not> supported then []
             else if source = ClickHouse then [Append]
             else if row_sync then [Merge, Mirror, Append, Replace]
             else [Append, Replace])
      in \<lparr>cap_row_sync = row_sync, cap_transfer = supported, supported_modes = modes,
          cap_blockers = (if supported then [] else
            [\<lparr>blk_code = (if read_only then ''read_only_target'' else ''unsupported_capability''),
              blk_message = (if target = ClickHouse then CLICKHOUSE_TARGET_BLOCKER
                else if read_only then ''the target is read only''
                else ''cannot verify permissions, a consistent snapshot or protected writes''),
              blk_table = None\<rparr>]),
          cap_source_tables = [], cap_target_tables = []\<rparr>)"

definition get_config_capabilities ::
    "database_type \<Rightarrow> database_type \<Rightarrow> bool option \<Rightarrow> data_task_capabilities" where
  "get_config_capabilities source target target_read_only =
     capabilities source target (unwrap_or False target_read_only) True"

definition get_capabilities ::
    "metadata_snapshot \<Rightarrow> metadata_snapshot \<Rightarrow> data_task_capabilities" where
  "get_capabilities source target =
     capabilities (md_database_type source) (md_database_type target) (md_read_only target)
       ((consistent_snapshot source \<or> md_database_type source = ClickHouse)
        \<and> consistent_snapshot target \<and> protected_write target
        \<and> permissions_verified source \<and> permissions_verified target)"

subsection \<open>Keys\<close>

definition key_is_float :: "string \<Rightarrow> bool" where
  "key_is_float t \<longleftrightarrow> hd (split_char CHR ''('' (to_ascii_uppercase (trim t)))
     \<in> {''FLOAT'', ''REAL'', ''DOUBLE'', ''DOUBLE PRECISION'', ''FLOAT4'', ''FLOAT8''}"

definition key_is_text :: "string \<Rightarrow> bool" where
  "key_is_text t \<longleftrightarrow> (let t = to_ascii_uppercase t in
     contains ''CHAR'' t \<or> contains ''TEXT'' t \<or> contains ''CLOB'' t)"

fun position :: "('a \<Rightarrow> bool) \<Rightarrow> 'a list \<Rightarrow> nat option" where
  "position p [] = None"
| "position p (x # xs) = (if p x then Some 0 else map_option Suc (position p xs))"

definition primary_key :: "data_table \<Rightarrow> data_column list" where
  "primary_key t = sort_key primary_key_ordinal (filter (\<lambda>c. 0 < primary_key_ordinal c) (tab_columns t))"

definition key_index ::
    "string list \<Rightarrow> string list \<Rightarrow> data_column \<times> data_column \<Rightarrow> nat result" where
  "key_index source_columns target_columns p = (case p of (sc, tc) \<Rightarrow>
     if key_is_float (declared_type sc) \<or> key_is_float (declared_type tc)
     then Inl ''unsupported_capability: a floating point primary key is not supported''
     else if nullable sc \<or> nullable tc
     then Inl ''invalid_mapping: a key column must not be nullable''
     else (case position (\<lambda>(s, t). s = col_name sc \<and> t = col_name tc)
             (zip source_columns target_columns) of
         None \<Rightarrow> Inl ''invalid_mapping: the primary key mapping is incomplete or out of order''
       | Some index \<Rightarrow>
           if (key_is_text (declared_type sc) \<or> key_is_text (declared_type tc))
              \<and> (collation sc \<noteq> Some ''BINARY'' \<or> collation tc \<noteq> Some ''BINARY'')
           then Inl ''unsupported_capability: cannot prove the collations of a text key equal''
           else Inr index))"

definition validate_keys ::
    "data_task_kind \<Rightarrow> data_table \<Rightarrow> data_table \<Rightarrow> string list \<Rightarrow> string list \<Rightarrow> nat list result" where
  "validate_keys kind s t source_columns target_columns =
     (if kind \<noteq> RowSync then Inr []
      else (let sk = primary_key s; tk = primary_key t in
        if sk = [] \<or> length sk \<noteq> length tk
        then Inl ''invalid_mapping: row sync needs the complete primary key on both sides''
        else collect_results (key_index source_columns target_columns) (zip sk tk)))"

subsection \<open>Columns and tables\<close>

definition find_column :: "string \<Rightarrow> data_table \<Rightarrow> data_column option" where
  "find_column n t = List.find (\<lambda>c. col_name c = n) (tab_columns t)"

definition find_table :: "string \<Rightarrow> metadata_snapshot \<Rightarrow> data_table option" where
  "find_table n m = List.find (\<lambda>t. tab_name t = n) (md_tables m)"

definition validate_column ::
    "database_type \<Rightarrow> data_table \<Rightarrow> database_type \<Rightarrow> data_table \<Rightarrow> column_mapping
       \<Rightarrow> (string \<times> string) result" where
  "validate_column source_db s target_db t column =
     rbind (ok_or ''invalid_mapping: no such source column'' (find_column (source_column column) s)) (\<lambda>sc.
     rbind (ok_or ''invalid_mapping: no such target column'' (find_column (target_column column) t)) (\<lambda>tc.
       if generated tc then Inl ''invalid_mapping: a generated column cannot be written''
       else if identity_col tc \<and> \<not> generator_safe tc
       then Inl ''unsupported_capability: cannot keep the identity column safely''
       else if resolve_database_transfer_type source_db (declared_type sc) target_db (declared_type tc)
            \<noteq> Compatible
       then Inl ''unsupported_capability: the column types are not known to be lossless''
       else Inr (col_name sc, col_name tc)))"

definition missing_required :: "data_table \<Rightarrow> string list \<Rightarrow> bool" where
  "missing_required t target_columns \<longleftrightarrow>
     (\<exists>c \<in> set (tab_columns t). \<not> generated c \<and> \<not> nullable c \<and> default_sql c = None
        \<and> \<not> identity_col c \<and> col_name c \<notin> set target_columns)"

definition validate_table ::
    "data_task_kind \<Rightarrow> metadata_snapshot \<Rightarrow> metadata_snapshot \<Rightarrow> table_mapping \<Rightarrow> validated_table result" where
  "validate_table kind source target mapping =
     rbind (ok_or ''invalid_mapping: no such source table'' (find_table (source_table mapping) source)) (\<lambda>s.
     rbind (ok_or ''invalid_mapping: no such target table'' (find_table (target_table mapping) target)) (\<lambda>t.
       if \<not> physical s \<or> \<not> physical t
       then Inl ''unsupported_capability: only ordinary physical tables are supported''
       else if enabled_user_triggers t
       then Inl ''unsupported_capability: the target table has enabled write triggers''
       else
         rbind (collect_results
           (validate_column (md_database_type source) s (md_database_type target) t)
           (sort_key target_column (columns mapping))) (\<lambda>cols.
         let source_columns = map fst cols; target_columns = map snd cols in
         if missing_required t target_columns
         then Inl ''invalid_mapping: a required target column is not mapped''
         else rbind (validate_keys kind s t source_columns target_columns) (\<lambda>keys.
           Inr \<lparr>vt_source = tab_name s, vt_target = tab_name t,
             vt_source_columns = source_columns, vt_target_columns = target_columns,
             key_indices = keys\<rparr>))))"

subsection \<open>Dependencies of the target tables\<close>

text \<open>A \<open>BTreeMap\<close> is an association list in key order; its values are sets.\<close>

type_synonym dependencies = "(string \<times> string set) list"

definition safe_action :: "string \<Rightarrow> bool" where
  "safe_action a \<longleftrightarrow> to_ascii_uppercase a \<in> {''NO ACTION'', ''RESTRICT''}"

definition add_dependency :: "string \<Rightarrow> string \<Rightarrow> dependencies \<Rightarrow> dependencies" where
  "add_dependency child parent deps =
     map (\<lambda>(k, v). if k = child then (k, insert parent v) else (k, v)) deps"

definition check_foreign_key ::
    "string list \<Rightarrow> string \<Rightarrow> data_foreign_key \<Rightarrow> dependencies \<Rightarrow> dependencies result" where
  "check_foreign_key selected child fk deps =
     (if child \<in> set selected \<or> parent_table fk \<in> set selected
      then if child \<notin> set selected \<or> parent_table fk \<notin> set selected
        then Inl ''unsupported_capability: a foreign key crosses the border of the target tables''
        else if \<not> safe_action (on_update fk) \<or> \<not> safe_action (on_delete fk)
        then Inl ''unsupported_capability: a cascading foreign key is not supported''
        else Inr (add_dependency child (parent_table fk) deps)
      else Inr deps)"

fun check_foreign_keys ::
    "string list \<Rightarrow> (string \<times> data_foreign_key) list \<Rightarrow> dependencies \<Rightarrow> dependencies result" where
  "check_foreign_keys selected [] deps = Inr deps"
| "check_foreign_keys selected ((child, fk) # fks) deps =
     rbind (check_foreign_key selected child fk deps) (check_foreign_keys selected fks)"

definition all_foreign_keys :: "metadata_snapshot \<Rightarrow> (string \<times> data_foreign_key) list" where
  "all_foreign_keys m = concat (map (\<lambda>t. map (Pair (tab_name t)) (foreign_keys t)) (md_tables m))"

definition remove_dependency :: "string \<Rightarrow> dependencies \<Rightarrow> dependencies" where
  "remove_dependency name deps =
     map (\<lambda>(k, v). (k, v - {name})) (filter (\<lambda>(k, v). k \<noteq> name) deps)"

definition ready_tables :: "dependencies \<Rightarrow> string list" where
  "ready_tables deps = map fst (filter (\<lambda>(k, v). v = {}) deps)"

text \<open>Removing the ready tables one after the other removes them together.\<close>

definition remove_all :: "string set \<Rightarrow> dependencies \<Rightarrow> dependencies" where
  "remove_all S deps = map (\<lambda>(k, v). (k, v - S)) (filter (\<lambda>(k, v). k \<notin> S) deps)"

lemma remove_all_simps [simp]:
  "remove_all S [] = []"
  "remove_all S ((k, v) # deps) = (if k \<in> S then [] else [(k, v - S)]) @ remove_all S deps"
  by (simp_all add: remove_all_def)

lemma remove_all_empty [simp]: "remove_all {} deps = deps"
  by (induction deps) auto

lemma remove_all_step: "remove_all S (remove_dependency n deps) = remove_all (insert n S) deps"
proof (induction deps)
  case (Cons d deps)
  obtain k v where "d = (k, v)" by (cases d)
  with Cons show ?case by (auto simp: remove_dependency_def)
qed (simp add: remove_dependency_def)

lemma fold_remove_dependency: "fold remove_dependency names deps = remove_all (set names) deps"
  by (induction names arbitrary: deps) (simp_all add: remove_all_step)

lemma remove_all_length: "length (remove_all S deps) \<le> length deps"
  by (induction deps) auto

lemma remove_all_shrinks: "(k, v) \<in> set deps \<Longrightarrow> k \<in> S \<Longrightarrow> length (remove_all S deps) < length deps"
proof (induction deps)
  case (Cons d deps)
  obtain k' v' where "d = (k', v')" by (cases d)
  with Cons remove_all_length [of S deps] show ?case by auto
qed simp

lemma ready_tables_shrink:
  assumes "ready_tables deps \<noteq> []"
  shows "length (fold remove_dependency (ready_tables deps) deps) < length deps"
proof -
  obtain n where n: "n \<in> set (ready_tables deps)"
    using assms by (cases "ready_tables deps") auto
  then obtain v where "(n, v) \<in> set deps"
    by (auto simp: ready_tables_def)
  with n show ?thesis by (simp add: fold_remove_dependency remove_all_shrinks)
qed

function topological :: "dependencies \<Rightarrow> string list \<Rightarrow> string list result" where
  "topological deps order =
     (if deps = [] then Inr order
      else (let ready = ready_tables deps in
        if ready = [] then Inl ''unsupported_capability: the foreign keys form a cycle''
        else topological (fold remove_dependency ready deps) (order @ ready)))"
  by pat_completeness auto
termination
  by (relation "measure (\<lambda>(deps, order). length deps)") (simp_all add: ready_tables_shrink)

declare topological.simps [simp del]

definition dependency_order :: "string list \<Rightarrow> metadata_snapshot \<Rightarrow> string list result" where
  "dependency_order targets target =
     (let selected = sort (remdups targets) in
      rbind (check_foreign_keys selected (all_foreign_keys target) (map (\<lambda>n. (n, {})) selected))
        (\<lambda>deps. topological deps []))"

subsection \<open>Validation of a mapping\<close>

definition check_endpoints ::
    "data_task_request \<Rightarrow> metadata_snapshot \<Rightarrow> metadata_snapshot \<Rightarrow> unit result" where
  "check_endpoints request source target =
     rbind (map_err (\<lambda>e. err_code e @ '': '' @ err_message e) (validate request)) (\<lambda>_.
       if md_database_type target = ClickHouse
       then Inl (''unsupported_capability: '' @ CLICKHOUSE_TARGET_BLOCKER)
       else if md_database_type source = ClickHouse
          \<and> (req_kind request \<noteq> Transfer \<or> req_mode request \<noteq> Append)
       then Inl ''unsupported_capability: a ClickHouse source supports appending transfers only''
       else if md_read_only target then Inl ''read_only_target: the target is read only''
       else if \<not> permissions_verified source \<or> \<not> permissions_verified target
       then Inl ''unsupported_capability: cannot verify the permissions''
       else if (\<not> consistent_snapshot source \<and> md_database_type source \<noteq> ClickHouse)
          \<or> \<not> consistent_snapshot target \<or> \<not> protected_write target
       then Inl ''unsupported_capability: no consistent snapshot or protected write''
       else if md_database_type source \<noteq> md_database_type target \<and> req_kind request = RowSync
       then Inl ''unsupported_capability: row sync across database types is not supported''
       else if md_database_type source \<notin> {Sqlite, Postgres, MySql, SqlServer, ClickHouse}
       then Inl ''unsupported_capability: the driver is not supported''
       else Inr ())"

definition validate_mapping ::
    "data_task_request \<Rightarrow> metadata_snapshot \<Rightarrow> metadata_snapshot \<Rightarrow> validated_mapping result" where
  "validate_mapping request source target =
     rbind (check_endpoints request source target) (\<lambda>_.
     rbind (collect_results (validate_table (req_kind request) source target) (mappings request)) (\<lambda>tables.
     rbind (dependency_order (map vt_target tables) target) (\<lambda>order.
       Inr \<lparr>vm_tables = sort_key vt_target tables, insert_order = order,
         delete_order = rev order\<rparr>)))"

subsection \<open>The physical identity of the endpoints\<close>

record endpoint_identity =
  ei_database_type :: database_type
  ei_instance :: "string option"
  ei_database :: string
  sqlite_path :: "string option"

text \<open>
  \<open>canonicalize\<close> and \<open>same_file\<close> stand for the file system: the canonical path of a path
  and whether two paths are one file, \<open>None\<close> when it cannot tell.
\<close>

definition same_sqlite_file ::
    "(string \<Rightarrow> string option) \<Rightarrow> (string \<Rightarrow> string \<Rightarrow> bool option) \<Rightarrow> string option \<Rightarrow> string option
       \<Rightarrow> unit result" where
  "same_sqlite_file canonicalize same_file a b =
     rbind (ok_or ''same_physical_target: cannot identify the source file'' a) (\<lambda>a.
     rbind (ok_or ''same_physical_target: cannot identify the target file'' b) (\<lambda>b.
     rbind (ok_or ''same_physical_target: cannot identify the source file'' (canonicalize a)) (\<lambda>ac.
     rbind (ok_or ''same_physical_target: cannot identify the target file'' (canonicalize b)) (\<lambda>bc.
     rbind (if ac = bc then Inr True
       else ok_or ''same_physical_target: cannot compare the files'' (same_file ac bc)) (\<lambda>same.
       if same then Inl ''same_physical_target: source and target are one SQLite file''
       else Inr ())))))"

definition shared_table :: "data_task_request \<Rightarrow> bool" where
  "shared_table request \<longleftrightarrow> (\<exists>m \<in> set (mappings request). \<exists>n \<in> set (mappings request).
     eq_ignore_ascii_case (source_table m) (target_table n))"

definition resolve_endpoints ::
    "(string \<Rightarrow> string option) \<Rightarrow> (string \<Rightarrow> string \<Rightarrow> bool option) \<Rightarrow> data_task_request
       \<Rightarrow> endpoint_identity \<Rightarrow> endpoint_identity \<Rightarrow> unit result" where
  "resolve_endpoints canonicalize same_file request source target =
     (if ei_database_type source = Sqlite \<and> ei_database_type target = Sqlite
      then same_sqlite_file canonicalize same_file (sqlite_path source) (sqlite_path target)
      else if ei_database_type source = ei_database_type target
      then (case (ei_instance source, ei_instance target) of
          (Some a, Some b) \<Rightarrow>
            if a = b \<and> eq_ignore_ascii_case (ei_database source) (ei_database target)
               \<and> shared_table request
            then Inl ''same_physical_target: source and target share a physical table''
            else Inr ()
        | _ \<Rightarrow> Inl ''same_physical_target: cannot verify the instances'')
      else Inr ())"

subsection \<open>The dependency order is topological\<close>

definition precedes :: "'a \<Rightarrow> 'a \<Rightarrow> 'a list \<Rightarrow> bool" where
  "precedes p k xs \<longleftrightarrow> (\<exists>us vs. xs = us @ vs \<and> p \<in> set us \<and> k \<in> set vs)"

lemma precedes_append:
  "p \<in> set xs \<Longrightarrow> k \<in> set ys \<Longrightarrow> precedes p k (xs @ ys)"
  "precedes p k ys \<Longrightarrow> precedes p k (xs @ ys)"
proof -
  show "p \<in> set xs \<Longrightarrow> k \<in> set ys \<Longrightarrow> precedes p k (xs @ ys)"
    unfolding precedes_def by blast
  assume "precedes p k ys"
  then obtain us vs where "ys = us @ vs" "p \<in> set us" "k \<in> set vs" by (auto simp: precedes_def)
  then have "xs @ ys = (xs @ us) @ vs" "p \<in> set (xs @ us)" "k \<in> set vs" by auto
  then show "precedes p k (xs @ ys)" unfolding precedes_def by blast
qed

lemma precedes_rev: "precedes p k xs \<Longrightarrow> precedes k p (rev xs)"
  by (auto simp: precedes_def) (metis rev_append set_rev)

lemma precedes_distinct: "distinct xs \<Longrightarrow> precedes p k xs \<Longrightarrow> \<not> precedes k p xs"
proof
  assume d: "distinct xs" and "precedes p k xs" and "precedes k p xs"
  then obtain us vs us' vs' where e: "xs = us @ vs" "p \<in> set us" "k \<in> set vs"
    "xs = us' @ vs'" "k \<in> set us'" "p \<in> set vs'" unfolding precedes_def by blast
  have "us @ vs = us' @ vs'" using e(1,4) by simp
  then consider zs where "us' = us @ zs" "vs = zs @ vs'" | zs where "us = us' @ zs" "vs' = zs @ vs"
    by (auto simp: append_eq_append_conv2)
  then show False using d e by cases auto
qed

definition keys_of :: "dependencies \<Rightarrow> string set" where
  "keys_of deps = fst ` set deps"

lemma remove_all_set: "set (remove_all S deps) = {(k, v - S) |k v. (k, v) \<in> set deps \<and> k \<notin> S}"
  by (auto simp: remove_all_def)

lemma remove_all_keys: "map fst (remove_all S deps) = filter (\<lambda>k. k \<notin> S) (map fst deps)"
  by (induction deps) auto

lemma ready_tables_iff: "n \<in> set (ready_tables deps) \<longleftrightarrow> (n, {}) \<in> set deps"
  by (force simp: ready_tables_def)

lemma distinct_ready: "distinct (map fst deps) \<Longrightarrow> distinct (ready_tables deps)"
  by (simp add: ready_tables_def distinct_map_filter)

lemma key_value_unique:
  "distinct (map fst deps) \<Longrightarrow> (k, v) \<in> set deps \<Longrightarrow> (k, w) \<in> set deps \<Longrightarrow> v = w"
  by (metis eq_key_imp_eq_value)

lemma topological_sound:
  assumes "topological deps order = Inr res" and "distinct (map fst deps)"
  shows "\<exists>new. res = order @ new \<and> distinct new \<and> set new = keys_of deps
    \<and> (\<forall>k v p. (k, v) \<in> set deps \<longrightarrow> p \<in> v \<longrightarrow> precedes p k new)"
  using assms
proof (induction deps order rule: topological.induct)
  case (1 deps order)
  show ?case
  proof (cases "deps = []")
    case True
    with 1(2) show ?thesis by (simp add: topological.simps [of "[]"] keys_of_def)
  next
    case False
    define ready where "ready = ready_tables deps"
    define rest where "rest = remove_all (set ready) deps"
    have ne: "ready \<noteq> []" and run: "topological rest (order @ ready) = Inr res"
      using 1(2) False by (auto simp: topological.simps [of deps] Let_def ready_def rest_def
          fold_remove_dependency split: if_splits)
    have "distinct (map fst rest)" using 1(3) by (simp add: rest_def remove_all_keys)
    then obtain new where new: "res = (order @ ready) @ new" "distinct new" "set new = keys_of rest"
      "\<forall>k v p. (k, v) \<in> set rest \<longrightarrow> p \<in> v \<longrightarrow> precedes p k new"
      using 1(1) [OF False refl] ne run unfolding ready_def rest_def fold_remove_dependency by blast
    have keys: "keys_of rest = keys_of deps - set ready"
      using arg_cong [OF remove_all_keys [of "set ready" deps], of set]
      by (auto simp: keys_of_def rest_def)
    have sub: "set ready \<subseteq> keys_of deps"
      by (force simp: ready_def ready_tables_iff keys_of_def)
    have "precedes p k (ready @ new)" if "(k, v) \<in> set deps" "p \<in> v" for k v p
    proof -
      have "k \<notin> set ready"
        using that key_value_unique [OF 1(3), of k v "{}"] by (auto simp: ready_def ready_tables_iff)
      then have k: "(k, v - set ready) \<in> set rest" "k \<in> set new"
        using that new(3) by (auto simp: rest_def remove_all_set keys_of_def image_iff)
      show ?thesis
      proof (cases "p \<in> set ready")
        case True
        from True k(2) show ?thesis by (rule precedes_append(1))
      next
        case False
        with that have "p \<in> v - set ready" by simp
        with k(1) new(4) have "precedes p k new" by blast
        then show ?thesis by (rule precedes_append(2))
      qed
    qed
    moreover have "distinct (ready @ new)"
      using new(2,3) keys distinct_ready [OF 1(3)] by (auto simp: ready_def)
    moreover have "set (ready @ new) = keys_of deps" using new(3) keys sub by auto
    ultimately show ?thesis using new(1) by (intro exI [of _ "ready @ new"]) simp
  qed
qed

text \<open>The loop gives up only on a set of tables each of which waits for another of the set.\<close>

lemma topological_stuck:
  assumes "topological deps order = Inl e"
    and "\<And>k v. (k, v) \<in> set deps \<Longrightarrow> v \<subseteq> keys_of deps"
  shows "\<exists>C. C \<noteq> {} \<and> C \<subseteq> keys_of deps \<and> (\<forall>k \<in> C. \<exists>v. (k, v) \<in> set deps \<and> v \<inter> C \<noteq> {})"
  using assms
proof (induction deps order rule: topological.induct)
  case (1 deps order)
  have False: "deps \<noteq> []" using 1(2) by (auto simp: topological.simps [of deps])
  define ready where "ready = ready_tables deps"
  define rest where "rest = remove_all (set ready) deps"
  have keys: "keys_of rest = keys_of deps - set ready"
    using arg_cong [OF remove_all_keys [of "set ready" deps], of set]
    by (auto simp: keys_of_def rest_def)
  show ?case
  proof (cases "ready = []")
    case True
    have "\<forall>k \<in> keys_of deps. \<exists>v. (k, v) \<in> set deps \<and> v \<inter> keys_of deps \<noteq> {}"
    proof
      fix k
      assume "k \<in> keys_of deps"
      then obtain v where v: "(k, v) \<in> set deps" by (auto simp: keys_of_def)
      with True have "v \<noteq> {}"
        using ready_tables_iff [of k deps] by (auto simp: ready_def)
      with v 1(3) [OF v] show "\<exists>v. (k, v) \<in> set deps \<and> v \<inter> keys_of deps \<noteq> {}" by blast
    qed
    moreover have "keys_of deps \<noteq> {}" using False by (simp add: keys_of_def)
    ultimately show ?thesis by blast
  next
    case ne: False
    have "topological rest (order @ ready) = Inl e"
      using 1(2) False ne by (simp add: topological.simps [of deps] Let_def ready_def rest_def
          fold_remove_dependency split: if_split_asm)
    moreover have "v \<subseteq> keys_of rest" if "(k, v) \<in> set rest" for k v
      using that 1(3) keys by (auto simp: rest_def remove_all_set)
    ultimately obtain C where C: "C \<noteq> {}" "C \<subseteq> keys_of rest"
      "\<forall>k \<in> C. \<exists>v. (k, v) \<in> set rest \<and> v \<inter> C \<noteq> {}"
      using 1(1) [OF False refl] ne unfolding ready_def rest_def fold_remove_dependency by blast
    have "\<forall>k \<in> C. \<exists>v. (k, v) \<in> set deps \<and> v \<inter> C \<noteq> {}"
      using C(3) by (force simp: rest_def remove_all_set)
    with C keys show ?thesis by blast
  qed
qed

subsection \<open>What the foreign keys promise\<close>

definition parents :: "(string \<times> data_foreign_key) list \<Rightarrow> string \<Rightarrow> string set" where
  "parents fks k = {parent_table fk |fk. (k, fk) \<in> set fks}"

definition foreign_keys_closed :: "string set \<Rightarrow> (string \<times> data_foreign_key) list \<Rightarrow> bool" where
  "foreign_keys_closed S fks \<longleftrightarrow> (\<forall>(child, fk) \<in> set fks. (child \<in> S \<longleftrightarrow> parent_table fk \<in> S)
     \<and> (child \<in> S \<longrightarrow> safe_action (on_update fk) \<and> safe_action (on_delete fk)))"

lemma add_dependency_map:
  "add_dependency c p (map (\<lambda>k. (k, g k)) ks) = map (\<lambda>k. (k, g k \<union> (if k = c then {p} else {}))) ks"
  by (auto simp: add_dependency_def)

lemma check_foreign_keys_Inr:
  "check_foreign_keys sel fks (map (\<lambda>k. (k, g k)) sel) = Inr deps \<longleftrightarrow>
     foreign_keys_closed (set sel) fks \<and> deps = map (\<lambda>k. (k, g k \<union> parents fks k)) sel"
proof (induction fks arbitrary: g)
  case Nil
  then show ?case by (auto simp: foreign_keys_closed_def parents_def)
next
  case (Cons x fks)
  obtain c fk where x: "x = (c, fk)" by (cases x)
  show ?case
  proof (cases "c \<in> set sel \<and> parent_table fk \<in> set sel \<and> safe_action (on_update fk) \<and> safe_action (on_delete fk)")
    case True
    have "(\<lambda>k. (k, (g k \<union> (if k = c then {parent_table fk} else {})) \<union> parents fks k))
        = (\<lambda>k. (k, g k \<union> parents (x # fks) k))"
      by (auto simp: x parents_def fun_eq_iff)
    with True Cons.IH [of "\<lambda>k. g k \<union> (if k = c then {parent_table fk} else {})"] show ?thesis
      by (simp add: x check_foreign_key_def add_dependency_map foreign_keys_closed_def)
  next
    case bad: False
    show ?thesis
    proof (cases "c \<in> set sel \<or> parent_table fk \<in> set sel")
      case True
      with bad show ?thesis by (auto simp: x check_foreign_key_def foreign_keys_closed_def)
    next
      case False
      then have eq: "map (\<lambda>k. (k, g k \<union> parents (x # fks) k)) sel = map (\<lambda>k. (k, g k \<union> parents fks k)) sel"
        by (auto simp: x parents_def)
      show ?thesis
        unfolding eq using False Cons.IH [of g]
        by (simp add: x check_foreign_key_def foreign_keys_closed_def)
    qed
  qed
qed

lemma all_foreign_keys_set:
  "(c, fk) \<in> set (all_foreign_keys m) \<longleftrightarrow> (\<exists>t \<in> set (md_tables m). c = tab_name t \<and> fk \<in> set (foreign_keys t))"
  by (auto simp: all_foreign_keys_def)

lemma dependency_order_sound:
  assumes "dependency_order targets m = Inr order"
  shows "distinct order" and "set order = set targets"
    and "foreign_keys_closed (set targets) (all_foreign_keys m)"
    and "t \<in> set (md_tables m) \<Longrightarrow> fk \<in> set (foreign_keys t) \<Longrightarrow> tab_name t \<in> set targets \<Longrightarrow>
      precedes (parent_table fk) (tab_name t) order"
proof -
  define sel where "sel = sort (remdups targets)"
  define deps where "deps = map (\<lambda>k. (k, {} \<union> parents (all_foreign_keys m) k)) sel"
  have closed: "foreign_keys_closed (set sel) (all_foreign_keys m)" and topo: "topological deps [] = Inr order"
    using assms check_foreign_keys_Inr [of sel "all_foreign_keys m" "\<lambda>_. {}"]
    by (auto simp: dependency_order_def Let_def sel_def deps_def)
  have dist: "distinct (map fst deps)" by (simp add: deps_def sel_def comp_def)
  obtain new where new: "order = [] @ new" "distinct new" "set new = keys_of deps"
    "\<forall>k v p. (k, v) \<in> set deps \<longrightarrow> p \<in> v \<longrightarrow> precedes p k new"
    using topological_sound [OF topo dist] by blast
  show "distinct order" using new by simp
  show "set order = set targets" using new by (simp add: keys_of_def deps_def sel_def image_image)
  show "foreign_keys_closed (set targets) (all_foreign_keys m)" using closed by (simp add: sel_def)
  assume t: "t \<in> set (md_tables m)" "fk \<in> set (foreign_keys t)" "tab_name t \<in> set targets"
  then have "parent_table fk \<in> parents (all_foreign_keys m) (tab_name t)"
    by (auto simp: parents_def all_foreign_keys_set)
  moreover have "(tab_name t, {} \<union> parents (all_foreign_keys m) (tab_name t)) \<in> set deps"
    using t by (auto simp: deps_def sel_def)
  ultimately show "precedes (parent_table fk) (tab_name t) order"
    using new by fastforce
qed

lemma dependency_order_stuck:
  assumes "dependency_order targets m = Inl e" and "foreign_keys_closed (set targets) (all_foreign_keys m)"
  shows "\<exists>C. C \<noteq> {} \<and> C \<subseteq> set targets \<and> (\<forall>k \<in> C. parents (all_foreign_keys m) k \<inter> C \<noteq> {})"
proof -
  define sel where "sel = sort (remdups targets)"
  define deps where "deps = map (\<lambda>k. (k, {} \<union> parents (all_foreign_keys m) k)) sel"
  have sel: "set sel = set targets" by (simp add: sel_def)
  have "check_foreign_keys sel (all_foreign_keys m) (map (\<lambda>n. (n, {})) sel) = Inr deps"
    using check_foreign_keys_Inr [of sel "all_foreign_keys m" "\<lambda>_. {}"] assms(2) sel by (simp add: deps_def)
  with assms(1) have topo: "topological deps [] = Inl e"
    by (simp add: dependency_order_def Let_def sel_def)
  have keys: "keys_of deps = set targets" by (simp add: keys_of_def deps_def sel image_image)
  have mem: "(k, v) \<in> set deps \<longleftrightarrow> k \<in> set targets \<and> v = parents (all_foreign_keys m) k" for k v
    by (auto simp: deps_def sel)
  have "parents (all_foreign_keys m) k \<subseteq> set targets" if "k \<in> set targets" for k
    using that assms(2) unfolding parents_def foreign_keys_closed_def by blast
  then have "v \<subseteq> keys_of deps" if "(k, v) \<in> set deps" for k v
    using that unfolding keys mem by simp
  then have "\<exists>C. C \<noteq> {} \<and> C \<subseteq> set targets \<and> (\<forall>k \<in> C. \<exists>v. (k, v) \<in> set deps \<and> v \<inter> C \<noteq> {})"
    using topological_stuck [OF topo] by (simp only: keys)
  then obtain C where "C \<noteq> {}" "C \<subseteq> set targets"
    "\<forall>k \<in> C. \<exists>v. (k, v) \<in> set deps \<and> v \<inter> C \<noteq> {}" by (elim exE conjE)
  then show ?thesis
    by (intro exI [of _ C]) (simp add: mem)
qed

subsection \<open>What a validated mapping promises\<close>

definition column_ok :: "metadata_snapshot \<Rightarrow> data_table \<Rightarrow> metadata_snapshot \<Rightarrow> data_table \<Rightarrow> string \<times> string \<Rightarrow> bool" where
  "column_ok source s target t p \<longleftrightarrow> (\<exists>sc tc. find_column (fst p) s = Some sc \<and> find_column (snd p) t = Some tc
     \<and> \<not> generated tc \<and> (identity_col tc \<longrightarrow> generator_safe tc)
     \<and> resolve_database_transfer_type (md_database_type source) (declared_type sc)
         (md_database_type target) (declared_type tc) = Compatible)"

definition table_ok :: "data_task_kind \<Rightarrow> metadata_snapshot \<Rightarrow> metadata_snapshot \<Rightarrow> table_mapping \<Rightarrow> validated_table \<Rightarrow> bool" where
  "table_ok kind source target m v \<longleftrightarrow> (\<exists>s t.
     find_table (source_table m) source = Some s \<and> find_table (target_table m) target = Some t
     \<and> physical s \<and> physical t \<and> \<not> enabled_user_triggers t
     \<and> vt_source v = source_table m \<and> vt_target v = target_table m
     \<and> length (vt_source_columns v) = length (vt_target_columns v)
     \<and> zip (vt_source_columns v) (vt_target_columns v)
         = map (\<lambda>c. (source_column c, target_column c)) (sort_key target_column (columns m))
     \<and> (\<forall>p \<in> set (zip (vt_source_columns v) (vt_target_columns v)). column_ok source s target t p)
     \<and> \<not> missing_required t (vt_target_columns v)
     \<and> (if kind = RowSync
        then map (\<lambda>i. vt_source_columns v ! i) (key_indices v) = map col_name (primary_key s)
          \<and> map (\<lambda>i. vt_target_columns v ! i) (key_indices v) = map col_name (primary_key t)
          \<and> key_indices v \<noteq> [] \<and> (\<forall>i \<in> set (key_indices v). i < length (vt_target_columns v))
        else key_indices v = []))"

lemma find_name:
  "find_column n t = Some c \<Longrightarrow> col_name c = n \<and> c \<in> set (tab_columns t)"
  "find_table n m = Some t \<Longrightarrow> tab_name t = n \<and> t \<in> set (md_tables m)"
  by (auto simp: find_column_def find_table_def find_Some_iff)

lemma position_Some: "position p xs = Some i \<Longrightarrow> i < length xs \<and> p (xs ! i)"
  by (induction xs arbitrary: i) (auto split: if_splits)

lemma validate_column_Inr:
  assumes "validate_column (md_database_type source) s (md_database_type target) t c = Inr p"
  shows "p = (source_column c, target_column c)" and "column_ok source s target t p"
  using assms by (auto simp: validate_column_def column_ok_def find_name split: if_splits)

lemma validate_columns_Inr:
  assumes "list_all2 (\<lambda>c p. validate_column (md_database_type source) s (md_database_type target) t c = Inr p) cs ps"
  shows "ps = map (\<lambda>c. (source_column c, target_column c)) cs \<and> (\<forall>p \<in> set ps. column_ok source s target t p)"
  using assms
proof (induction rule: list_all2_induct)
  case (Cons c cs p ps)
  then show ?case using validate_column_Inr [OF Cons.hyps(1)] by simp
qed simp

lemma key_index_Inr:
  assumes "key_index scs tcs (sc, tc) = Inr i" and "length scs = length tcs"
  shows "i < length tcs \<and> scs ! i = col_name sc \<and> tcs ! i = col_name tc"
  using assms by (auto simp: key_index_def split: if_splits option.splits dest!: position_Some)

lemma validate_keys_Inr:
  assumes "validate_keys kind s t scs tcs = Inr ks" and len: "length scs = length tcs"
  shows "if kind = RowSync
        then map (\<lambda>i. scs ! i) ks = map col_name (primary_key s)
          \<and> map (\<lambda>i. tcs ! i) ks = map col_name (primary_key t)
          \<and> ks \<noteq> [] \<and> (\<forall>i \<in> set ks. i < length tcs)
        else ks = []"
proof (cases "kind = RowSync")
  case True
  let ?sk = "primary_key s" and ?tk = "primary_key t"
  have ne: "?sk \<noteq> []" "length ?sk = length ?tk"
    and run: "collect_results (key_index scs tcs) (zip ?sk ?tk) = Inr ks"
    using assms True by (auto simp: validate_keys_def Let_def split: if_splits)
  have ks: "length ks = length ?sk"
    and step: "\<And>i. i < length ?sk \<Longrightarrow> key_index scs tcs (?sk ! i, ?tk ! i) = Inr (ks ! i)"
    using run ne by (auto simp: collect_results_Inr_iff)
  have at: "ks ! i < length tcs \<and> scs ! (ks ! i) = col_name (?sk ! i)
      \<and> tcs ! (ks ! i) = col_name (?tk ! i)" if "i < length ?sk" for i
    by (rule key_index_Inr [OF step [OF that] len])
  have "map (\<lambda>i. scs ! i) ks = map col_name ?sk" "map (\<lambda>i. tcs ! i) ks = map col_name ?tk"
    using at ks ne(2) by (auto intro!: nth_equalityI)
  moreover have "\<forall>i \<in> set ks. i < length tcs"
  proof
    fix i
    assume "i \<in> set ks"
    then obtain j where "j < length ks" "i = ks ! j" by (metis in_set_conv_nth)
    with at ks show "i < length tcs" by simp
  qed
  moreover have "ks \<noteq> []" using ks ne(1) by auto
  ultimately show ?thesis using True by simp
qed (use assms in \<open>simp add: validate_keys_def\<close>)

lemma validate_table_Inr:
  assumes "validate_table kind source target m = Inr v"
  shows "table_ok kind source target m v"
proof -
  obtain s t cols ks where s: "find_table (source_table m) source = Some s"
    and t: "find_table (target_table m) target = Some t"
    and phys: "physical s" "physical t" "\<not> enabled_user_triggers t"
    and cols: "collect_results (validate_column (md_database_type source) s (md_database_type target) t)
      (sort_key target_column (columns m)) = Inr cols"
    and miss: "\<not> missing_required t (map snd cols)"
    and ks: "validate_keys kind s t (map fst cols) (map snd cols) = Inr ks"
    and v: "v = \<lparr>vt_source = tab_name s, vt_target = tab_name t,
      vt_source_columns = map fst cols, vt_target_columns = map snd cols, key_indices = ks\<rparr>"
    using assms by (auto simp: validate_table_def Let_def split: if_splits)
  have "cols = map (\<lambda>c. (source_column c, target_column c)) (sort_key target_column (columns m))"
    and "\<forall>p \<in> set cols. column_ok source s target t p"
    using cols validate_columns_Inr unfolding collect_results_iff_all2 by blast+
  note cols = this
  have zip: "zip (map fst cols) (map snd cols) = cols" by (rule zip_map_fst_snd)
  have keys: "if kind = RowSync
        then map (\<lambda>i. map fst cols ! i) ks = map col_name (primary_key s)
          \<and> map (\<lambda>i. map snd cols ! i) ks = map col_name (primary_key t)
          \<and> ks \<noteq> [] \<and> (\<forall>i \<in> set ks. i < length (map snd cols))
        else ks = []"
    by (rule validate_keys_Inr [OF ks]) simp
  show ?thesis
    unfolding table_ok_def v
    by (rule exI [of _ s], rule exI [of _ t], unfold validated_table.simps zip)
       (use s t phys miss keys cols find_name(2) [OF s] find_name(2) [OF t] in \<open>intro conjI; simp\<close>)
qed

lemma validate_mapping_Inr:
  assumes "validate_mapping request source target = Inr m"
  obtains tables where "is_ok (validate request)" "check_endpoints request source target = Inr ()"
    and "list_all2 (table_ok (req_kind request) source target) (mappings request) tables"
    and "vm_tables m = sort_key vt_target tables"
    and "dependency_order (map target_table (mappings request)) target = Inr (insert_order m)"
    and "delete_order m = rev (insert_order m)"
proof -
  obtain tables where ep: "check_endpoints request source target = Inr ()"
    and tabs: "collect_results (validate_table (req_kind request) source target) (mappings request) = Inr tables"
    and ord: "dependency_order (map vt_target tables) target = Inr (insert_order m)"
    and m: "vm_tables m = sort_key vt_target tables" "delete_order m = rev (insert_order m)"
    using assms by (auto simp: validate_mapping_def)
  have "is_ok (validate request)"
    using ep by (cases "validate request") (auto simp: check_endpoints_def map_err_def)
  moreover have all: "list_all2 (table_ok (req_kind request) source target) (mappings request) tables"
    using tabs by (auto simp: collect_results_iff_all2 intro: list_all2_mono validate_table_Inr)
  moreover from all have "map vt_target tables = map target_table (mappings request)"
    by (induction rule: list_all2_induct) (auto simp: table_ok_def)
  ultimately show thesis using that ep m ord by simp
qed

lemma validate_mapping_targets:
  assumes "validate_mapping request source target = Inr m"
  shows "map vt_target (vm_tables m) = sort (map target_table (mappings request))"
    and "distinct (map vt_target (vm_tables m))"
proof -
  obtain tables where ok: "is_ok (validate request)"
    and all: "list_all2 (table_ok (req_kind request) source target) (mappings request) tables"
    and m: "vm_tables m = sort_key vt_target tables"
    using assms by (rule validate_mapping_Inr)
  have t: "map vt_target tables = map target_table (mappings request)"
    using all by (induction rule: list_all2_induct) (auto simp: table_ok_def)
  have "mset (map vt_target (vm_tables m)) = mset (map target_table (mappings request))"
    unfolding m t [symmetric] by simp
  moreover have "sorted (map vt_target (vm_tables m))" unfolding m by simp
  ultimately show eq: "map vt_target (vm_tables m) = sort (map target_table (mappings request))"
    by (metis properties_for_sort)
  show "distinct (map vt_target (vm_tables m))"
    using ok unfolding eq by (simp add: validate_ok)
qed

lemma check_endpoints_facts:
  assumes "check_endpoints request source target = Inr ()"
  shows "mode_matches (req_kind request) (req_mode request)"
    and "md_database_type target \<noteq> ClickHouse"
    and "md_database_type source = ClickHouse \<Longrightarrow> req_kind request = Transfer \<and> req_mode request = Append"
    and "\<not> md_read_only target" "permissions_verified source" "permissions_verified target"
    and "consistent_snapshot source \<or> md_database_type source = ClickHouse"
    and "consistent_snapshot target" "protected_write target"
    and "req_kind request = RowSync \<Longrightarrow> md_database_type source = md_database_type target"
proof -
  obtain u where "validate request = Inr u"
    using assms by (cases "validate request") (auto simp: check_endpoints_def map_err_def)
  then show "mode_matches (req_kind request) (req_mode request)"
    using validate_ok [of request] by simp
qed (use assms in \<open>auto simp: check_endpoints_def split: if_split_asm\<close>)

lemma transaction_database_iff: "transaction_database db \<longleftrightarrow> db \<noteq> ClickHouse"
  by (cases db) (auto simp: transaction_database_def)

lemma check_endpoints_capable:
  assumes "check_endpoints request source target = Inr ()"
  shows "req_mode request \<in> set (supported_modes (get_capabilities source target))
    \<and> cap_blockers (get_capabilities source target) = []
    \<and> (req_kind request = RowSync \<longrightarrow> cap_row_sync (get_capabilities source target))"
proof -
  note f = check_endpoints_facts [OF assms]
  have "get_capabilities source target =
      capabilities (md_database_type source) (md_database_type target) False True"
    using f by (auto simp: get_capabilities_def)
  with f show ?thesis
    by (auto simp: capabilities_def transaction_database_iff mode_matches_def Let_def
        split: data_task_kind.splits)
qed

subsection \<open>Properties\<close>

definition example_column :: "string \<Rightarrow> string \<Rightarrow> nat \<Rightarrow> data_column" where
  "example_column n t pk = \<lparr>col_name = n, declared_type = t, nullable = False, default_sql = None,
     generated = False, primary_key_ordinal = pk, collation = None, identity_col = False,
     generator_safe = False\<rparr>"

definition example_table :: "string \<Rightarrow> data_foreign_key list \<Rightarrow> data_table" where
  "example_table n fks = \<lparr>tab_name = n, create_sql = [],
     tab_columns = [example_column ''id'' ''INTEGER'' 1, example_column ''v'' ''DECIMAL(10,2)'' 0],
     foreign_keys = fks, enabled_user_triggers = False, physical = True\<rparr>"

definition example_metadata :: metadata_snapshot where
  "example_metadata = \<lparr>md_database_type = Postgres,
     md_tables = [example_table ''child'' [\<lparr>from_columns = [''id''], parent_table = ''parent'',
       parent_columns = [''id''], on_update = ''NO ACTION'', on_delete = ''restrict''\<rparr>],
       example_table ''parent'' []],
     md_read_only = False, permissions_verified = True, consistent_snapshot = True,
     protected_write = True, schema_fingerprint = [], configuration_fingerprint = []\<rparr>"

definition example_mapping :: "string \<Rightarrow> table_mapping" where
  "example_mapping n = \<lparr>source_table = n, target_table = n,
     columns = [\<lparr>source_column = ''v'', target_column = ''v''\<rparr>,
       \<lparr>source_column = ''id'', target_column = ''id''\<rparr>]\<rparr>"

definition example_request :: data_task_request where
  "example_request = \<lparr>protocol_version = 1, req_kind = RowSync,
     req_source = \<lparr>ep_connection = ''a'', ep_database = ''db''\<rparr>,
     req_target = \<lparr>ep_connection = ''b'', ep_database = ''db''\<rparr>,
     mappings = [example_mapping ''child'', example_mapping ''parent''], req_mode = Mirror\<rparr>"

definition example_validated :: validated_mapping where
  "example_validated =
     (let t = (\<lambda>n. \<lparr>vt_source = n, vt_target = n, vt_source_columns = [''id'', ''v''],
        vt_target_columns = [''id'', ''v''], key_indices = [0]\<rparr>)
      in \<lparr>vm_tables = [t ''child'', t ''parent''], insert_order = [''parent'', ''child''],
          delete_order = [''child'', ''parent'']\<rparr>)"

lemma example_validates:
  "validate_mapping example_request example_metadata example_metadata = Inr example_validated"
  by code_simp

text \<open>
  C7. An accepted mapping is sound: the request is valid and within the capabilities offered for
  these databases, the tables come in the order of their target names, and every table maps
  existing columns one to one, each pair of compatible types and none generated, leaves no
  required target column out and, for a row sync, locates both primary keys in full.
\<close>

theorem validate_mapping_sound:
  assumes "validate_mapping request source target = Inr m"
  shows "is_ok (validate request)
    \<and> req_mode request \<in> set (supported_modes (get_capabilities source target))
    \<and> cap_blockers (get_capabilities source target) = []
    \<and> map vt_target (vm_tables m) = sort (map target_table (mappings request))
    \<and> (\<forall>v \<in> set (vm_tables m). \<exists>mp \<in> set (mappings request).
         table_ok (req_kind request) source target mp v)"
proof -
  have list_all2_set2: "\<forall>y \<in> set ys. \<exists>x \<in> set xs. P x y" if "list_all2 P xs ys"
    for P :: "table_mapping \<Rightarrow> validated_table \<Rightarrow> bool" and xs ys
    using that by (induction rule: list_all2_induct) auto
  obtain tables where v: "is_ok (validate request)" "check_endpoints request source target = Inr ()"
    and all: "list_all2 (table_ok (req_kind request) source target) (mappings request) tables"
    and m: "vm_tables m = sort_key vt_target tables"
    using assms by (rule validate_mapping_Inr)
  have "\<forall>v \<in> set (vm_tables m). \<exists>mp \<in> set (mappings request). table_ok (req_kind request) source target mp v"
    using list_all2_set2 [OF all] unfolding m by auto
  then show ?thesis
    using v check_endpoints_capable validate_mapping_targets(1) [OF assms] by blast
qed

theorem validate_mapping_sound_witness:
  "Mirror \<in> set (supported_modes (get_capabilities example_metadata example_metadata))"
  using validate_mapping_sound [OF example_validates] by (simp add: example_request_def)

text \<open>
  C8. Rows are inserted in an order the foreign keys allow: the insertion order lists every target
  table once, a referenced table before the table that references it, and the deletion order is
  its reverse; no foreign key leads into or out of the target tables or cascades.
\<close>

theorem insert_order_topological:
  assumes "validate_mapping request source target = Inr m"
  shows "distinct (insert_order m) \<and> set (insert_order m) = set (map target_table (mappings request))
    \<and> delete_order m = rev (insert_order m)
    \<and> foreign_keys_closed (set (insert_order m)) (all_foreign_keys target)
    \<and> (\<forall>t \<in> set (md_tables target). \<forall>fk \<in> set (foreign_keys t).
         tab_name t \<in> set (insert_order m) \<longrightarrow>
         precedes (parent_table fk) (tab_name t) (insert_order m)
       \<and> precedes (tab_name t) (parent_table fk) (delete_order m))"
proof -
  have ord: "dependency_order (map target_table (mappings request)) target = Inr (insert_order m)"
    and del: "delete_order m = rev (insert_order m)"
    using assms by (rule validate_mapping_Inr, simp)+
  note o = dependency_order_sound [OF ord]
  have "precedes (parent_table fk) (tab_name t) (insert_order m)
      \<and> precedes (tab_name t) (parent_table fk) (delete_order m)"
    if "t \<in> set (md_tables target)" "fk \<in> set (foreign_keys t)" "tab_name t \<in> set (insert_order m)" for t fk
    using that o(2,4) precedes_rev del by metis
  then show ?thesis
    using o(1,2,3) del by metis
qed

theorem insert_order_topological_witness:
  "precedes ''parent'' ''child'' (insert_order example_validated)"
  using insert_order_topological [OF example_validates]
  by (simp add: example_metadata_def example_table_def example_validated_def Let_def)

end
