(* ===== verification/Transfer_Row.thy ===== *)
theory Transfer_Row
  imports Metadata
begin

text \<open>
  The conversion of a source row into the values the target reads natively, for a transfer
  between databases of different types (\<open>normalize\_transfer\_row\<close> of
  \<open>src-tauri/src/db/data\_tasks/type\_mapping.rs\<close>).
\<close>

subsection \<open>One value\<close>

definition not_lossless :: "'a result" where
  "not_lossless = Inl ''unsupported_capability: the source value cannot be represented without loss''"

definition bool_word :: "bool \<Rightarrow> 64 word" where
  "bool_word b = (if b then 1 else 0)"

definition convert_bool :: "database_type \<Rightarrow> bool \<Rightarrow> data_type \<Rightarrow> data_value result" where
  "convert_bool target_db v kind = (case kind of
     TBoolean \<Rightarrow> Inr (if target_db = Sqlite then Int64 (bool_word v) else Bool v)
   | TInteger bits uns \<Rightarrow>
       Inr (if uns \<and> target_db \<noteq> SqlServer then UInt64 (bool_word v) else Int64 (bool_word v))
   | _ \<Rightarrow> not_lossless)"

definition convert_int ::
    "database_type \<Rightarrow> database_type \<Rightarrow> 64 word \<Rightarrow> data_type \<Rightarrow> data_value result" where
  "convert_int source_db target_db v kind = (case kind of
     TBoolean \<Rightarrow> if source_db = Sqlite \<and> (v = 0 \<or> v = 1) then Inr (Bool (v = 1)) else not_lossless
   | TInteger bits False \<Rightarrow>
       if bits = 64 \<or> (- (2 ^ (bits - 1)) \<le> sint v \<and> sint v < 2 ^ (bits - 1))
       then Inr (Int64 v) else not_lossless
   | TInteger bits True \<Rightarrow>
       if 0 \<le> sint v \<and> (bits = 64 \<or> uint v < 2 ^ bits)
       then Inr (if target_db = SqlServer then Int64 v else UInt64 v) else not_lossless
   | _ \<Rightarrow> not_lossless)"

definition I64_MAX :: int where
  "I64_MAX = 2 ^ 63 - 1"

definition convert_uint :: "database_type \<Rightarrow> 64 word \<Rightarrow> data_type \<Rightarrow> data_value result" where
  "convert_uint target_db v kind = (case kind of
     TInteger bits False \<Rightarrow>
       if uint v \<le> (if bits = 64 then I64_MAX else 2 ^ (bits - 1) - 1)
       then Inr (Int64 v) else not_lossless
   | TInteger bits True \<Rightarrow>
       if bits = 64 \<or> uint v < 2 ^ bits
       then if target_db = SqlServer
            then if uint v \<le> I64_MAX then Inr (Int64 v)
              else Inl ''unsupported_capability: the signed representation overflows''
            else Inr (UInt64 v)
       else not_lossless
   | _ \<Rightarrow> not_lossless)"

definition convert_decimal :: "string \<Rightarrow> data_type \<Rightarrow> data_value result" where
  "convert_decimal v kind = (case kind of
     TDecimal precision scale \<Rightarrow>
       rbind (normalize_decimal v) (\<lambda>v.
         let uns = unwrap_or v (strip_prefix ''-'' v);
             (whole, fraction) = unwrap_or (uns, []) (split_once ''.'' uns)
         in if precision - scale < length (trim_start_matches CHR ''0'' whole) \<or> scale < length fraction
            then Inl ''unsupported_capability: the decimal exceeds the precision or scale of the target''
            else Inr (Decimal v))
   | _ \<Rightarrow> not_lossless)"

text \<open>A double is finite when its exponent field is not all ones.\<close>

definition is_finite :: "64 word \<Rightarrow> bool" where
  "is_finite bits \<longleftrightarrow> (uint bits div 2 ^ 52) mod 2 ^ 11 \<noteq> 2 ^ 11 - 1"

fun convert_value ::
    "calendar \<Rightarrow> database_type \<Rightarrow> database_type \<Rightarrow> data_value \<Rightarrow> data_type \<Rightarrow> data_value result" where
  "convert_value calendar source_db target_db (Bool v) kind = convert_bool target_db v kind"
| "convert_value calendar source_db target_db (Int64 v) kind = convert_int source_db target_db v kind"
| "convert_value calendar source_db target_db (UInt64 v) kind = convert_uint target_db v kind"
| "convert_value calendar source_db target_db (Text v) kind = (case kind of
     TText limit \<Rightarrow> if in_limit (char_count v) limit then Inr (Text v) else not_lossless
   | _ \<Rightarrow> not_lossless)"
| "convert_value calendar source_db target_db (Binary v) kind = (case kind of
     TBinary limit \<Rightarrow> if in_limit (length v) limit then Inr (Binary v) else not_lossless
   | _ \<Rightarrow> not_lossless)"
| "convert_value calendar source_db target_db (Decimal v) kind = convert_decimal v kind"
| "convert_value calendar source_db target_db (Float bits) kind = (case kind of
     TFloat _ \<Rightarrow> if is_finite bits then Inr (Float bits) else not_lossless
   | _ \<Rightarrow> not_lossless)"
| "convert_value calendar source_db target_db (Temporal k v) kind = (case kind of
     TTemporal kind precision \<Rightarrow> normalize_temporal calendar v kind precision target_db
   | _ \<Rightarrow> not_lossless)"
| "convert_value calendar source_db target_db (Uuid v) kind =
     (if kind = TUuid then Inr (Uuid v) else not_lossless)"
| "convert_value calendar source_db target_db (Json v) kind = not_lossless"
| "convert_value calendar source_db target_db Null kind = not_lossless"

subsection \<open>One cell and one row\<close>

text \<open>
  Whether a SQLite source declares the column a boolean. The source columns are indexed, and
  an index out of range panics; no index is taken when the table has no columns.
\<close>

definition boolean_source :: "metadata_snapshot \<Rightarrow> validated_table \<Rightarrow> nat \<Rightarrow> bool result" where
  "boolean_source source mapped index =
     (case find_table (vt_source mapped) source of
        None \<Rightarrow> Inr False
      | Some t \<Rightarrow>
          if tab_columns t = [] then Inr False
          else if index < length (vt_source_columns mapped)
          then Inr (case find_column (vt_source_columns mapped ! index) t of
              None \<Rightarrow> False | Some c \<Rightarrow> parse (declared_type c) = Some TBoolean)
          else Inl ''panic: index out of bounds'')"

fun is_zero_one :: "data_value \<Rightarrow> bool" where
  "is_zero_one (Int64 v) = (v = 0 \<or> v = 1)"
| "is_zero_one (Bool _) = True"
| "is_zero_one _ = False"

definition convert_cell ::
    "calendar \<Rightarrow> metadata_snapshot \<Rightarrow> metadata_snapshot \<Rightarrow> validated_table \<Rightarrow> data_table
       \<Rightarrow> nat \<times> data_value \<times> string \<Rightarrow> data_value result" where
  "convert_cell calendar source target mapped table cell = (case cell of (index, value, name) \<Rightarrow>
     rbind (ok_or ''invalid_mapping: no such target column'' (find_column name table)) (\<lambda>column.
       if is_null value
       then if \<not> nullable column
         then Inl ''invalid_mapping: the target column does not accept NULL'' else Inr value
       else
         rbind (ok_or ''unsupported_capability: the target type is not known to be lossless''
           (database_type_name (md_database_type target) (declared_type column) True True)) (\<lambda>declared.
         rbind (ok_or ''unsupported_capability: the target type is not supported'' (parse declared)) (\<lambda>kind.
         rbind (if md_database_type source = Sqlite then boolean_source source mapped index
                else Inr False) (\<lambda>bool_source.
           if bool_source \<and> \<not> is_zero_one value
           then Inl ''unsupported_capability: a SQLite BOOLEAN transfers 0 and 1 only''
           else convert_value calendar (md_database_type source) (md_database_type target) value kind)))))"

definition normalize_transfer_row ::
    "calendar \<Rightarrow> canonical_row \<Rightarrow> metadata_snapshot \<Rightarrow> metadata_snapshot \<Rightarrow> validated_mapping
       \<Rightarrow> canonical_row result" where
  "normalize_transfer_row calendar row source target mapping =
     (if md_database_type source = md_database_type target then Inr row
      else
        rbind (ok_or ''invalid_mapping: no table mapping for the row''
          (List.find (\<lambda>m. vt_target m = row_table row) (vm_tables mapping))) (\<lambda>mapped.
        rbind (ok_or ''invalid_mapping: no such target table'' (find_table (row_table row) target)) (\<lambda>table.
          if length (row_values row) \<noteq> length (vt_target_columns mapped)
          then Inl ''invalid_mapping: the row does not have the shape of the mapping''
          else
            rbind (collect_results (convert_cell calendar source target mapped table)
              (enumerate 0 (zip (row_values row) (vt_target_columns mapped)))) (\<lambda>values.
            Inr (row\<lparr>row_values := values, row_key := []\<rparr>)))))"

subsection \<open>Conversion keeps the value\<close>

fun number_of :: "data_value \<Rightarrow> int option" where
  "number_of (Bool b) = Some (if b then 1 else 0)"
| "number_of (Int64 w) = Some (sint w)"
| "number_of (UInt64 w) = Some (uint w)"
| "number_of _ = None"

text \<open>Two values that stand for the same number, decimal, instant, text or bytes.\<close>

definition same_value :: "data_value \<Rightarrow> data_value \<Rightarrow> bool" where
  "same_value a b \<longleftrightarrow> a = b
   \<or> (number_of a \<noteq> None \<and> number_of a = number_of b)
   \<or> (\<exists>s t. a = Decimal s \<and> b = Decimal t \<and> decimal_value s \<noteq> None \<and> decimal_value s = decimal_value t)
   \<or> (\<exists>k s l t kind. a = Temporal k s \<and> b = Temporal l t
        \<and> temporal_meaning kind s \<noteq> None \<and> temporal_meaning kind s = temporal_meaning kind t)"

lemma uint_64: "0 \<le> uint (v :: 64 word)" "uint v < 2 ^ 64"
  using unsigned_less [of v, where ?'a = int] by simp_all

lemma sint_64: "- (2 ^ 63) \<le> sint (v :: 64 word)" "sint v < 2 ^ 63"
  using sint_greater_eq [of v] sint_less [of v] by simp_all

lemma sint_eq_uint_small: "uint (v :: 64 word) \<le> I64_MAX \<Longrightarrow> sint v = uint v"
  using order_trans [OF _ uint_64(1), of "- (2 ^ 63)" v]
  by (simp add: I64_MAX_def sint_uint signed_take_bit_int_eq_self_iff)

lemma uint_eq_sint_nonneg: "0 \<le> sint (v :: 64 word) \<Longrightarrow> uint v = sint v"
  using sint_64 [of v] by (simp add: uint_sint take_bit_int_eq_self)

lemma bool_word_values [simp]: "uint (bool_word b) = (if b then 1 else 0)" "sint (bool_word b) = (if b then 1 else 0)"
  by (simp_all add: bool_word_def)

lemma convert_bool_Inr:
  assumes "convert_bool db v kind = Inr w" and "wf_type kind"
  shows "same_value (Bool v) w \<and> fits kind w"
  using assms by (auto simp: convert_bool_def not_lossless_def same_value_def int_in_range_def bool_word_def
      split: data_type.splits if_splits)

lemma convert_int_Inr:
  assumes "convert_int src db v kind = Inr w" and "wf_type kind"
  shows "same_value (Int64 v) w \<and> fits kind w"
proof (cases kind)
  case (TInteger bits uns)
  show ?thesis
  proof (cases uns)
    case True
    with assms TInteger have nn: "0 \<le> sint v" and r: "bits = 64 \<or> uint v < 2 ^ bits"
      and w: "w = (if db = SqlServer then Int64 v else UInt64 v)"
      by (auto simp: convert_int_def not_lossless_def split: if_splits)
    from nn have "uint v = sint v" by (rule uint_eq_sint_nonneg)
    with r w TInteger True uint_64 [of v] nn show ?thesis
      by (auto simp: same_value_def int_in_range_def)
  next
    case False
    with assms TInteger sint_64 [of v] show ?thesis
      by (auto simp: convert_int_def not_lossless_def same_value_def int_in_range_def split: if_splits)
  qed
qed (use assms in \<open>auto simp: convert_int_def not_lossless_def same_value_def split: if_splits\<close>)

lemma convert_uint_Inr:
  assumes "convert_uint db v kind = Inr w" and "wf_type kind"
  shows "same_value (UInt64 v) w \<and> fits kind w"
proof (cases kind)
  case (TInteger bits uns)
  show ?thesis
  proof (cases uns)
    case True
    with assms TInteger have r: "bits = 64 \<or> uint v < 2 ^ bits"
      and w: "w = UInt64 v \<or> w = Int64 v \<and> uint v \<le> I64_MAX"
      by (auto simp: convert_uint_def not_lossless_def split: if_splits)
    with TInteger True uint_64 [of v] show ?thesis
      by (auto simp: same_value_def int_in_range_def sint_eq_uint_small)
  next
    case False
    have "bits - 1 \<le> 63" using assms(2) TInteger by auto
    then have "(2::int) ^ (bits - 1) \<le> 2 ^ 63" by (rule power_increasing) simp
    moreover from False assms TInteger have w: "w = Int64 v"
      and r: "uint v \<le> (if bits = 64 then I64_MAX else 2 ^ (bits - 1) - 1)"
      by (auto simp: convert_uint_def not_lossless_def split: if_splits)
    ultimately have "uint v \<le> I64_MAX" by (auto simp: I64_MAX_def split: if_splits)
    moreover from r have "uint v < 2 ^ (bits - 1)" by (auto simp: I64_MAX_def split: if_splits)
    moreover have "(0::int) \<le> 2 ^ (bits - 1)" by simp
    then have "- (2 ^ (bits - 1)) \<le> uint v" using uint_64(1) [of v] by linarith
    ultimately show ?thesis
      using w TInteger False by (auto simp: same_value_def int_in_range_def sint_eq_uint_small)
  qed
qed (use assms in \<open>auto simp: convert_uint_def not_lossless_def split: if_splits\<close>)

lemma strip_sign:
  assumes "all_digits w" "w \<noteq> []"
  shows "unwrap_or ((if neg then ''-'' else []) @ w @ r) (strip_prefix ''-'' ((if neg then ''-'' else []) @ w @ r)) = w @ r"
  using assms strip_prefix_digits by (cases neg) auto

lemma digits_no_dot: "all_digits w \<Longrightarrow> CHR 0x2E \<notin> set w"
  by (auto simp: all_digits_def is_digit_def)

lemma convert_decimal_Inr:
  assumes "convert_decimal v kind = Inr w"
  shows "same_value (Decimal v) w \<and> fits kind w"
proof -
  obtain precision scale where kind: "kind = TDecimal precision scale"
    using assms by (cases kind) (auto simp: convert_decimal_def not_lossless_def)
  obtain n where n: "normalize_decimal v = Inr n"
    using assms by (auto simp: kind convert_decimal_def)
  obtain neg p f where parts: "decimal_parts v = Inr (neg, p, f)" and nr: "n = render_decimal neg p f"
    using n by (auto simp: normalize_decimal_Inr)
  from decimal_parts_digits [OF parts] have d: "p \<noteq> []" "all_digits p" "all_digits f" by simp_all
  define P F sg where "P = norm_whole p" and "F = norm_fraction f"
    and "sg = (neg \<and> (P \<noteq> ''0'' \<or> F \<noteq> []))"
  have PF: "all_digits P" "P \<noteq> []" "all_digits F" using d by (simp_all add: P_def F_def norm_digits)
  have shape: "n = (if sg then ''-'' else []) @ P @ (if F = [] then [] else CHR 0x2E # F)"
    by (simp add: nr render_decimal_alt P_def F_def sg_def)
  have uns: "unwrap_or n (strip_prefix ''-'' n) = P @ (if F = [] then [] else CHR 0x2E # F)"
    unfolding shape by (rule strip_sign [OF PF(1,2)])
  have split: "unwrap_or (P @ (if F = [] then [] else CHR 0x2E # F), [])
      (split_once ''.'' (P @ (if F = [] then [] else CHR 0x2E # F))) = (P, F)"
    using split_once_dot [OF digits_no_dot [OF PF(1)]] by simp
  have w: "w = Decimal n" and lim: "length (trim_start_matches CHR ''0'' P) \<le> precision - scale" "length F \<le> scale"
    using assms by (auto simp: kind convert_decimal_def n Let_def uns split split: if_splits)
  have "decimal_parts n = Inr (sg, P, F)"
    unfolding nr sg_def P_def F_def by (rule decimal_parts_render [OF d(2,1,3)])
  then have "decimal_fits precision scale n"
    using lim norm_length(2) [of F] by (auto simp: decimal_fits_def norm_fraction_def [symmetric])
  then show ?thesis
    using decimal_value_normalize [OF n] by (auto simp: w kind same_value_def)
qed

lemma temporal_fraction_text:
  "CHR 0x2E \<notin> set p \<Longrightarrow> all_digits g \<Longrightarrow>
     temporal_fraction (p @ (if g = [] then [] else CHR 0x2E # g)) = norm_fraction g"
  using split_once_dot [of p] by (simp add: temporal_fraction_def norm_fraction_Nil)

lemma stored_clock_fraction:
  assumes "CHR 0x2E \<notin> set p" "CHR 0x2E \<notin> set w" "all_digits f"
  shows "temporal_fraction (p @ stored_clock db precision w f) = norm_fraction f"
  using temporal_fraction_text [of "p @ w"] assms all_digits_pad [OF assms(3)]
  by (auto simp: stored_clock_def render_clock_def Let_def norm_fraction_pad)

lemma convert_temporal_Inr:
  assumes "normalize_temporal calendar s kind precision db = Inr v"
  shows "same_value (Temporal k s) v \<and> fits (TTemporal kind precision) v"
proof -
  obtain t where t: "v = Temporal (temporal_kind_name kind db) t"
    "temporal_meaning kind t = temporal_meaning kind s" "temporal_meaning kind s \<noteq> None"
    using assms by (rule normalize_temporal_meaning)
  have "length (temporal_fraction t) \<le> precision"
    using assms
  proof (cases rule: normalize_temporal_Inr)
    case date
    then have "CHR 0x2E \<notin> set t" using t check_date_no_dot by auto
    then show ?thesis using split_once_dot(2) by (simp add: temporal_fraction_def)
  next
    case (clock pre c w f)
    note facts = split_clock_Inr [OF clock(1)]
    have "CHR 0x2E \<notin> set pre" using clock(3) by auto
    moreover have "t = pre @ stored_clock db precision w f" using clock(2) t by simp
    ultimately show ?thesis using facts stored_clock_fraction by simp
  qed
  moreover have "same_value (Temporal k s) v"
    unfolding same_value_def t(1) using t(2,3) by metis
  ultimately show ?thesis by (simp add: t(1))
qed

lemma convert_value_Inr:
  assumes "convert_value calendar src db v kind = Inr w" and "wf_type kind"
  shows "same_value v w \<and> fits kind w"
proof (cases v)
  case (Temporal k s)
  with assms show ?thesis
    by (cases kind) (auto simp: not_lossless_def dest: convert_temporal_Inr [where k = k])
qed (use assms convert_bool_Inr convert_int_Inr convert_uint_Inr convert_decimal_Inr in
    \<open>auto simp: not_lossless_def same_value_def split: data_type.splits if_splits\<close>)

subsection \<open>The converted row\<close>

definition cell_ok ::
    "metadata_snapshot \<Rightarrow> data_table \<Rightarrow> data_value \<times> string \<Rightarrow> data_value \<Rightarrow> bool" where
  "cell_ok target table c w \<longleftrightarrow> same_value (fst c) w
   \<and> (\<exists>column. find_column (snd c) table = Some column
      \<and> (if is_null w then nullable column
         else \<exists>declared kind. database_type_name (md_database_type target) (declared_type column) True True
              = Some declared \<and> parse declared = Some kind \<and> fits kind w))"

lemma fits_not_null: "fits kind v \<Longrightarrow> \<not> is_null v"
  by (cases kind; cases v) (auto simp: is_null_def)

lemma convert_cell_Inr:
  assumes "convert_cell calendar source target mapped table (i, v, name) = Inr w"
  shows "cell_ok target table (v, name) w"
proof -
  obtain column where c: "find_column name table = Some column"
    using assms by (auto simp: convert_cell_def)
  show ?thesis
  proof (cases "is_null v")
    case True
    with assms c show ?thesis
      by (auto simp: convert_cell_def cell_ok_def same_value_def split: if_splits)
  next
    case False
    obtain declared kind where d: "database_type_name (md_database_type target) (declared_type column) True True = Some declared"
      "parse declared = Some kind"
      and run: "convert_value calendar (md_database_type source) (md_database_type target) v kind = Inr w"
      using assms c False by (auto simp: convert_cell_def split: if_splits)
    have "same_value v w \<and> fits kind w"
      by (rule convert_value_Inr [OF run parse_wf [OF d(2)]])
    with c d show ?thesis by (auto simp: cell_ok_def dest: fits_not_null)
  qed
qed

lemma convert_cells_Inr:
  "collect_results (convert_cell calendar source target mapped table) (enumerate n cells) = Inr ws \<Longrightarrow>
     list_all2 (cell_ok target table) cells ws"
proof (induction cells arbitrary: n ws)
  case (Cons c cells)
  obtain v name where "c = (v, name)" by (cases c)
  with Cons show ?case by (auto dest: convert_cell_Inr)
qed simp

lemma normalize_transfer_row_Inr:
  assumes "normalize_transfer_row calendar row source target mapping = Inr row'"
    and "md_database_type source \<noteq> md_database_type target"
  obtains mapped table where "List.find (\<lambda>m. vt_target m = row_table row) (vm_tables mapping) = Some mapped"
    and "find_table (row_table row) target = Some table"
    and "length (row_values row) = length (vt_target_columns mapped)"
    and "list_all2 (cell_ok target table) (zip (row_values row) (vt_target_columns mapped)) (row_values row')"
    and "row_table row' = row_table row" and "row_key row' = []"
  using assms by (auto simp: normalize_transfer_row_def dest!: convert_cells_Inr split: if_splits)

subsection \<open>Properties\<close>

text \<open>
  C10. A transfer between different databases loses nothing: a row is either refused or every
  value of it is replaced by one that stands for the same number, decimal, instant, text or
  bytes and that the type of its target column holds; NULL only goes to a nullable column.
\<close>

theorem normalize_transfer_row_lossless:
  assumes "normalize_transfer_row calendar row source target mapping = Inr row'"
    and "md_database_type source \<noteq> md_database_type target"
  shows "row_table row' = row_table row \<and> row_key row' = []
    \<and> (\<exists>mapped table. List.find (\<lambda>m. vt_target m = row_table row) (vm_tables mapping) = Some mapped
       \<and> find_table (row_table row) target = Some table
       \<and> length (row_values row) = length (vt_target_columns mapped)
       \<and> list_all2 (cell_ok target table) (zip (row_values row) (vt_target_columns mapped)) (row_values row'))"
  using assms by (rule normalize_transfer_row_Inr) blast

definition transfer_mapping :: validated_mapping where
  "transfer_mapping = \<lparr>vm_tables = [\<lparr>vt_source = ''child'', vt_target = ''parent'',
     vt_source_columns = [''id'', ''v''], vt_target_columns = [''id'', ''v''], key_indices = []\<rparr>],
     insert_order = [''parent''], delete_order = [''parent'']\<rparr>"

theorem normalize_transfer_row_lossless_witness:
  "\<exists>row'. normalize_transfer_row (\<lambda>_ _ _. True)
       \<lparr>row_table = ''parent'', row_key = [], row_values = [UInt64 7, Decimal ''+1.50'']\<rparr>
       (example_metadata\<lparr>md_database_type := MySql\<rparr>) example_metadata transfer_mapping = Inr row'
     \<and> row_values row' = [Int64 7, Decimal ''1.5''] \<and> row_table row' = ''parent''"
proof -
  let ?row = "\<lparr>row_table = ''parent'', row_key = [], row_values = [UInt64 7, Decimal ''+1.50'']\<rparr>"
  let ?new = "\<lparr>row_table = ''parent'', row_key = [], row_values = [Int64 7, Decimal ''1.5'']\<rparr>"
  have run: "normalize_transfer_row (\<lambda>_ _ _. True) ?row
      (example_metadata\<lparr>md_database_type := MySql\<rparr>) example_metadata transfer_mapping = Inr ?new"
    by code_simp
  have "row_table ?new = row_table ?row"
    using normalize_transfer_row_lossless [OF run] by (simp add: example_metadata_def)
  with run show ?thesis by simp
qed

end
