(* ===== verification/Batch.thy ===== *)
theory Batch
  imports Data_Value Data_Models
begin

text \<open>
  The set-based write statements of a data task
  (\<open>src-tauri/src/db/data\_tasks/adapters/batch.rs\<close>): identifier quoting, parameter
  placeholders, the parameter budget and the INSERT, UPDATE and DELETE texts with the
  parameters they bind.
\<close>

subsection \<open>Dialects\<close>

datatype dialect = DSqlite | DPostgres | DMySql | DSqlServer | DClickHouse

definition parameter_limit :: "dialect \<Rightarrow> nat" where
  "parameter_limit d = (case d of DSqlite \<Rightarrow> 999 | DSqlServer \<Rightarrow> 2100 | _ \<Rightarrow> 65535)"

definition quote_identifier :: "char \<Rightarrow> char \<Rightarrow> string \<Rightarrow> string" where
  "quote_identifier left right name = left # replace_char right [right, right] name @ [right]"

definition identifier_sql :: "dialect \<Rightarrow> string \<Rightarrow> string" where
  "identifier_sql d name =
     (if d \<in> {DMySql, DClickHouse} then quote_identifier CHR 0x60 CHR 0x60 name
      else if d = DSqlServer then quote_identifier CHR ''['' CHR '']'' name
      else quote_identifier CHR 0x22 CHR 0x22 name)"

definition placeholder :: "dialect \<Rightarrow> nat \<Rightarrow> string" where
  "placeholder d n = (case d of
     DPostgres \<Rightarrow> ''$'' @ nat_to_string n
   | DSqlServer \<Rightarrow> ''@P'' @ nat_to_string n
   | _ \<Rightarrow> ''?'')"

definition parameters_per_row :: "nat \<Rightarrow> nat \<Rightarrow> data_diff_operation \<Rightarrow> nat" where
  "parameters_per_row cols keys kind = (case kind of
     DiffInsert \<Rightarrow> cols
   | DiffDelete \<Rightarrow> keys
   | DiffUpdate \<Rightarrow> (cols - keys) * (keys + 1) + keys
   | DiffRetain \<Rightarrow> 0)"

subsection \<open>Binding parameters\<close>

record bindings =
  bound :: "data_value list"
  bound_columns :: "nat list"

definition bind_value :: "dialect \<Rightarrow> nat \<Rightarrow> data_value \<Rightarrow> bindings \<Rightarrow> string \<times> bindings" where
  "bind_value d column v b =
     (let b = b\<lparr>bound := bound b @ [v], bound_columns := bound_columns b @ [column]\<rparr>
      in (placeholder d (length (bound b)), b))"

text \<open>A \<open>map\<close> over an iterator whose closure changes the bindings.\<close>

fun map_bind :: "('a \<Rightarrow> bindings \<Rightarrow> string \<times> bindings) \<Rightarrow> 'a list \<Rightarrow> bindings \<Rightarrow> string list \<times> bindings" where
  "map_bind f [] b = ([], b)"
| "map_bind f (x # xs) b =
     (let (s, b) = f x b; (ss, b) = map_bind f xs b in (s # ss, b))"

definition predicate ::
    "dialect \<Rightarrow> string list \<Rightarrow> nat list \<Rightarrow> data_value list \<Rightarrow> bindings \<Rightarrow> string \<times> bindings" where
  "predicate d names keys r b =
     (let (ss, b) = map_bind (\<lambda>i b. let (p, b) = bind_value d i (r ! i) b in (names ! i @ '' = '' @ p, b)) keys b
      in (join '' AND '' ss, b))"

definition parenthesized ::
    "(data_value list \<Rightarrow> bindings \<Rightarrow> string \<times> bindings) \<Rightarrow> data_value list \<Rightarrow> bindings \<Rightarrow> string \<times> bindings" where
  "parenthesized f r b = (let (s, b) = f r b in (''('' @ s @ '')'', b))"

definition insert_tuple :: "dialect \<Rightarrow> data_value list \<Rightarrow> bindings \<Rightarrow> string \<times> bindings" where
  "insert_tuple d r b =
     (let (ss, b) = map_bind (\<lambda>(index, v). bind_value d index v) (enumerate 0 r) b
      in (join '','' ss, b))"

definition insert_sql ::
    "dialect \<Rightarrow> string \<Rightarrow> string list \<Rightarrow> data_value list list \<Rightarrow> bindings \<Rightarrow> string \<times> bindings" where
  "insert_sql d target names rows b =
     (let (tuples, b) = map_bind (parenthesized (insert_tuple d)) rows b
      in (''INSERT INTO '' @ target @ '' ('' @ join '','' names @ '') VALUES '' @ join '','' tuples, b))"

definition where_rows ::
    "dialect \<Rightarrow> string list \<Rightarrow> nat list \<Rightarrow> data_value list list \<Rightarrow> bindings \<Rightarrow> string \<times> bindings" where
  "where_rows d names keys rows b =
     (let (conditions, b) = map_bind (parenthesized (predicate d names keys)) rows b
      in (join '' OR '' conditions, b))"

definition delete_sql ::
    "dialect \<Rightarrow> string \<Rightarrow> string list \<Rightarrow> nat list \<Rightarrow> data_value list list \<Rightarrow> bindings \<Rightarrow> string \<times> bindings" where
  "delete_sql d target names keys rows b =
     (let (conditions, b) = where_rows d names keys rows b
      in (''DELETE FROM '' @ target @ '' WHERE '' @ conditions, b))"

definition update_case ::
    "dialect \<Rightarrow> string list \<Rightarrow> nat list \<Rightarrow> nat \<Rightarrow> data_value list \<Rightarrow> bindings \<Rightarrow> string \<times> bindings" where
  "update_case d names keys index r b =
     (let (p, b) = predicate d names keys r b; (v, b) = bind_value d index (r ! index) b
      in (''WHEN '' @ p @ '' THEN '' @ v, b))"

definition assignment ::
    "dialect \<Rightarrow> string list \<Rightarrow> nat list \<Rightarrow> data_value list list \<Rightarrow> nat \<Rightarrow> bindings \<Rightarrow> string \<times> bindings" where
  "assignment d names keys rows index b =
     (let (cases, b) = map_bind (update_case d names keys index) rows b
      in (names ! index @ '' = CASE '' @ join '' '' cases @ '' ELSE '' @ names ! index @ '' END'', b))"

definition update_sql ::
    "dialect \<Rightarrow> string \<Rightarrow> string list \<Rightarrow> nat list \<Rightarrow> data_value list list \<Rightarrow> bindings \<Rightarrow> string \<times> bindings" where
  "update_sql d target names keys rows b =
     (let (assignments, b) = map_bind (assignment d names keys rows)
            (filter (\<lambda>i. i \<notin> set keys) [0..<length names]) b;
          (conditions, b) = where_rows d names keys rows b
      in (''UPDATE '' @ target @ '' SET '' @ join '','' assignments @ '' WHERE '' @ conditions, b))"

subsection \<open>Building a batch\<close>

record write_batch =
  wb_sql :: string
  wb_params :: "data_value list"
  parameter_columns :: "nat list"
  wb_table :: string
  wb_kind :: data_diff_operation
  wb_columns :: "string list"

definition batch_shape_ok :: "string list \<Rightarrow> nat list \<Rightarrow> data_value list list \<Rightarrow> bool" where
  "batch_shape_ok cols keys rows \<longleftrightarrow> cols \<noteq> [] \<and> rows \<noteq> [] \<and> length rows \<le> 500 \<and> distinct cols
     \<and> (\<forall>i \<in> set keys. i < length cols) \<and> distinct keys \<and> (\<forall>r \<in> set rows. length r = length cols)"

definition batch_text ::
    "dialect \<Rightarrow> string \<Rightarrow> string list \<Rightarrow> nat list \<Rightarrow> data_diff_operation \<Rightarrow> data_value list list
       \<Rightarrow> (string \<times> bindings) result" where
  "batch_text d target names keys kind rows =
     (let b = \<lparr>bound = [], bound_columns = []\<rparr> in
      case kind of
        DiffInsert \<Rightarrow> Inr (insert_sql d target names rows b)
      | DiffDelete \<Rightarrow> Inr (delete_sql d target names keys rows b)
      | DiffUpdate \<Rightarrow> Inr (update_sql d target names keys rows b)
      | DiffRetain \<Rightarrow> Inl ''a retained row has no DML'')"

definition build_batch ::
    "dialect \<Rightarrow> string \<Rightarrow> string \<Rightarrow> string list \<Rightarrow> nat list \<Rightarrow> data_diff_operation
       \<Rightarrow> data_value list list \<Rightarrow> write_batch result" where
  "build_batch d schema table cols keys kind rows =
     (if \<not> batch_shape_ok cols keys rows then Inl ''the columns, rows or size of the batch are invalid''
      else if kind \<noteq> DiffInsert \<and> (keys = [] \<or> (\<exists>r \<in> set rows. \<exists>i \<in> set keys. is_null (r ! i)))
      then Inl ''an update or delete needs a key without NULL''
      else rbind (ok_or ''the number of parameters overflows''
          (checked_mul (parameters_per_row (length cols) (length keys) kind) (length rows))) (\<lambda>required.
        if required = 0 \<or> parameter_limit d < required then Inl ''the batch exceeds the parameter budget''
        else
          (let target = identifier_sql d schema @ ''.'' @ identifier_sql d table;
               names = map (identifier_sql d) cols
           in rbind (batch_text d target names keys kind rows) (\<lambda>(sql, b).
             Inr \<lparr>wb_sql = sql, wb_params = bound b, parameter_columns = bound_columns b,
               wb_table = table, wb_kind = kind, wb_columns = cols\<rparr>))))"


subsection \<open>Quoting\<close>

text \<open>
  A quoted identifier is read up to the first closing quote that is not doubled. \<open>unquote\<close>
  is that reader; \<open>quoting\<close> is the contract between the two, whatever the quotes are.
\<close>

fun unquote_body :: "char \<Rightarrow> string \<Rightarrow> (string \<times> string) option" where
  "unquote_body r [] = None"
| "unquote_body r (c # cs) =
     (if c = r
      then (case cs of
          c' # cs' \<Rightarrow> if c' = r then map_option (\<lambda>(a, b). (r # a, b)) (unquote_body r cs') else Some ([], cs)
        | [] \<Rightarrow> Some ([], cs))
      else map_option (\<lambda>(a, b). (c # a, b)) (unquote_body r cs))"

definition unquote :: "char \<Rightarrow> char \<Rightarrow> string \<Rightarrow> (string \<times> string) option" where
  "unquote l r s = (case s of c # cs \<Rightarrow> if c = l then unquote_body r cs else None | [] \<Rightarrow> None)"

locale quoting =
  fixes quote :: "string \<Rightarrow> string"
    and read :: "string \<Rightarrow> (string \<times> string) option"
    and closes :: "char \<Rightarrow> bool"
  assumes read_quote: "(rest = [] \<or> \<not> closes (hd rest)) \<Longrightarrow> read (quote name @ rest) = Some (name, rest)"
begin

lemma quote_unambiguous:
  assumes "quote a @ x = quote b @ y" "x = [] \<or> \<not> closes (hd x)" "y = [] \<or> \<not> closes (hd y)"
  shows "a = b \<and> x = y"
proof -
  have "Some (a, x) = read (quote a @ x)" by (rule read_quote [OF assms(2), symmetric])
  also have "\<dots> = read (quote b @ y)" by (rule arg_cong [OF assms(1)])
  also have "\<dots> = Some (b, y)" by (rule read_quote [OF assms(3)])
  finally show ?thesis by simp
qed

lemma quote_inj: "quote a = quote b \<Longrightarrow> a = b"
  using quote_unambiguous [of a "[]" b "[]"] by (simp only: append_Nil2 simp_thms)

end

lemma replace_char_simps [simp]:
  "replace_char c t [] = []"
  "replace_char c t (x # s) = (if x = c then t else [x]) @ replace_char c t s"
  by (simp_all add: replace_char_def)

lemma unquote_body_quoted:
  assumes "rest = [] \<or> hd rest \<noteq> r"
  shows "unquote_body r (replace_char r [r, r] name @ r # rest) = Some (name, rest)"
proof (induction name)
  case Nil
  with assms show ?case by (cases rest) simp_all
next
  case (Cons c name)
  then show ?case by (cases "c = r") simp_all
qed

lemma unquote_quote:
  "rest = [] \<or> hd rest \<noteq> r \<Longrightarrow> unquote l r (quote_identifier l r name @ rest) = Some (name, rest)"
  by (simp add: unquote_def quote_identifier_def unquote_body_quoted)

interpretation backtick: quoting "quote_identifier CHR 0x60 CHR 0x60" "unquote CHR 0x60 CHR 0x60" "\<lambda>c. c = CHR 0x60"
  by unfold_locales (simp add: unquote_quote)

interpretation bracket: quoting "quote_identifier CHR ''['' CHR '']''" "unquote CHR ''['' CHR '']''" "\<lambda>c. c = CHR '']''"
  by unfold_locales (simp add: unquote_quote)

interpretation double_quote: quoting "quote_identifier CHR 0x22 CHR 0x22" "unquote CHR 0x22 CHR 0x22" "\<lambda>c. c = CHR 0x22"
  by unfold_locales (simp add: unquote_quote)

definition closing_quote :: "dialect \<Rightarrow> char" where
  "closing_quote d = (if d \<in> {DMySql, DClickHouse} then CHR 0x60
     else if d = DSqlServer then CHR '']'' else CHR 0x22)"

lemma identifier_unambiguous:
  assumes "identifier_sql d a @ x = identifier_sql d b @ y"
    and "x = [] \<or> hd x \<noteq> closing_quote d" and "y = [] \<or> hd y \<noteq> closing_quote d"
  shows "a = b \<and> x = y"
proof (cases "d \<in> {DMySql, DClickHouse}")
  case True
  then show ?thesis
    using backtick.quote_unambiguous [of a x b y] assms by (simp add: identifier_sql_def closing_quote_def)
next
  case False
  then show ?thesis
    using bracket.quote_unambiguous [of a x b y] double_quote.quote_unambiguous [of a x b y] assms
    by (cases "d = DSqlServer") (simp_all add: identifier_sql_def closing_quote_def)
qed

subsection \<open>The parameters a statement binds\<close>

text \<open>
  A statement is its literal text with one placeholder after each piece but the last;
  \<open>emits d f cvs\<close> states that \<open>f\<close> binds the cells \<open>cvs\<close> in this order and that the
  \<open>i\<close>-th placeholder of its text is the one of the \<open>i\<close>-th parameter.
\<close>

definition weave :: "string \<Rightarrow> string list \<Rightarrow> string list \<Rightarrow> string" where
  "weave l ls ps = l @ concat (map2 (@) ps ls)"

definition record_bound :: "(nat \<times> data_value) list \<Rightarrow> bindings \<Rightarrow> bindings" where
  "record_bound cvs b = b\<lparr>bound := bound b @ map snd cvs, bound_columns := bound_columns b @ map fst cvs\<rparr>"

definition placeholders :: "dialect \<Rightarrow> nat \<Rightarrow> nat \<Rightarrow> string list" where
  "placeholders d n k = map (placeholder d) [Suc n..<Suc (n + k)]"

definition emits :: "dialect \<Rightarrow> (bindings \<Rightarrow> string \<times> bindings) \<Rightarrow> (nat \<times> data_value) list \<Rightarrow> bool" where
  "emits d f cvs \<longleftrightarrow> (\<exists>l ls. length ls = length cvs
     \<and> (\<forall>b. f b = (weave l ls (placeholders d (length (bound b)) (length cvs)), record_bound cvs b)))"

lemma length_placeholders [simp]: "length (placeholders d n k) = k"
  by (simp add: placeholders_def)

lemma placeholders_append: "placeholders d n (j + k) = placeholders d n j @ placeholders d (n + j) k"
  using upt_add_eq_append [of "Suc n" "Suc (n + j)" k]
  unfolding placeholders_def map_append [symmetric] by (simp only: add_Suc add.assoc le_add1 Suc_le_mono)

lemma record_bound_simps [simp]:
  "record_bound [] b = b"
  "record_bound ys (record_bound xs b) = record_bound (xs @ ys) b"
  "length (bound (record_bound xs b)) = length (bound b) + length xs"
  by (simp_all add: record_bound_def)

lemma weave_join:
  assumes "length ls = length ps"
  shows "\<exists>k ks. length ks = length ls + length ms
    \<and> (\<forall>ps qs. length ps = length ls \<longrightarrow> weave l ls ps @ s @ weave m ms qs = weave k ks (ps @ qs))"
proof (cases ls rule: rev_cases)
  case Nil
  then show ?thesis
    by (intro exI [of _ "l @ s @ m"] exI [of _ ms]) (simp add: weave_def)
next
  case (snoc us u)
  have "weave l ls ps @ s @ weave m ms qs = weave l (us @ (u @ s @ m) # ms) (ps @ qs)"
    if len: "length ps = length ls" for ps qs
  proof -
    obtain vs v where ps: "ps = vs @ [v]" "length vs = length us"
      using len snoc by (cases ps rule: rev_cases) auto
    then show ?thesis by (simp add: snoc weave_def)
  qed
  then show ?thesis
    by (intro exI [of _ l] exI [of _ "us @ (u @ s @ m) # ms"]) (simp add: snoc)
qed

lemma emits_text: "emits d (\<lambda>b. (s, b)) []"
  unfolding emits_def by (intro exI [of _ s] exI [of _ "[]"]) (simp add: weave_def placeholders_def)

lemma emits_bind: "emits d (bind_value d i v) [(i, v)]"
  unfolding emits_def
  by (intro exI [of _ "[]"] exI [of _ "[[]]"])
     (simp add: bind_value_def weave_def placeholders_def record_bound_def Let_def)

lemma emits_seq:
  assumes f: "emits d f xs" and g: "emits d g ys"
  shows "emits d (\<lambda>b. let (s, b) = f b; (t, b) = g b in (s @ m @ t, b)) (xs @ ys)"
proof -
  obtain l ls where F: "length ls = length xs"
    "\<And>b. f b = (weave l ls (placeholders d (length (bound b)) (length xs)), record_bound xs b)"
    using f unfolding emits_def by blast
  obtain k ks where G: "length ks = length ys"
    "\<And>b. g b = (weave k ks (placeholders d (length (bound b)) (length ys)), record_bound ys b)"
    using g unfolding emits_def by blast
  obtain n ns where N: "length ns = length ls + length ks"
    "\<And>ps qs. length ps = length ls \<Longrightarrow> weave l ls ps @ m @ weave k ks qs = weave n ns (ps @ qs)"
    using weave_join [of ls ls ks l m k] by blast
  have "(let (s, b) = f b; (t, b) = g b in (s @ m @ t, b)) =
      (weave n ns (placeholders d (length (bound b)) (length (xs @ ys))), record_bound (xs @ ys) b)" for b
    using N(2) [of "placeholders d (length (bound b)) (length xs)"] F(1)
    by (simp add: F(2) G(2) placeholders_append)
  with N(1) F(1) G(1) show ?thesis
    unfolding emits_def by (intro exI [of _ n] exI [of _ ns]) simp
qed

lemma emits_before: "emits d f xs \<Longrightarrow> emits d (\<lambda>b. let (s, b) = f b in (p @ s, b)) xs"
  using emits_seq [OF emits_text [of d p], of f xs "[]"] by simp

lemma emits_after: "emits d f xs \<Longrightarrow> emits d (\<lambda>b. let (s, b) = f b in (s @ p, b)) xs"
  using emits_seq [OF _ emits_text [of d p], of f xs "[]"] by simp

lemma emits_around: "emits d f xs \<Longrightarrow> emits d (\<lambda>b. let (s, b) = f b in (p @ s @ q, b)) xs"
  using emits_before [OF emits_after [where p = q], of d f xs p] by (simp add: Let_def case_prod_beta')

lemma emits_map:
  assumes "\<And>x. x \<in> set xs \<Longrightarrow> emits d (f x) (g x)"
  shows "emits d (\<lambda>b. let (ss, b) = map_bind f xs b in (join sep ss, b)) (concat (map g xs))"
  using assms
proof (induction xs rule: induct_list012)
  case 1
  then show ?case using emits_text [of d "[]"] by simp
next
  case (2 x)
  then show ?case by (simp add: Let_def case_prod_beta')
next
  case (3 x y zs)
  have "emits d (\<lambda>b. let (s, b) = f x b; (t, b) = (let (ss, b) = map_bind f (y # zs) b in (join sep ss, b))
      in (s @ sep @ t, b)) (g x @ concat (map g (y # zs)))"
    using 3 by (intro emits_seq) simp_all
  then show ?case by (simp add: Let_def case_prod_beta')
qed

subsection \<open>What each statement binds\<close>

definition key_cells :: "nat list \<Rightarrow> data_value list \<Rightarrow> (nat \<times> data_value) list" where
  "key_cells keys r = map (\<lambda>i. (i, r ! i)) keys"

definition batch_cells :: "nat \<Rightarrow> nat list \<Rightarrow> data_diff_operation \<Rightarrow> data_value list list \<Rightarrow> (nat \<times> data_value) list" where
  "batch_cells n keys kind rows = (case kind of
     DiffInsert \<Rightarrow> concat (map (enumerate 0) rows)
   | DiffDelete \<Rightarrow> concat (map (key_cells keys) rows)
   | DiffUpdate \<Rightarrow>
       concat (map (\<lambda>i. concat (map (\<lambda>r. key_cells keys r @ [(i, r ! i)]) rows))
         (filter (\<lambda>i. i \<notin> set keys) [0..<n]))
       @ concat (map (key_cells keys) rows)
   | DiffRetain \<Rightarrow> [])"

lemma emits_predicate: "emits d (predicate d names keys r) (key_cells keys r)"
proof -
  have "emits d (\<lambda>b. let (p, b) = bind_value d i (r ! i) b in (names ! i @ '' = '' @ p, b)) [(i, r ! i)]" for i
    using emits_before [where p = "names ! i @ '' = ''", OF emits_bind] by simp
  from emits_map [where f = "\<lambda>i b. let (p, b) = bind_value d i (r ! i) b in (names ! i @ '' = '' @ p, b)"
      and xs = keys and sep = "'' AND ''", OF this]
  show ?thesis by (simp add: predicate_def [abs_def] key_cells_def)
qed

lemma emits_parenthesized: "emits d (f r) cvs \<Longrightarrow> emits d (parenthesized f r) cvs"
  unfolding parenthesized_def [abs_def] by (rule emits_around)

lemma emits_insert_tuple: "emits d (insert_tuple d r) (enumerate 0 r)"
proof -
  have "emits d ((\<lambda>(index, v). bind_value d index v) c) [c]" for c
    using emits_bind by (cases c) simp
  from emits_map [where f = "\<lambda>(index, v). bind_value d index v" and xs = "enumerate 0 r" and sep = "'',''", OF this]
  show ?thesis by (simp add: insert_tuple_def [abs_def])
qed

lemma emits_insert: "emits d (insert_sql d target names rows) (concat (map (enumerate 0) rows))"
proof -
  have "emits d (\<lambda>b. let (ss, b) = map_bind (parenthesized (insert_tuple d)) rows b in (join '','' ss, b))
      (concat (map (enumerate 0) rows))"
    by (intro emits_map emits_parenthesized emits_insert_tuple)
  from emits_before [where p = "''INSERT INTO '' @ target @ '' ('' @ join '','' names @ '') VALUES ''", OF this]
  show ?thesis
    by (simp add: insert_sql_def [abs_def] Let_def case_prod_beta')
qed

lemma emits_where: "emits d (where_rows d names keys rows) (concat (map (key_cells keys) rows))"
  unfolding where_rows_def [abs_def] by (intro emits_map emits_parenthesized emits_predicate)

lemma emits_delete: "emits d (delete_sql d target names keys rows) (concat (map (key_cells keys) rows))"
  using emits_before [where p = "''DELETE FROM '' @ target @ '' WHERE ''", OF emits_where]
  by (simp add: delete_sql_def [abs_def])

lemma emits_update_case: "emits d (update_case d names keys i r) (key_cells keys r @ [(i, r ! i)])"
  using emits_before [where p = "''WHEN ''", OF emits_seq [where m = "'' THEN ''", OF emits_predicate emits_bind]]
  by (simp add: update_case_def [abs_def] Let_def case_prod_beta')

lemma emits_assignment:
  "emits d (assignment d names keys rows i) (concat (map (\<lambda>r. key_cells keys r @ [(i, r ! i)]) rows))"
proof -
  have "emits d (\<lambda>b. let (ss, b) = map_bind (update_case d names keys i) rows b in (join '' '' ss, b))
      (concat (map (\<lambda>r. key_cells keys r @ [(i, r ! i)]) rows))"
    by (intro emits_map emits_update_case)
  from emits_around [where p = "names ! i @ '' = CASE ''" and q = "'' ELSE '' @ names ! i @ '' END''", OF this]
  show ?thesis by (simp add: assignment_def [abs_def] Let_def case_prod_beta')
qed

lemma emits_update:
  "emits d (update_sql d target names keys rows)
     (concat (map (\<lambda>i. concat (map (\<lambda>r. key_cells keys r @ [(i, r ! i)]) rows))
        (filter (\<lambda>i. i \<notin> set keys) [0..<length names])) @ concat (map (key_cells keys) rows))"
proof -
  have "emits d (\<lambda>b. let (ss, b) = map_bind (assignment d names keys rows)
        (filter (\<lambda>i. i \<notin> set keys) [0..<length names]) b in (join '','' ss, b))
      (concat (map (\<lambda>i. concat (map (\<lambda>r. key_cells keys r @ [(i, r ! i)]) rows))
        (filter (\<lambda>i. i \<notin> set keys) [0..<length names])))"
    by (intro emits_map emits_assignment)
  from emits_before [where p = "''UPDATE '' @ target @ '' SET ''",
      OF emits_seq [where m = "'' WHERE ''", OF this emits_where [where rows = rows and names = names and keys = keys]]]
  show ?thesis by (simp add: update_sql_def [abs_def] Let_def case_prod_beta')
qed

lemma length_concat_const: "(\<And>x. x \<in> set xs \<Longrightarrow> length (f x) = n) \<Longrightarrow> length (concat (map f xs)) = n * length xs"
  by (induction xs) auto

lemma length_non_keys:
  assumes "distinct keys" "\<forall>i \<in> set keys. i < n"
  shows "length (filter (\<lambda>i. i \<notin> set keys) [0..<n]) = n - length keys"
proof -
  have "length (filter (\<lambda>i. i \<notin> set keys) [0..<n]) = card (set (filter (\<lambda>i. i \<notin> set keys) [0..<n]))"
    by (rule distinct_card [symmetric]) simp
  also have "set (filter (\<lambda>i. i \<notin> set keys) [0..<n]) = {0..<n} - set keys" by auto
  also have "card ({0..<n} - set keys) = n - length keys"
    using assms by (subst card_Diff_subset) (auto simp: distinct_card)
  finally show ?thesis .
qed

lemma length_batch_cells:
  assumes "batch_shape_ok cols keys rows"
  shows "length (batch_cells (length cols) keys kind rows) =
    parameters_per_row (length cols) (length keys) kind * length rows"
proof (cases kind)
  case DiffInsert
  with assms show ?thesis
    using length_concat_const [of rows "enumerate 0" "length cols"]
    by (simp add: batch_cells_def parameters_per_row_def batch_shape_ok_def)
next
  case DiffDelete
  then show ?thesis
    using length_concat_const [of rows "key_cells keys" "length keys"]
    by (simp add: batch_cells_def parameters_per_row_def key_cells_def)
next
  case DiffUpdate
  define nk where "nk = filter (\<lambda>i. i \<notin> set keys) [0..<length cols]"
  have "length (concat (map (\<lambda>i. concat (map (\<lambda>r. key_cells keys r @ [(i, r ! i)]) rows)) nk))
      = ((length keys + 1) * length rows) * length nk"
    by (intro length_concat_const) (simp add: key_cells_def)
  moreover have "length nk = length cols - length keys"
    unfolding nk_def using assms by (intro length_non_keys) (simp_all add: batch_shape_ok_def)
  moreover have "length (concat (map (key_cells keys) rows)) = length keys * length rows"
    by (intro length_concat_const) (simp add: key_cells_def)
  ultimately show ?thesis
    using DiffUpdate
    by (simp add: batch_cells_def parameters_per_row_def nk_def add_mult_distrib add_mult_distrib2 mult.assoc mult.commute mult.left_commute)
qed (simp add: batch_cells_def parameters_per_row_def)

definition batch_writer ::
    "dialect \<Rightarrow> string \<Rightarrow> string list \<Rightarrow> nat list \<Rightarrow> data_diff_operation \<Rightarrow> data_value list list
       \<Rightarrow> bindings \<Rightarrow> string \<times> bindings" where
  "batch_writer d target names keys kind rows = (case kind of
     DiffInsert \<Rightarrow> insert_sql d target names rows
   | DiffDelete \<Rightarrow> delete_sql d target names keys rows
   | _ \<Rightarrow> update_sql d target names keys rows)"

lemma emits_batch:
  "kind \<noteq> DiffRetain \<Longrightarrow> emits d (batch_writer d target names keys kind rows) (batch_cells (length names) keys kind rows)"
  by (cases kind) (simp_all add: batch_writer_def batch_cells_def emits_insert emits_delete emits_update)

lemma build_batch_Inr:
  assumes "build_batch d schema table cols keys kind rows = Inr b"
  shows "batch_shape_ok cols keys rows" and "kind \<noteq> DiffRetain"
    and "kind \<noteq> DiffInsert \<Longrightarrow> keys \<noteq> [] \<and> (\<forall>r \<in> set rows. \<forall>i \<in> set keys. \<not> is_null (r ! i))"
    and "parameters_per_row (length cols) (length keys) kind * length rows \<le> parameter_limit d"
    and "(wb_sql b, \<lparr>bound = wb_params b, bound_columns = parameter_columns b\<rparr>) =
      batch_writer d (identifier_sql d schema @ ''.'' @ identifier_sql d table) (map (identifier_sql d) cols) keys kind rows
        \<lparr>bound = [], bound_columns = []\<rparr>"
    and "wb_table b = table \<and> wb_kind b = kind \<and> wb_columns b = cols"
  using assms
  by (auto simp: build_batch_def Let_def batch_text_def batch_writer_def parameters_per_row_def
      split: if_split_asm data_diff_operation.split_asm)

lemma build_batch_cells:
  assumes "build_batch d schema table cols keys kind rows = Inr b"
  obtains l ls where "zip (parameter_columns b) (wb_params b) = batch_cells (length cols) keys kind rows"
    and "length (parameter_columns b) = length (wb_params b)"
    and "length ls = length (wb_params b)"
    and "wb_sql b = weave l ls (map (placeholder d) [1..<Suc (length (wb_params b))])"
proof -
  note facts = build_batch_Inr [OF assms]
  let ?cells = "batch_cells (length cols) keys kind rows"
  let ?f = "batch_writer d (identifier_sql d schema @ ''.'' @ identifier_sql d table) (map (identifier_sql d) cols) keys kind rows"
  have "emits d ?f ?cells" using emits_batch [OF facts(2), of d _ "map (identifier_sql d) cols"] by simp
  then obtain l ls where ls: "length ls = length ?cells"
    and f: "\<And>b. ?f b = (weave l ls (placeholders d (length (bound b)) (length ?cells)), record_bound ?cells b)"
    unfolding emits_def by blast
  have b: "wb_sql b = weave l ls (placeholders d 0 (length ?cells))"
    "wb_params b = map snd ?cells" "parameter_columns b = map fst ?cells"
    using facts(5) unfolding f by (simp_all add: record_bound_def)
  show thesis
    by (rule that [of ls l]) (simp_all add: b ls zip_map_fst_snd placeholders_def)
qed

subsection \<open>The text does not depend on the values\<close>

definition parallel :: "(bindings \<Rightarrow> 'a \<times> bindings) \<Rightarrow> (bindings \<Rightarrow> 'a \<times> bindings) \<Rightarrow> bool" where
  "parallel f g \<longleftrightarrow> (\<forall>b c. length (bound b) = length (bound c) \<longrightarrow>
     fst (f b) = fst (g c) \<and> length (bound (snd (f b))) = length (bound (snd (g c))))"

lemma parallelI:
  assumes "\<And>(b :: bindings) (c :: bindings) s t b' c'. length (bound b) = length (bound c) \<Longrightarrow> f b = (s, b') \<Longrightarrow> g c = (t, c') \<Longrightarrow>
    s = t \<and> length (bound b') = length (bound c')"
  shows "parallel f g"
  unfolding parallel_def by (intro allI impI assms) simp_all

lemma parallelD:
  "parallel f g \<Longrightarrow> length (bound b) = length (bound c) \<Longrightarrow> f b = (s, b') \<Longrightarrow> g c = (t, c') \<Longrightarrow>
    s = t \<and> length (bound b') = length (bound c')"
  unfolding parallel_def by (drule spec [of _ b], drule spec [of _ c]) simp

lemma parallel_bind: "parallel (bind_value d i v) (bind_value d j w)"
  by (rule parallelI) (auto simp: bind_value_def Let_def)

lemma parallel_then:
  assumes "parallel f g"
  shows "parallel (\<lambda>b. let (s, b) = f b in (h s, b)) (\<lambda>b. let (s, b) = g b in (h s, b))"
  by (rule parallelI) (auto split: prod.splits dest: parallelD [OF assms])

lemma parallel_seq:
  assumes "parallel f g" "parallel f' g'"
  shows "parallel (\<lambda>b. let (s, b) = f b; (t, b) = f' b in (h s t, b)) (\<lambda>b. let (s, b) = g b; (t, b) = g' b in (h s t, b))"
proof (rule parallelI)
  fix b c :: bindings and s t b' c'
  assume len: "length (bound b) = length (bound c)"
    and runs: "(let (s, b) = f b; (t, b) = f' b in (h s t, b)) = (s, b')"
      "(let (s, b) = g c; (t, b) = g' b in (h s t, b)) = (t, c')"
  obtain p b1 q b2 where f: "f b = (p, b1)" "f' b1 = (q, b2)" "s = h p q" "b' = b2"
    using runs(1) by (auto split: prod.splits)
  obtain p' c1 q' c2 where g: "g c = (p', c1)" "g' c1 = (q', c2)" "t = h p' q'" "c' = c2"
    using runs(2) by (auto split: prod.splits)
  have "p = p' \<and> length (bound b1) = length (bound c1)" by (rule parallelD [OF assms(1) len f(1) g(1)])
  then show "s = t \<and> length (bound b') = length (bound c')"
    using parallelD [OF assms(2) _ f(2) g(2)] f g by simp
qed

lemma map_bind_Cons: "map_bind f (x # xs) = (\<lambda>b. let (s, b) = f x b; (ss, b) = map_bind f xs b in (s # ss, b))"
  by (simp add: fun_eq_iff)

lemma parallel_map_all:
  assumes "list_all2 (\<lambda>x y. parallel (f x) (g y)) xs ys"
  shows "parallel (map_bind f xs) (map_bind g ys)"
  using assms
proof (induction xs ys rule: list_all2_induct)
  case Nil
  show ?case by (rule parallelI) simp
next
  case (Cons x xs y ys)
  then show ?case unfolding map_bind_Cons by (intro parallel_seq)
qed

lemma parallel_map:
  "length xs = length ys \<Longrightarrow> (\<And>x y. parallel (f x) (g y)) \<Longrightarrow> parallel (map_bind f xs) (map_bind g ys)"
  by (rule parallel_map_all) (simp add: list_all2_conv_all_nth)

lemma parallel_map_same:
  "(\<And>x. parallel (f x) (g x)) \<Longrightarrow> parallel (map_bind f xs) (map_bind g xs)"
  by (rule parallel_map_all) (simp add: list_all2_conv_all_nth)

lemma parallel_predicate: "parallel (predicate d names keys r) (predicate d names keys r')"
  unfolding predicate_def [abs_def]
  by (intro parallel_then parallel_map_same parallel_bind)

lemma parallel_parenthesized: "parallel (f r) (f r') \<Longrightarrow> parallel (parenthesized f r) (parenthesized f r')"
  unfolding parenthesized_def [abs_def] by (rule parallel_then)

lemma parallel_tuple: "length r = length r' \<Longrightarrow> parallel (insert_tuple d r) (insert_tuple d r')"
  unfolding insert_tuple_def [abs_def]
  by (intro parallel_then parallel_map) (auto simp: parallel_bind)

lemma parallel_insert:
  assumes "length rows = length rows'" "\<forall>r \<in> set rows \<union> set rows'. length r = n"
  shows "parallel (insert_sql d target names rows) (insert_sql d target names rows')"
proof -
  have "list_all2 (\<lambda>x y. parallel (parenthesized (insert_tuple d) x) (parenthesized (insert_tuple d) y)) rows rows'"
    using assms by (auto simp: list_all2_conv_all_nth intro!: parallel_parenthesized parallel_tuple)
  then show ?thesis
    unfolding insert_sql_def [abs_def] by (intro parallel_then parallel_map_all)
qed

lemma parallel_where:
  "length rows = length rows' \<Longrightarrow> parallel (where_rows d names keys rows) (where_rows d names keys rows')"
  unfolding where_rows_def [abs_def]
  by (intro parallel_then parallel_map parallel_parenthesized parallel_predicate)

lemma parallel_update:
  assumes "length rows = length rows'"
  shows "parallel (update_sql d target names keys rows) (update_sql d target names keys rows')"
proof -
  have "parallel (update_case d names keys i r) (update_case d names keys i r')" for i r r'
    unfolding update_case_def [abs_def] by (intro parallel_seq parallel_predicate parallel_bind)
  then have "parallel (assignment d names keys rows i) (assignment d names keys rows' i)" for i
    unfolding assignment_def [abs_def] using assms by (intro parallel_then parallel_map)
  then show ?thesis
    unfolding update_sql_def [abs_def] using assms by (intro parallel_seq parallel_map_same parallel_where)
qed

lemma parallel_delete:
  "length rows = length rows' \<Longrightarrow> parallel (delete_sql d target names keys rows) (delete_sql d target names keys rows')"
  unfolding delete_sql_def [abs_def] by (intro parallel_then parallel_where)

lemma build_batch_text:
  assumes "build_batch d schema table cols keys kind rows = Inr b"
    and "build_batch d schema table cols keys kind rows' = Inr b'" and "length rows = length rows'"
  shows "wb_sql b = wb_sql b'"
proof -
  note f = build_batch_Inr [OF assms(1)] and g = build_batch_Inr [OF assms(2)]
  have "\<forall>r \<in> set rows \<union> set rows'. length r = length cols"
    using f(1) g(1) by (auto simp: batch_shape_ok_def)
  then have "parallel (batch_writer d target names keys kind rows) (batch_writer d target names keys kind rows')"
    for target names
    using assms(3) f(2) by (cases kind) (auto simp: batch_writer_def intro: parallel_insert parallel_delete parallel_update)
  from parallelD [OF this _ f(5) [symmetric] g(5) [symmetric]] show ?thesis by simp
qed

subsection \<open>Properties\<close>

text \<open>
  C11. Identifiers cannot break out of their quotes: in every dialect a quoted identifier, followed
  by anything that does not start with the closing quote, can be read in one way only, so two
  different names never yield the same text.
\<close>

theorem identifier_sql_unambiguous:
  assumes "identifier_sql d a @ x = identifier_sql d b @ y"
    and "x = [] \<or> hd x \<noteq> closing_quote d" and "y = [] \<or> hd y \<noteq> closing_quote d"
  shows "a = b \<and> x = y"
  using assms by (rule identifier_unambiguous)

theorem identifier_sql_unambiguous_witness:
  "identifier_sql DSqlServer ''a]b'' = ''[a]]b]'' \<and> ''a]b'' = ''a]b'' \<and> '' x'' = '' x''"
proof
  show "identifier_sql DSqlServer ''a]b'' = ''[a]]b]''" by code_simp
  show "''a]b'' = ''a]b'' \<and> '' x'' = '' x''"
    by (rule identifier_sql_unambiguous [of DSqlServer]) (simp_all add: closing_quote_def)
qed

text \<open>
  C12. A batch binds exactly the parameters its statement refers to: as many as the budget
  accounts for and no more than the dialect allows, each the value of the column it is tagged
  with, and the \<open>i\<close>-th placeholder in the text is the one of the \<open>i\<close>-th parameter.
\<close>

theorem build_batch_parameters:
  assumes "build_batch d schema table cols keys kind rows = Inr b"
  shows "length (wb_params b) = parameters_per_row (length cols) (length keys) kind * length rows
    \<and> length (parameter_columns b) = length (wb_params b)
    \<and> length (wb_params b) \<le> parameter_limit d
    \<and> zip (parameter_columns b) (wb_params b) = batch_cells (length cols) keys kind rows
    \<and> (\<exists>l ls. length ls = length (wb_params b)
         \<and> wb_sql b = weave l ls (map (placeholder d) [1..<Suc (length (wb_params b))]))"
proof -
  obtain l ls where cells: "zip (parameter_columns b) (wb_params b) = batch_cells (length cols) keys kind rows"
    and len: "length (parameter_columns b) = length (wb_params b)"
    and sql: "length ls = length (wb_params b)"
      "wb_sql b = weave l ls (map (placeholder d) [1..<Suc (length (wb_params b))])"
    using assms by (rule build_batch_cells)
  have "length (wb_params b) = parameters_per_row (length cols) (length keys) kind * length rows"
    using arg_cong [OF cells, of length] len length_batch_cells [OF build_batch_Inr(1) [OF assms], of kind]
    by simp
  then show ?thesis
    using cells len sql build_batch_Inr(4) [OF assms] by auto
qed

theorem build_batch_parameters_witness:
  "\<exists>b. build_batch DPostgres ''public'' ''t'' [''id'', ''v''] [0] DiffUpdate [[Int64 1, Text ''x'']] = Inr b
     \<and> wb_sql b = ''UPDATE \"public\".\"t\" SET \"v\" = CASE WHEN \"id\" = $1 THEN $2 ELSE \"v\" END WHERE (\"id\" = $3)''
     \<and> wb_params b = [Int64 1, Text ''x'', Int64 1] \<and> length (wb_params b) \<le> parameter_limit DPostgres"
proof -
  have "is_ok (build_batch DPostgres ''public'' ''t'' [''id'', ''v''] [0] DiffUpdate [[Int64 1, Text ''x'']])"
    by code_simp
  then obtain b where b: "build_batch DPostgres ''public'' ''t'' [''id'', ''v''] [0] DiffUpdate [[Int64 1, Text ''x'']] = Inr b"
    by (auto simp: is_ok_iff)
  have "(case build_batch DPostgres ''public'' ''t'' [''id'', ''v''] [0] DiffUpdate [[Int64 1, Text ''x'']] of
      Inl _ \<Rightarrow> False | Inr b \<Rightarrow> wb_sql b = ''UPDATE \"public\".\"t\" SET \"v\" = CASE WHEN \"id\" = $1 THEN $2 ELSE \"v\" END WHERE (\"id\" = $3)''
        \<and> wb_params b = [Int64 1, Text ''x'', Int64 1])"
    by code_simp
  then show ?thesis using build_batch_parameters [OF b] by (simp add: b)
qed

text \<open>
  C13. No value of a row enters the text of a statement: batches of the same shape have the same
  text whatever their rows hold, so a value can neither end a literal nor add a statement.
\<close>

theorem build_batch_text_independent:
  assumes "build_batch d schema table cols keys kind rows = Inr b"
    and "build_batch d schema table cols keys kind rows' = Inr b'" and "length rows = length rows'"
  shows "wb_sql b = wb_sql b'"
  using assms by (rule build_batch_text)

theorem build_batch_text_independent_witness:
  "\<exists>b b'. build_batch DMySql ''s'' ''t'' [''c''] [] DiffInsert [[Text ''x'']] = Inr b
     \<and> build_batch DMySql ''s'' ''t'' [''c''] [] DiffInsert [[Text ''); DROP TABLE t; --'']] = Inr b'
     \<and> wb_sql b = wb_sql b'"
proof -
  have "is_ok (build_batch DMySql ''s'' ''t'' [''c''] [] DiffInsert [[Text ''x'']])"
    "is_ok (build_batch DMySql ''s'' ''t'' [''c''] [] DiffInsert [[Text ''); DROP TABLE t; --'']])"
    by code_simp+
  then obtain b b' where b: "build_batch DMySql ''s'' ''t'' [''c''] [] DiffInsert [[Text ''x'']] = Inr b"
    "build_batch DMySql ''s'' ''t'' [''c''] [] DiffInsert [[Text ''); DROP TABLE t; --'']] = Inr b'"
    by (auto simp: is_ok_iff)
  then show ?thesis using build_batch_text_independent [OF b] by simp
qed

end
