(* ===== verification/Registry.thy ===== *)
theory Registry
  imports Data_Models
begin

text \<open>
  The registry of data tasks (\<open>src-tauri/src/db/data\_tasks/registry.rs\<close>): previews are
  registered, become ready, expire, are executed at most once and by one writer at a time,
  report progress, are cancelled and finish.

  Every operation of the code takes the lock of the registry for its whole body, so it is one
  function from registry to registry here. The time is the argument \<open>now\<close>, read once per
  operation. A \<open>HashMap\<close> is an association list; nothing proved depends on its order.
\<close>

subsection \<open>Records\<close>

definition text_number :: "string \<Rightarrow> nat" where
  "text_number s = unwrap_or 0 (parse_uint U64_MAX s)"

lemma text_number_nat [simp]: "n \<le> U64_MAX \<Longrightarrow> text_number (nat_to_string n) = n"
  by (simp add: text_number_def)

record task_record =
  snap :: data_task_snapshot
  cancel_flag :: bool
  execution :: "execute_input option"
  plan_id :: "string option"
  pending_cleanup_errors :: "string list"

record registry =
  records :: "(string \<times> task_record) list"
  cancelled_before_register :: "string list"
  writer :: "string option"

definition empty_registry :: registry where
  "empty_registry = \<lparr>records = [], cancelled_before_register = [], writer = None\<rparr>"

definition get_record :: "string \<Rightarrow> registry \<Rightarrow> task_record option" where
  "get_record tid reg = map_of (records reg) tid"

definition update_record :: "string \<Rightarrow> (task_record \<Rightarrow> task_record) \<Rightarrow> registry \<Rightarrow> registry" where
  "update_record tid f reg =
     reg\<lparr>records := map (\<lambda>(i, r). if i = tid then (i, f r) else (i, r)) (records reg)\<rparr>"

definition status :: "task_record \<Rightarrow> data_task_status" where
  "status r = sn_status (snap r)"

type_synonym 'a task_result = "data_task_error + 'a"

definition missing :: data_task_error where
  "missing = task_error ''task_not_found'' ''no such data task''"

text \<open>The sequence number is a \<open>u64\<close> and wraps.\<close>

definition touch :: "nat \<Rightarrow> data_task_snapshot \<Rightarrow> data_task_snapshot" where
  "touch now s = s\<lparr>sn_sequence := nat_to_string ((text_number (sn_sequence s) + 1) mod 2 ^ 64),
     sn_updated_at := nat_to_string now,
     sn_elapsed_ms := nat_to_string (now - text_number (sn_created_at s))\<rparr>"

definition touch_record :: "nat \<Rightarrow> task_record \<Rightarrow> task_record" where
  "touch_record now r = r\<lparr>snap := touch now (snap r)\<rparr>"

definition cancel_result :: data_task_result where
  "cancel_result = \<lparr>res_status = Cancelled, res_commit_state = CommitNone, res_tables = [],
     res_error = Some (task_error ''cancelled'' ''the task was cancelled''),
     cleanup_errors = [], requires_target_refresh = False\<rparr>"

definition phase :: "data_task_status \<Rightarrow> nat" where
  "phase s = (case s of Created \<Rightarrow> 0 | Validating \<Rightarrow> 1 | Reading \<Rightarrow> 2 | Comparing \<Rightarrow> 3 | Ready \<Rightarrow> 4
     | Executing \<Rightarrow> 5 | Verifying \<Rightarrow> 6 | Committing \<Rightarrow> 7 | _ \<Rightarrow> 8)"

subsection \<open>Expiry and trimming\<close>

definition is_expired :: "nat \<Rightarrow> task_record \<Rightarrow> bool" where
  "is_expired now r \<longleftrightarrow> status r = Ready
     \<and> (case sn_preview (snap r) of None \<Rightarrow> False | Some p \<Rightarrow> text_number (pv_expires_at p) \<le> now)"

definition expire_record :: "nat \<Rightarrow> task_record \<Rightarrow> task_record" where
  "expire_record now r =
     (if is_expired now r
      then touch_record now (r\<lparr>snap := (snap r)\<lparr>sn_status := Expired, sn_preview := None,
          sn_result := Some \<lparr>res_status = Expired, res_commit_state = CommitNone, res_tables = [],
            res_error = Some (task_error ''plan_expired'' ''the preview has expired''),
            cleanup_errors = pending_cleanup_errors r, requires_target_refresh = False\<rparr>\<rparr>,
        pending_cleanup_errors := [], cancel_flag := True\<rparr>)
      else r)"

definition expire :: "nat \<Rightarrow> registry \<Rightarrow> registry" where
  "expire now reg = reg\<lparr>records := map (\<lambda>(i, r). (i, expire_record now r)) (records reg)\<rparr>"

definition trim_registry :: "registry \<Rightarrow> registry" where
  "trim_registry reg =
     (let terminal = sort_key snd (map (\<lambda>(i, r). (i, text_number (sn_updated_at (snap r))))
            (filter (\<lambda>(i, r). is_terminal (status r)) (records reg)));
          old = map fst (take (length terminal - 100) terminal)
      in reg\<lparr>records := filter (\<lambda>(i, r). i \<notin> set old) (records reg)\<rparr>)"

subsection \<open>Operations\<close>

definition is_preview :: "task_record \<Rightarrow> bool" where
  "is_preview r \<longleftrightarrow> \<not> is_terminal (status r) \<and> sn_execution_id (snap r) = None"

definition new_snapshot :: "nat \<Rightarrow> string \<Rightarrow> data_task_request \<Rightarrow> bool \<Rightarrow> data_task_snapshot" where
  "new_snapshot now task_id request cancelled =
     \<lparr>sn_task_id = task_id, sn_execution_id = None, sn_sequence = ''1'',
      sn_status = (if cancelled then Cancelled else Created), sn_request = request,
      sn_created_at = nat_to_string now, sn_updated_at = nat_to_string now, sn_read_rows = ''0'',
      sn_written_rows = ''0'', sn_verified_rows = ''0'', sn_bytes = ''0'', sn_elapsed_ms = ''0'',
      sn_preview = None, sn_result = (if cancelled then Some cancel_result else None)\<rparr>"

definition register_preview ::
    "nat \<Rightarrow> string \<Rightarrow> data_task_request \<Rightarrow> registry \<Rightarrow> (data_task_snapshot \<times> bool \<times> bool) task_result \<times> registry" where
  "register_preview now task_id request reg =
     (case validate request of Inl e \<Rightarrow> (Inl e, reg) | Inr _ \<Rightarrow>
      if trim task_id = [] \<or> 128 < length task_id
      then (Inl (task_error ''invalid_task_id'' ''the task id is invalid''), reg)
      else (let reg = expire now reg in
        case get_record task_id reg of
          Some r \<Rightarrow>
            if sn_request (snap r) \<noteq> request
            then (Inl (task_error ''task_conflict'' ''the task id belongs to another request''), reg)
            else (Inr (snap r, False, cancel_flag r), reg)
        | None \<Rightarrow>
            if 3 \<le> length (filter (\<lambda>(i, r). is_preview r) (records reg))
            then (Inl (task_error ''resource_limit'' ''at most three previews are kept''), reg)
            else (let cancelled = (task_id \<in> set (cancelled_before_register reg));
                      s = new_snapshot now task_id request cancelled;
                      r = \<lparr>snap = s, cancel_flag = cancelled, execution = None, plan_id = None,
                           pending_cleanup_errors = []\<rparr>
                  in (Inr (s, \<not> cancelled, cancelled),
                      trim_registry (reg\<lparr>
                        cancelled_before_register := removeAll task_id (cancelled_before_register reg),
                        records := records reg @ [(task_id, r)]\<rparr>)))))"

definition ready_record :: "nat \<Rightarrow> data_task_preview \<Rightarrow> task_record \<Rightarrow> task_record" where
  "ready_record now preview r =
     touch_record now (r\<lparr>snap := (snap r)\<lparr>sn_status := Ready, sn_preview := Some preview\<rparr>,
       plan_id := Some (pv_plan_id preview)\<rparr>)"

definition set_ready ::
    "nat \<Rightarrow> string \<Rightarrow> data_task_preview \<Rightarrow> registry \<Rightarrow> data_task_snapshot task_result \<times> registry" where
  "set_ready now task_id preview reg =
     (case get_record task_id reg of
        None \<Rightarrow> (Inl missing, reg)
      | Some r \<Rightarrow>
          if cancel_flag r \<or> is_terminal (status r)
          then (Inl (task_error ''cancelled'' ''the preview was cancelled''), reg)
          else if pv_task_id preview \<noteq> task_id \<or> sn_execution_id (snap r) \<noteq> None
          then (Inl (task_error ''plan_stale'' ''the preview does not belong to the task''), reg)
          else (let r' = ready_record now preview r
                in (Inr (snap r'), update_record task_id (\<lambda>_. r') reg)))"

definition find_execution :: "string \<Rightarrow> registry \<Rightarrow> task_record option" where
  "find_execution execution_id reg = map_option snd (List.find (\<lambda>(i, r). case execution r of
     None \<Rightarrow> False | Some e \<Rightarrow> ex_execution_id e = execution_id) (records reg))"

definition find_plan :: "string \<Rightarrow> registry \<Rightarrow> string option" where
  "find_plan plan reg = map_option fst (List.find (\<lambda>(i, r). plan_id r = Some plan
     \<or> (case execution r of None \<Rightarrow> False | Some e \<Rightarrow> ex_plan_id e = plan)) (records reg))"

definition executable :: "execute_input \<Rightarrow> task_record \<Rightarrow> unit task_result" where
  "executable input r =
     (if status r = Expired then Inl (task_error ''plan_expired'' ''the preview has expired'')
      else if execution r \<noteq> None
      then Inl (task_error ''plan_stale'' ''the preview was started before'')
      else (case sn_preview (snap r) of
          None \<Rightarrow> Inl (task_error ''plan_stale'' ''the preview is gone'')
        | Some p \<Rightarrow>
            if status r \<noteq> Ready \<or> pv_fingerprint p \<noteq> ex_fingerprint input \<or> \<not> pv_can_execute p
            then Inl (task_error ''plan_stale'' ''the preview cannot be executed or does not match'')
            else if \<exists>k \<in> set (pv_risks p). required k \<and> risk_id k \<notin> set (accepted_risk_ids input)
            then Inl (task_error ''risk_confirmation_required'' ''confirm all destructive risks'')
            else Inr ()))"

definition start_record :: "nat \<Rightarrow> execute_input \<Rightarrow> task_record \<Rightarrow> task_record" where
  "start_record now input r = touch_record now (r\<lparr>execution := Some input,
     snap := (snap r)\<lparr>sn_execution_id := Some (ex_execution_id input), sn_status := Executing\<rparr>\<rparr>)"

text \<open>\<open>is_uuid\<close> stands for the parser of the \<open>uuid\<close> package.\<close>

definition begin_execution ::
    "(string \<Rightarrow> bool) \<Rightarrow> nat \<Rightarrow> execute_input \<Rightarrow> registry
       \<Rightarrow> (data_task_snapshot \<times> bool \<times> bool) task_result \<times> registry" where
  "begin_execution is_uuid now input reg =
     (if \<not> is_uuid (ex_execution_id input)
      then (Inl (task_error ''invalid_execution_id'' ''the execution id must be a UUID''), reg)
      else (let reg = expire now reg in
        case find_execution (ex_execution_id input) reg of
          Some r \<Rightarrow>
            if execution r \<noteq> Some input
            then (Inl (task_error ''plan_stale'' ''the execution id belongs to another request''), reg)
            else (Inr (snap r, False, cancel_flag r), reg)
        | None \<Rightarrow> (case find_plan (ex_plan_id input) reg of
            None \<Rightarrow>
              if \<exists>(i, r) \<in> set (records reg). status r = Expired
              then (Inl (task_error ''plan_expired'' ''the preview has expired''), reg)
              else (Inl (task_error ''plan_stale'' ''no such preview''), reg)
          | Some task_id \<Rightarrow> (case get_record task_id reg of
              None \<Rightarrow> (Inl missing, reg)
            | Some r \<Rightarrow> (case executable input r of
                Inl e \<Rightarrow> (Inl e, reg)
              | Inr _ \<Rightarrow>
                  if writer reg \<noteq> None
                  then (Inl (task_error ''task_busy'' ''another task is writing''), reg)
                  else (let r' = start_record now input r
                        in (Inr (snap r', True, cancel_flag r'),
                            update_record task_id (\<lambda>_. r') (reg\<lparr>writer := Some task_id\<rparr>))))))))"

definition cancel_record :: "nat \<Rightarrow> task_record \<Rightarrow> task_record" where
  "cancel_record now r =
     (if status r = Ready \<or> status r = Created
      then touch_record now (r\<lparr>cancel_flag := True, pending_cleanup_errors := [],
        snap := (snap r)\<lparr>sn_status := Cancelled, sn_preview := None,
          sn_result := Some (cancel_result\<lparr>cleanup_errors := pending_cleanup_errors r\<rparr>)\<rparr>\<rparr>)
      else touch_record now (r\<lparr>cancel_flag := True, snap := (snap r)\<lparr>sn_status := Cancelling\<rparr>\<rparr>))"

definition cancel :: "nat \<Rightarrow> string \<Rightarrow> registry \<Rightarrow> data_task_snapshot task_result \<times> registry" where
  "cancel now task_id reg =
     (case get_record task_id reg of
        None \<Rightarrow> (Inl missing,
          if task_id \<noteq> [] \<and> length task_id \<le> 128 \<and> length (cancelled_before_register reg) < 1000
          then reg\<lparr>cancelled_before_register := List.insert task_id (cancelled_before_register reg)\<rparr>
          else reg)
      | Some r \<Rightarrow>
          if is_terminal (status r) \<or> status r = Committing then (Inr (snap r), reg)
          else (let r' = cancel_record now r in (Inr (snap r'), update_record task_id (\<lambda>_. r') reg)))"

definition snapshot :: "nat \<Rightarrow> string \<Rightarrow> registry \<Rightarrow> data_task_snapshot task_result \<times> registry" where
  "snapshot now task_id reg =
     (let reg = expire now reg in (ok_or missing (map_option snap (get_record task_id reg)), reg))"

record progress_update =
  up_status :: data_task_status
  up_read_rows :: nat
  up_written_rows :: nat
  up_verified_rows :: nat
  up_bytes :: nat

definition progress_ignored :: "progress_update \<Rightarrow> task_record \<Rightarrow> bool" where
  "progress_ignored update r \<longleftrightarrow> is_terminal (status r) \<or> status r = Cancelling
     \<or> is_terminal (up_status update) \<or> phase (up_status update) < phase (status r)"

definition at_least :: "nat \<Rightarrow> string \<Rightarrow> string" where
  "at_least n s = nat_to_string (max n (text_number s))"

definition progress_record :: "nat \<Rightarrow> progress_update \<Rightarrow> task_record \<Rightarrow> task_record" where
  "progress_record now update r =
     (let s = snap r in touch_record now (r\<lparr>snap := s\<lparr>sn_status := up_status update,
        sn_read_rows := at_least (up_read_rows update) (sn_read_rows s),
        sn_written_rows := at_least (up_written_rows update) (sn_written_rows s),
        sn_verified_rows := at_least (up_verified_rows update) (sn_verified_rows s),
        sn_bytes := at_least (up_bytes update) (sn_bytes s)\<rparr>\<rparr>))"

definition progress :: "nat \<Rightarrow> string \<Rightarrow> progress_update \<Rightarrow> registry \<Rightarrow> registry" where
  "progress now task_id update reg =
     (case get_record task_id reg of
        None \<Rightarrow> reg
      | Some r \<Rightarrow> if progress_ignored update r then reg
          else update_record task_id (\<lambda>_. progress_record now update r) reg)"

definition finish_record :: "nat \<Rightarrow> data_task_result \<Rightarrow> task_record \<Rightarrow> task_record" where
  "finish_record now result r = touch_record now (r\<lparr>pending_cleanup_errors := [],
     snap := (snap r)\<lparr>sn_status := res_status result, sn_preview := None,
       sn_result := Some (result\<lparr>cleanup_errors := cleanup_errors result @ pending_cleanup_errors r\<rparr>)\<rparr>\<rparr>)"

definition finish ::
    "nat \<Rightarrow> string \<Rightarrow> data_task_result \<Rightarrow> registry \<Rightarrow> data_task_snapshot task_result \<times> registry" where
  "finish now task_id result reg =
     (if \<not> is_terminal (res_status result)
      then (Inl (task_error ''invalid_state'' ''a result must be terminal''), reg)
      else (case get_record task_id reg of
          None \<Rightarrow> (Inl missing, reg)
        | Some r \<Rightarrow>
            if is_terminal (status r) then (Inr (snap r), reg)
            else (let r' = finish_record now result r;
                      reg = update_record task_id (\<lambda>_. r') reg;
                      reg = (if writer reg = Some task_id then reg\<lparr>writer := None\<rparr> else reg)
                  in (Inr (snap r'), trim_registry reg))))"

definition list_tasks :: "nat \<Rightarrow> registry \<Rightarrow> data_task_snapshot list \<times> registry" where
  "list_tasks now reg =
     (let reg = expire now reg
      in (sort_key (\<lambda>s. - int (text_number (sn_created_at s))) (map (snap \<circ> snd) (records reg)), reg))"

definition discard :: "nat \<Rightarrow> string \<Rightarrow> registry \<Rightarrow> data_task_snapshot option task_result \<times> registry" where
  "discard now plan reg =
     (let (ss, reg) = list_tasks now reg in
      case List.find (\<lambda>s. case sn_preview s of None \<Rightarrow> False | Some p \<Rightarrow> pv_plan_id p = plan) ss of
        None \<Rightarrow> (Inr None, reg)
      | Some s \<Rightarrow>
          if sn_execution_id s \<noteq> None
          then (Inl (task_error ''task_busy'' ''a running plan cannot be discarded''), reg)
          else (let (res, reg) = cancel now (sn_task_id s) reg
                in (case res of Inl e \<Rightarrow> Inl e | Inr s \<Rightarrow> Inr (Some s), reg)))"

definition has_active :: "nat \<Rightarrow> registry \<Rightarrow> bool \<times> registry" where
  "has_active now reg =
     (let (ss, reg) = list_tasks now reg
      in (\<exists>s \<in> set ss. \<not> is_terminal (sn_status s) \<and> sn_status s \<noteq> Ready, reg))"

definition restore_one :: "data_task_snapshot \<Rightarrow> registry \<Rightarrow> registry" where
  "restore_one s reg =
     (if get_record (sn_task_id s) reg \<noteq> None then reg
      else reg\<lparr>records := records reg @ [(sn_task_id s, \<lparr>snap = s, cancel_flag = True,
        execution = None, plan_id = None, pending_cleanup_errors = []\<rparr>)]\<rparr>)"

definition restore :: "data_task_snapshot list \<Rightarrow> registry \<Rightarrow> registry" where
  "restore snapshots reg = fold restore_one (take 100 snapshots) reg"

definition cleanup_record :: "nat \<Rightarrow> string \<Rightarrow> task_record \<Rightarrow> task_record" where
  "cleanup_record now message r =
     (if is_terminal (status r)
      then (let result = unwrap_or \<lparr>res_status = status r, res_commit_state = CommitNone,
                  res_tables = [], res_error = None, cleanup_errors = [],
                  requires_target_refresh = False\<rparr> (sn_result (snap r))
            in touch_record now (r\<lparr>pending_cleanup_errors := [],
              snap := (snap r)\<lparr>sn_result := Some (result\<lparr>cleanup_errors :=
                cleanup_errors result @ pending_cleanup_errors r @ [message]\<rparr>)\<rparr>\<rparr>))
      else r\<lparr>pending_cleanup_errors := pending_cleanup_errors r @ [message]\<rparr>)"

definition append_cleanup_error :: "nat \<Rightarrow> string \<Rightarrow> string \<Rightarrow> registry \<Rightarrow> registry" where
  "append_cleanup_error now task_id message reg = update_record task_id (cleanup_record now message) reg"

subsection \<open>Steps of the registry\<close>

text \<open>
  The cancellation signal is shared with the worker of a task (\<open>Cancellation\<close> is an
  \<open>Arc<AtomicBool>\<close>), and the runtime also raises it directly, without an operation of the
  registry, when the history cannot be saved while a worker reports progress.
\<close>

definition raise_signal :: "string \<Rightarrow> registry \<Rightarrow> registry" where
  "raise_signal tid reg = update_record tid (\<lambda>r. r\<lparr>cancel_flag := True\<rparr>) reg"

definition in_work :: "task_record \<Rightarrow> bool" where
  "in_work r \<longleftrightarrow> sn_preview (snap r) = None \<or> execution r \<noteq> None"

text \<open>
  Any operation, with any arguments, at any time. Restored snapshots are finished ones, which
  is what the history yields.
\<close>

inductive registry_step :: "(string \<Rightarrow> bool) \<Rightarrow> registry \<Rightarrow> registry \<Rightarrow> bool" for is_uuid where
  step_register: "registry_step is_uuid reg (snd (register_preview now tid req reg))"
| step_ready: "registry_step is_uuid reg (snd (set_ready now tid preview reg))"
| step_begin: "registry_step is_uuid reg (snd (begin_execution is_uuid now input reg))"
| step_cancel: "registry_step is_uuid reg (snd (cancel now tid reg))"
| step_snapshot: "registry_step is_uuid reg (snd (snapshot now tid reg))"
| step_progress: "registry_step is_uuid reg (progress now tid update reg)"
| step_finish: "registry_step is_uuid reg (snd (finish now tid result reg))"
| step_list: "registry_step is_uuid reg (snd (list_tasks now reg))"
| step_discard: "registry_step is_uuid reg (snd (discard now plan reg))"
| step_active: "registry_step is_uuid reg (snd (has_active now reg))"
| step_restore: "\<forall>s \<in> set snapshots. is_terminal (sn_status s) \<and> sn_preview s = None \<Longrightarrow>
    registry_step is_uuid reg (restore snapshots reg)"
| step_cleanup: "registry_step is_uuid reg (append_cleanup_error now tid message reg)"
| step_signal: "(\<And>r. get_record tid reg = Some r \<Longrightarrow> in_work r) \<Longrightarrow> registry_step is_uuid reg (raise_signal tid reg)"

definition reachable_registry :: "(string \<Rightarrow> bool) \<Rightarrow> registry \<Rightarrow> bool" where
  "reachable_registry is_uuid reg \<longleftrightarrow> (registry_step is_uuid)\<^sup>*\<^sup>* empty_registry reg"

subsection \<open>The invariant\<close>

definition executing :: "task_record \<Rightarrow> bool" where
  "executing r \<longleftrightarrow> execution r \<noteq> None \<and> \<not> is_terminal (status r)"

definition record_ok :: "string \<Rightarrow> task_record \<Rightarrow> bool" where
  "record_ok i r \<longleftrightarrow> sn_task_id (snap r) = i
     \<and> (\<forall>e. execution r = Some e \<longrightarrow> sn_execution_id (snap r) = Some (ex_execution_id e))
     \<and> (execution r = None \<longrightarrow> \<not> is_terminal (status r) \<longrightarrow> sn_execution_id (snap r) = None)
     \<and> (executing r \<longrightarrow> 5 \<le> phase (status r))
     \<and> (is_terminal (status r) \<longrightarrow> sn_preview (snap r) = None)
     \<and> (\<forall>p. sn_preview (snap r) = Some p \<longrightarrow> plan_id r = Some (pv_plan_id p))
     \<and> (cancel_flag r \<longrightarrow> is_terminal (status r) \<or> status r = Cancelling \<or> in_work r)"

definition records_ok :: "string option \<Rightarrow> (string \<times> task_record) list \<Rightarrow> bool" where
  "records_ok w rs \<longleftrightarrow> distinct (map fst rs)
     \<and> (\<forall>(i, r) \<in> set rs. record_ok i r \<and> (executing r \<longrightarrow> w = Some i))
     \<and> (\<forall>i. w = Some i \<longrightarrow> (\<exists>r. (i, r) \<in> set rs \<and> executing r))
     \<and> length (filter (\<lambda>(i, r). is_preview r) rs) \<le> 3"

definition registry_ok :: "registry \<Rightarrow> bool" where
  "registry_ok reg \<longleftrightarrow> records_ok (writer reg) (records reg)"

text \<open>A change of a record that keeps the invariant, whatever the other records are.\<close>

definition keeps :: "string \<Rightarrow> task_record \<Rightarrow> task_record \<Rightarrow> bool" where
  "keeps i r r' \<longleftrightarrow> record_ok i r' \<and> (is_preview r' \<longrightarrow> is_preview r) \<and> (executing r' \<longleftrightarrow> executing r)"

lemma terminal_simps [simp]:
  "is_terminal Succeeded" "is_terminal Failed" "is_terminal Cancelled" "is_terminal Expired"
  "is_terminal Interrupted" "is_terminal OutcomeUnknown" "is_terminal Partial"
  "\<not> is_terminal Created" "\<not> is_terminal Validating" "\<not> is_terminal Reading" "\<not> is_terminal Comparing"
  "\<not> is_terminal Ready" "\<not> is_terminal Executing" "\<not> is_terminal Verifying" "\<not> is_terminal Committing"
  "\<not> is_terminal Cancelling"
  by (simp_all add: is_terminal_def)

lemma phase_simps [simp]:
  "phase Created = 0" "phase Validating = 1" "phase Reading = 2" "phase Comparing = 3" "phase Ready = 4"
  "phase Executing = 5" "phase Verifying = 6" "phase Committing = 7" "phase Cancelling = 8"
  "is_terminal s \<Longrightarrow> phase s = 8"
  by (simp_all add: phase_def is_terminal_def) (auto split: data_task_status.splits)

lemma touch_simps [simp]:
  "snap (touch_record now r) = touch now (snap r)"
  "execution (touch_record now r) = execution r"
  "cancel_flag (touch_record now r) = cancel_flag r"
  "plan_id (touch_record now r) = plan_id r"
  "sn_status (touch now s) = sn_status s" "sn_task_id (touch now s) = sn_task_id s"
  "sn_execution_id (touch now s) = sn_execution_id s" "sn_preview (touch now s) = sn_preview s"
  "sn_result (touch now s) = sn_result s" "sn_request (touch now s) = sn_request s"
  by (simp_all add: touch_record_def touch_def)

lemmas record_defs = record_ok_def executing_def is_preview_def status_def in_work_def

lemma get_record_Some: "get_record i reg = Some r \<Longrightarrow> (i, r) \<in> set (records reg)"
  by (simp add: get_record_def map_of_SomeD)

lemma get_record_iff:
  "distinct (map fst (records reg)) \<Longrightarrow> get_record i reg = Some r \<longleftrightarrow> (i, r) \<in> set (records reg)"
  by (simp add: get_record_def)

lemma get_record_None: "get_record i reg = None \<longleftrightarrow> i \<notin> fst ` set (records reg)"
  by (simp add: get_record_def map_of_eq_None_iff)

lemma length_filter_mono_map:
  "(\<And>x. x \<in> set xs \<Longrightarrow> P (f x) \<Longrightarrow> P x) \<Longrightarrow> length (filter P (map f xs)) \<le> length (filter P xs)"
  by (induction xs) (auto intro: le_SucI)

lemma records_okI:
  assumes "distinct (map fst rs)"
    and "\<And>i r. (i, r) \<in> set rs \<Longrightarrow> record_ok i r \<and> (executing r \<longrightarrow> w = Some i)"
    and "\<And>i. w = Some i \<Longrightarrow> \<exists>r. (i, r) \<in> set rs \<and> executing r"
    and "length (filter (\<lambda>(i, r). is_preview r) rs) \<le> 3"
  shows "records_ok w rs"
  using assms by (auto simp: records_ok_def)

lemma records_okD:
  assumes "records_ok w rs"
  shows "distinct (map fst rs)"
    and "(i, r) \<in> set rs \<Longrightarrow> record_ok i r" and "(i, r) \<in> set rs \<Longrightarrow> executing r \<Longrightarrow> w = Some i"
    and "w = Some i \<Longrightarrow> \<exists>r. (i, r) \<in> set rs \<and> executing r"
    and "length (filter (\<lambda>(i, r). is_preview r) rs) \<le> 3"
  using assms by (auto simp: records_ok_def)

lemma records_ok_map:
  assumes ok: "records_ok w rs" and keep: "\<And>i r. (i, r) \<in> set rs \<Longrightarrow> keeps i r (g i r)"
  shows "records_ok w (map (\<lambda>(i, r). (i, g i r)) rs)"
proof (rule records_okI)
  note d = records_okD [OF ok]
  show "distinct (map fst (map (\<lambda>(i, r). (i, g i r)) rs))"
    using d(1) by (simp add: comp_def case_prod_beta')
  fix i r
  assume "(i, r) \<in> set (map (\<lambda>(i, r). (i, g i r)) rs)"
  then obtain q where "(i, q) \<in> set rs" "r = g i q" by auto
  then show "record_ok i r \<and> (executing r \<longrightarrow> w = Some i)"
    using keep d(3) by (auto simp: keeps_def)
next
  fix i
  assume "w = Some i"
  then obtain r where "(i, r) \<in> set rs" "executing r" using records_okD(4) [OF ok] by blast
  then show "\<exists>r. (i, r) \<in> set (map (\<lambda>(i, r). (i, g i r)) rs) \<and> executing r"
    using keep by (force simp: keeps_def)
next
  have "length (filter (\<lambda>(i, r). is_preview r) (map (\<lambda>(i, r). (i, g i r)) rs))
      \<le> length (filter (\<lambda>(i, r). is_preview r) rs)"
    by (rule length_filter_mono_map) (use keep in \<open>auto simp: keeps_def\<close>)
  also have "\<dots> \<le> 3" by (rule records_okD(5) [OF ok])
  finally show "length (filter (\<lambda>(i, r). is_preview r) (map (\<lambda>(i, r). (i, g i r)) rs)) \<le> 3" .
qed

lemma keeps_refl: "record_ok i r \<Longrightarrow> keeps i r r"
  by (simp add: keeps_def)

lemma update_record_records:
  "records (update_record i f reg) = map (\<lambda>(j, r). (j, if j = i then f r else r)) (records reg)"
  "writer (update_record i f reg) = writer reg"
  "cancelled_before_register (update_record i f reg) = cancelled_before_register reg"
  by (auto simp: update_record_def)

lemma get_update_record:
  "get_record j (update_record i f reg) = (if j = i then map_option f (get_record j reg) else get_record j reg)"
proof -
  have "map_of (map (\<lambda>(j, r). (j, if j = i then f r else r)) xs) j
      = (if j = i then map_option f (map_of xs j) else map_of xs j)" for xs :: "(string \<times> task_record) list"
    by (induction xs) auto
  then show ?thesis by (simp add: get_record_def update_record_records)
qed

lemma registry_ok_update:
  assumes ok: "registry_ok reg" and keep: "\<And>r. get_record i reg = Some r \<Longrightarrow> keeps i r (f r)"
  shows "registry_ok (update_record i f reg)"
proof -
  have ok': "records_ok (writer reg) (records reg)" using ok by (simp add: registry_ok_def)
  have "keeps j q (if j = i then f q else q)" if "(j, q) \<in> set (records reg)" for j q
    using that keep records_okD(1,2) [OF ok'] by (auto simp: get_record_iff intro: keeps_refl)
  from records_ok_map [OF ok' this] show ?thesis
    by (simp add: registry_ok_def update_record_records)
qed

lemma registry_ok_get: "registry_ok reg \<Longrightarrow> get_record i reg = Some r \<Longrightarrow> record_ok i r"
  using records_okD(2) by (auto simp: registry_ok_def dest: get_record_Some)

text \<open>Only finished records are ever removed.\<close>

lemma filter_filter_le: "length (filter P (filter Q xs)) \<le> length (filter P xs)"
  by (induction xs) auto

lemma records_ok_filter:
  assumes ok: "records_ok w rs" and keep: "\<And>i r. (i, r) \<in> set rs \<Longrightarrow> executing r \<Longrightarrow> P (i, r)"
  shows "records_ok w (filter P rs)"
proof (rule records_okI)
  show "distinct (map fst (filter P rs))"
    using records_okD(1) [OF ok] by (simp add: distinct_map_filter)
  show "length (filter (\<lambda>(i, r). is_preview r) (filter P rs)) \<le> 3"
    using filter_filter_le [of "\<lambda>(i, r). is_preview r" P rs] records_okD(5) [OF ok] by simp
  show "\<And>i r. (i, r) \<in> set (filter P rs) \<Longrightarrow> record_ok i r \<and> (executing r \<longrightarrow> w = Some i)"
    using records_okD(2,3) [OF ok] by auto
  fix i
  assume "w = Some i"
  then obtain r where "(i, r) \<in> set rs" "executing r" using records_okD(4) [OF ok] by blast
  with keep show "\<exists>r. (i, r) \<in> set (filter P rs) \<and> executing r" by auto
qed

lemma trim_registry_eq:
  "\<exists>P. trim_registry reg = reg\<lparr>records := filter P (records reg)\<rparr>
    \<and> (\<forall>i r. distinct (map fst (records reg)) \<longrightarrow> (i, r) \<in> set (records reg) \<longrightarrow> \<not> P (i, r) \<longrightarrow> is_terminal (status r))"
proof -
  let ?all = "map (\<lambda>(i, r). (i, text_number (sn_updated_at (snap r)))) (filter (\<lambda>(i, r). is_terminal (status r)) (records reg))"
  let ?terminal = "sort_key snd ?all"
  let ?old = "map fst (take (length ?terminal - 100) ?terminal)"
  have sub: "set ?old \<subseteq> fst ` set ?all"
    using set_take_subset [of "length ?terminal - 100" ?terminal] by (auto simp del: length_sort length_map)
  have "is_terminal (status r)"
    if d: "distinct (map fst (records reg))" and r: "(i, r) \<in> set (records reg)" and o: "i \<in> set ?old" for i r
  proof -
    obtain q where "(i, q) \<in> set (records reg)" "is_terminal (status q)"
      using o sub by auto
    then show ?thesis using d r by (metis eq_key_imp_eq_value)
  qed
  then show ?thesis
    by (intro exI [of _ "\<lambda>(i, r). i \<notin> set ?old"]) (auto simp: trim_registry_def Let_def)
qed

lemma registry_ok_trim:
  assumes "registry_ok reg"
  shows "registry_ok (trim_registry reg)"
proof -
  obtain P where P: "trim_registry reg = reg\<lparr>records := filter P (records reg)\<rparr>"
    "\<And>i r. distinct (map fst (records reg)) \<Longrightarrow> (i, r) \<in> set (records reg) \<Longrightarrow> \<not> P (i, r) \<Longrightarrow> is_terminal (status r)"
    using trim_registry_eq [of reg] by blast
  have ok: "records_ok (writer reg) (records reg)" using assms by (simp add: registry_ok_def)
  have "P (i, r)" if "(i, r) \<in> set (records reg)" "executing r" for i r
    using P(2) [OF records_okD(1) [OF ok] that(1)] that(2) by (auto simp: executing_def)
  from records_ok_filter [where P = P, OF ok this] show ?thesis by (simp add: P(1) registry_ok_def)
qed

subsection \<open>Every change of a record keeps the invariant\<close>

lemma keeps_expire: "record_ok i r \<Longrightarrow> keeps i r (expire_record now r)"
  by (auto simp: keeps_def record_defs expire_record_def is_expired_def)

lemma keeps_ready:
  assumes "record_ok i r" "sn_execution_id (snap r) = None" "\<not> is_terminal (status r)" "\<not> cancel_flag r"
  shows "keeps i r (ready_record now p r)"
  using assms by (auto simp: keeps_def record_defs ready_record_def)

lemma keeps_cancel:
  assumes "record_ok i r" "\<not> is_terminal (status r)"
  shows "keeps i r (cancel_record now r)"
  using assms by (auto simp: keeps_def record_defs cancel_record_def)

lemma progress_facts:
  assumes "\<not> progress_ignored update r"
  shows "\<not> is_terminal (status r)" "\<not> is_terminal (up_status update)"
    "phase (status r) \<le> phase (up_status update)" "status r \<noteq> Cancelling"
  using assms by (auto simp: progress_ignored_def)

lemma keeps_progress:
  assumes "record_ok i r" "\<not> progress_ignored update r"
  shows "keeps i r (progress_record now update r)"
  using assms(1) progress_facts [OF assms(2)]
  by (auto simp: keeps_def record_defs progress_record_def Let_def)

lemma keeps_cleanup: "record_ok i r \<Longrightarrow> keeps i r (cleanup_record now m r)"
  by (auto simp: keeps_def record_defs cleanup_record_def Let_def)

lemma keeps_signal: "record_ok i r \<Longrightarrow> in_work r \<Longrightarrow> keeps i r (r\<lparr>cancel_flag := True\<rparr>)"
  by (auto simp: keeps_def record_defs)

lemma registry_ok_expire: "registry_ok reg \<Longrightarrow> registry_ok (expire now reg)"
  unfolding registry_ok_def expire_def
  by (simp add: records_ok_map keeps_expire records_okD(2))

lemma expire_simps [simp]:
  "writer (expire now reg) = writer reg"
  "cancelled_before_register (expire now reg) = cancelled_before_register reg"
  "get_record i (expire now reg) = map_option (expire_record now) (get_record i reg)"
  by (simp_all add: expire_def get_record_def map_of_map)

lemma registry_ok_add:
  assumes ok: "registry_ok reg" and fresh: "get_record i reg = None"
    and r: "record_ok i r" "\<not> executing r"
    and room: "is_preview r \<Longrightarrow> length (filter (\<lambda>(i, r). is_preview r) (records reg)) < 3"
  shows "registry_ok (reg\<lparr>cancelled_before_register := c, records := records reg @ [(i, r)]\<rparr>)"
proof -
  have ok': "records_ok (writer reg) (records reg)" using ok by (simp add: registry_ok_def)
  note d = records_okD [OF ok']
  have "records_ok (writer reg) (records reg @ [(i, r)])"
  proof (rule records_okI)
    show "distinct (map fst (records reg @ [(i, r)]))"
      using d(1) fresh by (auto simp: get_record_None)
    show "\<And>j q. (j, q) \<in> set (records reg @ [(i, r)]) \<Longrightarrow> record_ok j q \<and> (executing q \<longrightarrow> writer reg = Some j)"
      using d(2,3) r by auto
    show "\<And>j. writer reg = Some j \<Longrightarrow> \<exists>q. (j, q) \<in> set (records reg @ [(i, r)]) \<and> executing q"
      using d(4) by auto
    show "length (filter (\<lambda>(i, r). is_preview r) (records reg @ [(i, r)])) \<le> 3"
      using d(5) room by auto
  qed
  then show ?thesis by (simp add: registry_ok_def)
qed

lemma registry_ok_restore_one:
  assumes "registry_ok reg" "is_terminal (sn_status s)" "sn_preview s = None"
  shows "registry_ok (restore_one s reg)"
proof (cases "get_record (sn_task_id s) reg")
  case None
  have "registry_ok (reg\<lparr>cancelled_before_register := cancelled_before_register reg,
      records := records reg @ [(sn_task_id s, \<lparr>snap = s, cancel_flag = True,
        execution = None, plan_id = None, pending_cleanup_errors = []\<rparr>)]\<rparr>)"
    using assms None by (intro registry_ok_add) (auto simp: record_defs)
  then show ?thesis by (simp add: restore_one_def None)
qed (simp add: restore_one_def assms)

lemma registry_ok_restore:
  assumes "registry_ok reg" "\<forall>s \<in> set ss. is_terminal (sn_status s) \<and> sn_preview s = None"
  shows "registry_ok (restore ss reg)"
proof -
  have "registry_ok (fold restore_one xs reg)" if "set xs \<subseteq> set ss" for xs
    using that assms
  proof (induction xs arbitrary: reg)
    case (Cons s xs)
    have "registry_ok (restore_one s reg)"
      using Cons.prems by (intro registry_ok_restore_one) auto
    then show ?case using Cons.IH [of "restore_one s reg"] Cons.prems by simp
  qed simp
  then show ?thesis by (simp add: restore_def set_take_subset)
qed

lemma registry_ok_cancel: "registry_ok reg \<Longrightarrow> registry_ok (snd (cancel now tid reg))"
  by (auto simp: cancel_def Let_def registry_ok_def [where reg = "reg\<lparr>cancelled_before_register := _\<rparr>"]
      split: option.splits intro!: registry_ok_update keeps_cancel dest: registry_ok_get)
     (simp_all add: registry_ok_def)

text \<open>The writer changes with the one record that starts or stops executing.\<close>

lemma records_ok_change:
  assumes ok: "records_ok w rs" and mem: "(i, r) \<in> set rs"
    and r': "record_ok i r'" "is_preview r' \<Longrightarrow> is_preview r"
    and w: "executing r' \<Longrightarrow> (w = None \<or> w = Some i) \<and> w' = Some i"
      "\<not> executing r' \<Longrightarrow> w' = (if w = Some i then None else w)"
  shows "records_ok w' (map (\<lambda>(j, q). (j, if j = i then r' else q)) rs)"
proof (rule records_okI)
  note d = records_okD [OF ok]
  let ?m = "\<lambda>(j, q). (j, if j = i then r' else q)"
  show "distinct (map fst (map ?m rs))" using d(1) by (simp add: comp_def case_prod_beta')
  have only: "q = r" if "(i, q) \<in> set rs" for q
    using that mem d(1) by (metis eq_key_imp_eq_value)
  have "length (filter (\<lambda>(i, r). is_preview r) (map ?m rs)) \<le> length (filter (\<lambda>(i, r). is_preview r) rs)"
    by (rule length_filter_mono_map) (use r'(2) only in \<open>auto split: if_splits\<close>)
  with d(5) show "length (filter (\<lambda>(i, r). is_preview r) (map ?m rs)) \<le> 3" by simp
  have other: "w = Some j" "w' = Some j" if "(j, q) \<in> set rs" "j \<noteq> i" "executing q" for j q
    using d(3) [OF that(1,3)] that(2) w by (cases "executing r'"; auto)+
  show "record_ok j q \<and> (executing q \<longrightarrow> w' = Some j)" if "(j, q) \<in> set (map ?m rs)" for j q
    using that d(2) r'(1) w(1) other(2) by (auto split: if_splits)
  show "\<exists>q. (j, q) \<in> set (map ?m rs) \<and> executing q" if j: "w' = Some j" for j
  proof (cases "j = i")
    case True
    with j w(2) have "executing r'" by (metis option.distinct(1))
    with True mem show ?thesis by force
  next
    case False
    with j w have "w = Some j" by (cases "executing r'") (auto split: if_splits)
    then obtain q where "(j, q) \<in> set rs" "executing q" using d(4) by blast
    with False show ?thesis by force
  qed
qed

lemma registry_ok_begin:
  assumes "registry_ok reg"
  shows "registry_ok (snd (begin_execution is_uuid now input reg))"
proof -
  define reg' where "reg' = expire now reg"
  have ok: "registry_ok reg'" using assms by (simp add: reg'_def registry_ok_expire)
  have "registry_ok (update_record tid (\<lambda>_. start_record now input r) (reg'\<lparr>writer := Some tid\<rparr>))"
    if get: "get_record tid reg' = Some r" and ex: "executable input r = Inr ()" and free: "writer reg' = None" for tid r
  proof -
    have r: "status r = Ready" "execution r = None"
      using ex by (auto simp: executable_def split: if_splits option.splits)
    have "record_ok tid r" using ok get by (rule registry_ok_get)
    with r have "record_ok tid (start_record now input r)" "\<not> is_preview (start_record now input r)"
      "executing (start_record now input r)"
      by (auto simp: record_defs start_record_def)
    with ok get free have "records_ok (Some tid)
        (map (\<lambda>(j, q). (j, if j = tid then start_record now input r else q)) (records reg'))"
      by (intro records_ok_change [where r = r and w = None]) (auto simp: registry_ok_def dest: get_record_Some)
    then show ?thesis by (simp add: registry_ok_def update_record_records)
  qed
  with assms ok show ?thesis
    by (simp add: begin_execution_def Let_def flip: reg'_def split: option.split sum.split)
qed

lemma registry_ok_finish:
  assumes "registry_ok reg"
  shows "registry_ok (snd (finish now tid result reg))"
proof -
  have "registry_ok (let reg' = update_record tid (\<lambda>_. finish_record now result r) reg in
      if writer reg' = Some tid then reg'\<lparr>writer := None\<rparr> else reg')"
    if get: "get_record tid reg = Some r" and live: "\<not> is_terminal (status r)" and t: "is_terminal (res_status result)" for r
  proof -
    have "record_ok tid r" using assms get by (rule registry_ok_get)
    with t have "record_ok tid (finish_record now result r)" "\<not> is_preview (finish_record now result r)"
      "\<not> executing (finish_record now result r)"
      by (auto simp: record_defs finish_record_def)
    with assms get have "records_ok (if writer reg = Some tid then None else writer reg)
        (map (\<lambda>(j, q). (j, if j = tid then finish_record now result r else q)) (records reg))"
      by (intro records_ok_change [where r = r and w = "writer reg"]) (auto simp: registry_ok_def dest: get_record_Some)
    then show ?thesis by (auto simp: registry_ok_def update_record_records Let_def)
  qed
  with assms show ?thesis
    by (auto simp: finish_def Let_def split: option.splits intro!: registry_ok_trim)
qed

lemma registry_ok_register:
  assumes "registry_ok reg"
  shows "registry_ok (snd (register_preview now tid request reg))"
proof -
  define reg' where "reg' = expire now reg"
  have ok: "registry_ok reg'" using assms by (simp add: reg'_def registry_ok_expire)
  have new: "record_ok tid \<lparr>snap = new_snapshot now tid request c, cancel_flag = c, execution = None,
      plan_id = None, pending_cleanup_errors = []\<rparr>" for c
    by (auto simp: record_defs new_snapshot_def)
  have "registry_ok (reg'\<lparr>cancelled_before_register := b, records := records reg' @ [(tid,
      \<lparr>snap = new_snapshot now tid request c, cancel_flag = c, execution = None,
       plan_id = None, pending_cleanup_errors = []\<rparr>)]\<rparr>)"
    if "get_record tid reg' = None" "\<not> 3 \<le> length (filter (\<lambda>(i, r). is_preview r) (records reg'))" for b c
    using ok that new by (intro registry_ok_add) (simp_all add: executing_def)
  with assms ok show ?thesis
    by (simp add: register_preview_def Let_def flip: reg'_def split: sum.split option.split)
       (auto intro!: registry_ok_trim)
qed

lemma registry_ok_ready: "registry_ok reg \<Longrightarrow> registry_ok (snd (set_ready now tid preview reg))"
  by (auto simp: set_ready_def Let_def split: option.splits
      intro!: registry_ok_update keeps_ready dest: registry_ok_get)

lemma registry_ok_progress: "registry_ok reg \<Longrightarrow> registry_ok (progress now tid update reg)"
  by (auto simp: progress_def split: option.splits intro!: registry_ok_update keeps_progress dest: registry_ok_get)

lemma registry_ok_list: "registry_ok reg \<Longrightarrow> registry_ok (snd (list_tasks now reg))"
  by (simp add: list_tasks_def Let_def registry_ok_expire)

lemma registry_ok_discard: "registry_ok reg \<Longrightarrow> registry_ok (snd (discard now plan reg))"
  using registry_ok_cancel [of "expire now reg" now]
  by (auto simp: discard_def list_tasks_def Let_def registry_ok_expire split: option.splits prod.splits)
     (metis registry_ok_expire snd_conv)

lemma registry_step_ok: "registry_step is_uuid reg reg' \<Longrightarrow> registry_ok reg \<Longrightarrow> registry_ok reg'"
  by (induction rule: registry_step.induct)
     (auto simp: registry_ok_register registry_ok_ready registry_ok_begin registry_ok_cancel registry_ok_progress
       registry_ok_finish registry_ok_list registry_ok_discard registry_ok_restore snapshot_def has_active_def Let_def
       registry_ok_expire append_cleanup_error_def raise_signal_def case_prod_beta'
       intro: registry_ok_update keeps_cleanup keeps_signal dest: registry_ok_get)

lemma registry_ok_empty: "registry_ok empty_registry"
  by (simp add: registry_ok_def empty_registry_def records_ok_def)

lemma reachable_registry_ok: "reachable_registry is_uuid reg \<Longrightarrow> registry_ok reg"
  unfolding reachable_registry_def
  by (induction rule: rtranclp_induct) (auto intro: registry_ok_empty registry_step_ok)

subsection \<open>The life of one task\<close>

text \<open>
  What one operation may do to one record. The registry refines this machine: a step of the
  registry moves every record that stays along it.
\<close>

inductive record_step :: "task_record \<Rightarrow> task_record \<Rightarrow> bool" where
  rs_expire: "is_expired now r \<Longrightarrow> record_step r (expire_record now r)"
| rs_ready: "\<not> cancel_flag r \<Longrightarrow> \<not> is_terminal (status r) \<Longrightarrow> sn_execution_id (snap r) = None \<Longrightarrow>
    record_step r (ready_record now preview r)"
| rs_start: "executable input r = Inr () \<Longrightarrow> record_step r (start_record now input r)"
| rs_cancel: "\<not> is_terminal (status r) \<Longrightarrow> status r \<noteq> Committing \<Longrightarrow> record_step r (cancel_record now r)"
| rs_progress: "\<not> progress_ignored update r \<Longrightarrow> record_step r (progress_record now update r)"
| rs_finish: "\<not> is_terminal (status r) \<Longrightarrow> is_terminal (res_status result) \<Longrightarrow>
    record_step r (finish_record now result r)"
| rs_cleanup: "record_step r (cleanup_record now message r)"
| rs_signal: "in_work r \<Longrightarrow> record_step r (r\<lparr>cancel_flag := True\<rparr>)"

text \<open>What an operation does to the record of one task: nothing, a few steps, or removal.\<close>

definition moves :: "task_record option \<Rightarrow> task_record option \<Rightarrow> bool" where
  "moves a b \<longleftrightarrow> (case (a, b) of
     (Some r, Some r') \<Rightarrow> record_step\<^sup>*\<^sup>* r r'
   | (Some r, None) \<Rightarrow> is_terminal (status r) \<or> (\<exists>q. record_step\<^sup>*\<^sup>* r q \<and> is_terminal (status q))
   | _ \<Rightarrow> True)"

lemma moves_refl: "moves a a"
  by (simp add: moves_def split: option.split)

lemma moves_step: "record_step r r' \<Longrightarrow> moves (Some r) (Some r')"
  by (simp add: moves_def)

lemma moves_trans: "moves a b \<Longrightarrow> moves b c \<Longrightarrow> b \<noteq> None \<Longrightarrow> moves a c"
  by (auto simp: moves_def split: option.splits intro: rtranclp_trans)

lemma expire_moves: "moves (get_record i reg) (get_record i (expire now reg))"
proof (cases "get_record i reg")
  case (Some r)
  then show ?thesis
    by (cases "is_expired now r") (simp_all add: moves_step rs_expire, simp add: expire_record_def moves_refl)
qed (simp add: moves_def)

lemma update_moves:
  assumes "\<And>r. get_record i reg = Some r \<Longrightarrow> record_step r (f r)"
  shows "moves (get_record j reg) (get_record j (update_record i f reg))"
  using assms by (cases "get_record j reg") (auto simp: get_update_record moves_refl intro: moves_step)

lemma get_record_writer [simp]:
  "get_record i (reg\<lparr>writer := w\<rparr>) = get_record i reg"
  "get_record i (reg\<lparr>cancelled_before_register := c\<rparr>) = get_record i reg"
  by (simp_all add: get_record_def)

lemma trim_moves:
  assumes "distinct (map fst (records reg))"
  shows "moves (get_record i reg) (get_record i (trim_registry reg))"
proof -
  obtain P where P: "trim_registry reg = reg\<lparr>records := filter P (records reg)\<rparr>"
    "\<And>i r. (i, r) \<in> set (records reg) \<Longrightarrow> \<not> P (i, r) \<Longrightarrow> is_terminal (status r)"
    using trim_registry_eq [of reg] assms by blast
  have d: "distinct (map fst (filter P (records reg)))" using assms by (simp add: distinct_map_filter)
  show ?thesis
  proof (cases "get_record i reg")
    case (Some r)
    then have mem: "(i, r) \<in> set (records reg)" by (rule get_record_Some)
    show ?thesis
    proof (cases "P (i, r)")
      case True
      with mem have "get_record i (trim_registry reg) = Some r"
        using d by (simp add: get_record_def P(1))
      with Some show ?thesis by (simp add: moves_refl)
    next
      case False
      with mem have t: "is_terminal (status r)" by (rule P(2))
      have "get_record i (trim_registry reg) = None"
        using False mem assms by (auto simp: get_record_None P(1) dest: eq_key_imp_eq_value)
      with Some t show ?thesis by (simp add: moves_def)
    qed
  qed (simp add: moves_def)
qed

lemma add_moves:
  "get_record i reg = None \<Longrightarrow>
     moves (get_record j reg) (get_record j (reg\<lparr>cancelled_before_register := c, records := records reg @ [(i, r)]\<rparr>))"
  by (cases "get_record j reg") (auto simp: moves_def get_record_def map_add_Some_iff)

lemma get_add: "get_record i reg = None \<Longrightarrow> get_record j (reg\<lparr>cancelled_before_register := c, records := records reg @ [(i, r)]\<rparr>)
    = (if j = i then Some r else get_record j reg)"
  by (auto simp: get_record_def map_add_def split: option.splits)

lemma get_restore_one: "get_record j reg \<noteq> None \<Longrightarrow> get_record j (restore_one s reg) = get_record j reg"
  by (auto simp: restore_one_def get_record_def map_add_def split: option.splits)

lemma get_restore: "get_record j reg \<noteq> None \<Longrightarrow> get_record j (fold restore_one xs reg) = get_record j reg"
proof (induction xs arbitrary: reg)
  case (Cons s xs)
  then show ?case using get_restore_one [of j reg s] by simp
qed simp

lemma restore_moves: "moves (get_record j reg) (get_record j (restore ss reg))"
proof (cases "get_record j reg")
  case (Some r)
  then show ?thesis using get_restore [of j reg "take 100 ss"] by (simp add: restore_def moves_refl)
qed (simp add: moves_def)

lemma cancel_moves: "moves (get_record j reg) (get_record j (snd (cancel now tid reg)))"
  by (auto simp: cancel_def Let_def moves_refl split: option.splits intro!: update_moves rs_cancel)

lemma start_moves:
  assumes "get_record tid reg = Some r" "executable input r = Inr ()"
  shows "moves (get_record j reg) (get_record j (update_record tid (\<lambda>_. start_record now input r) (reg\<lparr>writer := w\<rparr>)))"
  using assms update_moves [of tid "reg\<lparr>writer := w\<rparr>" "\<lambda>_. start_record now input r" j]
  by (simp add: rs_start)

lemma moves_via_expire:
  assumes "moves (get_record j (expire now reg)) b"
  shows "moves (get_record j reg) b"
proof (cases "get_record j reg")
  case (Some r)
  then show ?thesis using moves_trans [OF expire_moves assms] by simp
qed (simp add: moves_def)

text \<open>The one way in which \<open>begin\_execution\<close> starts an execution.\<close>

lemma begin_execution_cases:
  obtains (same) "snd (begin_execution is_uuid now input reg) = reg"
      "\<not> is_uuid (ex_execution_id input)" "\<exists>e. fst (begin_execution is_uuid now input reg) = Inl e"
  | (expired) "snd (begin_execution is_uuid now input reg) = expire now reg"
      "\<And>s c. fst (begin_execution is_uuid now input reg) \<noteq> Inr (s, True, c)"
  | (start) tid r where "find_execution (ex_execution_id input) (expire now reg) = None"
      "find_plan (ex_plan_id input) (expire now reg) = Some tid"
      "get_record tid (expire now reg) = Some r" "executable input r = Inr ()" "writer reg = None"
      "begin_execution is_uuid now input reg = (Inr (snap (start_record now input r), True, cancel_flag r),
         update_record tid (\<lambda>_. start_record now input r) (expire now reg\<lparr>writer := Some tid\<rparr>))"
      "is_uuid (ex_execution_id input)"
proof (cases "is_uuid (ex_execution_id input)")
  case False
  then show thesis by (intro same) (simp_all add: begin_execution_def)
next
  case uuid: True
  define reg' where "reg' = expire now reg"
  have w: "writer reg' = writer reg" by (simp add: reg'_def)
  show thesis
  proof (cases "find_execution (ex_execution_id input) reg'")
    case (Some r)
    then show thesis
      using uuid by (intro expired) (auto simp: begin_execution_def Let_def reg'_def split: if_splits)
  next
    case no: None
    show thesis
    proof (cases "find_plan (ex_plan_id input) reg'")
      case None
      then show thesis
        using uuid no by (intro expired) (auto simp: begin_execution_def Let_def reg'_def split: if_splits)
    next
      case (Some tid)
      note plan = this
      show thesis
      proof (cases "get_record tid reg'")
        case None
        then show thesis
          using uuid no plan by (intro expired) (simp_all add: begin_execution_def Let_def flip: reg'_def)
      next
        case (Some r)
        note got = this
        show thesis
        proof (cases "executable input r")
          case (Inl e)
          then show thesis
            using uuid no plan got by (intro expired) (simp_all add: begin_execution_def Let_def flip: reg'_def)
        next
          case (Inr u)
          show thesis
          proof (cases "writer reg")
            case None
            then show thesis
              using uuid no plan got Inr
              by (intro start [of tid r]) (simp_all add: begin_execution_def Let_def w start_record_def flip: reg'_def)
          next
            case (Some other)
            then show thesis
              using uuid no plan got Inr
              by (intro expired) (simp_all add: begin_execution_def Let_def w flip: reg'_def)
          qed
        qed
      qed
    qed
  qed
qed

lemma begin_moves: "moves (get_record j reg) (get_record j (snd (begin_execution is_uuid now input reg)))"
proof (cases rule: begin_execution_cases [of is_uuid now input reg])
  case same
  then show ?thesis by (simp add: moves_refl)
next
  case expired
  then show ?thesis by (simp only: expire_moves)
next
  case (start tid r)
  show ?thesis
    unfolding start(6) snd_conv by (rule moves_via_expire, rule start_moves [OF start(3,4)])
qed

lemma trim_after:
  assumes "registry_ok reg" "moves a (get_record j reg)" "get_record j reg \<noteq> None"
  shows "moves a (get_record j (trim_registry reg))"
proof -
  have "distinct (map fst (records reg))"
    using assms(1) records_okD(1) by (auto simp: registry_ok_def)
  from moves_trans [OF assms(2) trim_moves [OF this] assms(3)] show ?thesis .
qed

lemma finish_moves:
  assumes "registry_ok reg"
  shows "moves (get_record j reg) (get_record j (snd (finish now tid result reg)))"
proof (cases "get_record j reg")
  case None
  then show ?thesis by (simp add: moves_def)
next
  case j: (Some q)
  show ?thesis
  proof (cases "\<not> is_terminal (res_status result) \<or> get_record tid reg = None
      \<or> is_terminal (status (the (get_record tid reg)))")
    case True
    then show ?thesis by (auto simp: finish_def moves_refl split: option.split)
  next
    case False
    then obtain r where r: "get_record tid reg = Some r" "\<not> is_terminal (status r)" "is_terminal (res_status result)"
      by auto
    define reg' where "reg' = (let reg' = update_record tid (\<lambda>_. finish_record now result r) reg in
      if writer reg' = Some tid then reg'\<lparr>writer := None\<rparr> else reg')"
    have run: "snd (finish now tid result reg) = trim_registry reg'"
      using r by (simp add: finish_def reg'_def Let_def)
    have same: "get_record j reg' = get_record j (update_record tid (\<lambda>_. finish_record now result r) reg)"
      by (simp add: reg'_def Let_def)
    have "moves (get_record j reg) (get_record j reg')"
      unfolding same by (rule update_moves) (use r in \<open>simp add: rs_finish\<close>)
    moreover have "get_record j reg' \<noteq> None" unfolding same using j r by (simp add: get_update_record)
    moreover have "distinct (map fst (records reg'))"
      using assms records_okD(1) [of "writer reg" "records reg"]
      by (simp add: registry_ok_def reg'_def Let_def update_record_records comp_def case_prod_beta')
    ultimately show ?thesis unfolding run using moves_trans [OF _ trim_moves] by blast
  qed
qed

lemma register_moves:
  assumes "registry_ok reg"
  shows "moves (get_record j reg) (get_record j (snd (register_preview now tid request reg)))"
proof -
  define reg' where "reg' = expire now reg"
  have ok: "registry_ok reg'" using assms by (simp add: reg'_def registry_ok_expire)
  have add: "moves (get_record j reg') (get_record j (trim_registry (reg'\<lparr>cancelled_before_register := c,
      records := records reg' @ [(tid, r)]\<rparr>)))" (is "moves _ (get_record j (trim_registry ?new))")
    if none: "get_record tid reg' = None" for c r
  proof (cases "get_record j reg'")
    case (Some q)
    have "distinct (map fst (records ?new))"
      using ok none records_okD(1) [of "writer reg'" "records reg'"] by (auto simp: registry_ok_def get_record_None)
    moreover have "get_record j ?new = Some q" using Some none by (auto simp: get_add)
    ultimately show ?thesis
      using moves_trans [OF add_moves [OF none] trim_moves] by simp
  qed (simp add: moves_def)
  have "moves (get_record j reg') (get_record j (snd (register_preview now tid request reg)))
      \<or> snd (register_preview now tid request reg) = reg"
    using add by (simp add: register_preview_def Let_def flip: reg'_def split: sum.split option.split)
      (auto simp: moves_refl)
  then show ?thesis
    using moves_via_expire [of j now reg] by (auto simp: reg'_def moves_refl)
qed

lemma discard_moves: "moves (get_record j reg) (get_record j (snd (discard now plan reg)))"
proof -
  have "snd (discard now plan reg) = expire now reg
      \<or> (\<exists>tid. snd (discard now plan reg) = snd (cancel now tid (expire now reg)))"
    by (auto simp: discard_def list_tasks_def Let_def case_prod_beta' split: option.split)
  then show ?thesis
    using expire_moves moves_via_expire [OF cancel_moves] by metis
qed

lemma registry_step_moves:
  assumes "registry_step is_uuid reg reg'" and "registry_ok reg"
  shows "moves (get_record j reg) (get_record j reg')"
  using assms
proof (cases rule: registry_step.cases)
  case (step_ready now tid preview)
  then show ?thesis
    by (auto simp: set_ready_def Let_def moves_refl split: option.splits intro!: update_moves rs_ready)
next
  case (step_progress now tid update)
  then show ?thesis
    by (auto simp: progress_def moves_refl split: option.splits intro!: update_moves rs_progress)
qed (use assms(2) in \<open>auto simp: snapshot_def list_tasks_def has_active_def Let_def append_cleanup_error_def raise_signal_def
  case_prod_beta' intro: register_moves begin_moves cancel_moves finish_moves discard_moves restore_moves
  expire_moves update_moves rs_cleanup rs_signal simp del: expire_simps\<close>)

subsection \<open>What the steps of a record keep\<close>

inductive_cases record_stepE: "record_step r r'"

lemma executable_Inr:
  "executable input r = Inr u \<longleftrightarrow> status r = Ready \<and> execution r = None
     \<and> (\<exists>p. sn_preview (snap r) = Some p \<and> pv_fingerprint p = ex_fingerprint input \<and> pv_can_execute p
        \<and> (\<forall>k \<in> set (pv_risks p). required k \<longrightarrow> risk_id k \<in> set (accepted_risk_ids input)))"
  by (auto simp: executable_def split: if_splits option.splits)

lemma start_ok: "record_ok i r \<Longrightarrow> executable input r = Inr () \<Longrightarrow> record_ok i (start_record now input r)"
  by (auto simp: record_defs start_record_def executable_Inr)

lemma finish_ok: "record_ok i r \<Longrightarrow> is_terminal (res_status result) \<Longrightarrow> record_ok i (finish_record now result r)"
  by (auto simp: record_defs finish_record_def)

lemma record_step_ok: "record_step r r' \<Longrightarrow> record_ok i r \<Longrightarrow> record_ok i r'"
  by (induction rule: record_step.induct)
     (use keeps_expire keeps_ready keeps_cancel keeps_progress keeps_cleanup keeps_signal start_ok finish_ok
      in \<open>auto simp: keeps_def dest: progress_facts\<close>)

lemma record_steps_ok: "record_step\<^sup>*\<^sup>* r r' \<Longrightarrow> record_ok i r \<Longrightarrow> record_ok i r'"
  by (induction rule: rtranclp_induct) (auto dest: record_step_ok)

definition outcome :: "task_record \<Rightarrow> (data_commit_state \<times> data_table_preview list \<times> data_task_error option) option" where
  "outcome r = map_option (\<lambda>res. (res_commit_state res, res_tables res, res_error res)) (sn_result (snap r))"

lemma terminal_step:
  assumes "record_step r r'" "is_terminal (status r)"
  shows "status r' = status r" and "outcome r \<noteq> None \<Longrightarrow> outcome r' = outcome r"
  using assms
  by (auto elim!: record_stepE simp: is_expired_def executable_Inr progress_ignored_def cleanup_record_def
      outcome_def status_def Let_def)

lemma terminal_steps:
  assumes "record_step\<^sup>*\<^sup>* r r'" "is_terminal (status r)"
  shows "status r' = status r \<and> (outcome r \<noteq> None \<longrightarrow> outcome r' = outcome r)"
  using assms
proof (induction rule: rtranclp_induct)
  case (step q r')
  then show ?case using terminal_step [OF step.hyps(2)] by auto
qed simp

definition ending :: "task_record \<Rightarrow> bool" where
  "ending r \<longleftrightarrow> is_terminal (status r) \<or> status r = Cancelling"

lemma cancelled_step:
  assumes "record_step r r'" "record_ok i r" "cancel_flag r"
  shows "cancel_flag r' \<and> execution r' = execution r \<and> (ending r \<longrightarrow> ending r')"
  using assms
  by (auto elim!: record_stepE simp: record_ok_def in_work_def ending_def is_expired_def expire_record_def executable_Inr
      ready_record_def progress_record_def progress_ignored_def cleanup_record_def cancel_record_def finish_record_def
      status_def Let_def)

lemma cancelled_steps:
  assumes "record_step\<^sup>*\<^sup>* r r'" "record_ok i r" "cancel_flag r"
  shows "cancel_flag r' \<and> execution r' = execution r \<and> (ending r \<longrightarrow> ending r')"
  using assms
proof (induction rule: rtranclp_induct)
  case (step q r')
  have "record_ok i q" using record_steps_ok [OF step.hyps(1) step.prems(1)] .
  then show ?case using step cancelled_step [OF step.hyps(2)] by auto
qed simp

definition sequence_of :: "task_record \<Rightarrow> nat" where
  "sequence_of r = text_number (sn_sequence (snap r))"

lemma sequence_touch: "text_number (sn_sequence (touch now s)) = (text_number (sn_sequence s) + 1) mod 2 ^ 64"
  by (simp add: touch_def U64_MAX_def less_Suc_eq_le [symmetric])

lemma sequence_step:
  assumes "record_step r r'"
  shows "snap r' = snap r \<or> sequence_of r' = (sequence_of r + 1) mod 2 ^ 64"
  using assms
  by (elim record_stepE)
     (auto simp: expire_record_def ready_record_def start_record_def cancel_record_def progress_record_def
       finish_record_def cleanup_record_def sequence_of_def sequence_touch Let_def)

subsection \<open>Properties\<close>

text \<open>
  C14. At most one task writes: whatever operations are performed, in any order, the registry
  names as its writer exactly the one task that is executing, keeps one record per task id and
  never holds more than three open previews.
\<close>

theorem registry_single_writer:
  assumes "reachable_registry is_uuid reg"
  shows "(\<forall>i. writer reg = Some i \<longleftrightarrow> (\<exists>r. get_record i reg = Some r \<and> executing r))
    \<and> distinct (map fst (records reg))
    \<and> length (filter (\<lambda>(i, r). is_preview r) (records reg)) \<le> 3"
proof -
  have ok: "records_ok (writer reg) (records reg)"
    using reachable_registry_ok [OF assms] by (simp add: registry_ok_def)
  note d = records_okD [OF ok]
  have "writer reg = Some i \<longleftrightarrow> (\<exists>r. get_record i reg = Some r \<and> executing r)" for i
    using d(3,4) by (auto simp: get_record_iff [OF d(1)])
  then show ?thesis using d(1,5) by blast
qed

definition example_preview :: data_task_preview where
  "example_preview = \<lparr>pv_task_id = ''task'', pv_plan_id = ''plan'', pv_fingerprint = ''f'',
     pv_source = \<lparr>ep_connection = ''a'', ep_database = ''db''\<rparr>,
     pv_target = \<lparr>ep_connection = ''b'', ep_database = ''db''\<rparr>, pv_kind = Transfer, pv_mode = Replace,
     pv_tables = [], pv_source_captured_at = [], pv_target_captured_at = [], pv_expires_at = ''100'',
     pv_risks = [\<lparr>risk_id = ''r'', risk_message = [], required = True\<rparr>], pv_blockers = [],
     pv_can_execute = True, pv_sql_examples = []\<rparr>"

definition example_input :: execute_input where
  "example_input = \<lparr>ex_plan_id = ''plan'', ex_fingerprint = ''f'', ex_execution_id = ''u'', accepted_risk_ids = [''r'']\<rparr>"

definition ready_registry :: registry where
  "ready_registry = snd (set_ready 2 ''task'' example_preview (snd (register_preview 1 ''task'' sample_request empty_registry)))"

definition running_registry :: registry where
  "running_registry = snd (begin_execution (\<lambda>_. True) 3 example_input ready_registry)"

lemma ready_reachable: "reachable_registry (\<lambda>_. True) ready_registry"
  unfolding reachable_registry_def ready_registry_def
  by (rule rtranclp.rtrancl_into_rtrancl [OF r_into_rtranclp]) (rule step_register, rule step_ready)

lemma running_reachable: "reachable_registry (\<lambda>_. True) running_registry"
  using ready_reachable unfolding reachable_registry_def running_registry_def
  by (rule rtranclp.rtrancl_into_rtrancl) (rule step_begin)

theorem registry_single_writer_witness:
  "writer running_registry = Some ''task'' \<and> (\<exists>r. get_record ''task'' running_registry = Some r \<and> executing r)"
proof -
  have "writer running_registry = Some ''task''" by code_simp
  with registry_single_writer [OF running_reachable] show ?thesis by blast
qed

text \<open>
  C15. A write starts only from a preview that is still good: an execution starts only for a task
  that is ready and was not cancelled, whose preview has not expired, can be executed and has
  the fingerprint the user saw, with every required risk accepted and no other writer; the task
  is the writer afterwards.
\<close>

theorem begin_execution_guard:
  assumes "reachable_registry is_uuid reg"
    and "begin_execution is_uuid now input reg = (Inr (s, True, c), reg')"
  shows "\<not> c \<and> writer reg = None \<and> writer reg' = Some (sn_task_id s)
    \<and> (\<exists>r p. get_record (sn_task_id s) reg = Some r \<and> status r = Ready \<and> execution r = None
       \<and> sn_preview (snap r) = Some p \<and> pv_plan_id p = ex_plan_id input
       \<and> now < text_number (pv_expires_at p) \<and> pv_can_execute p \<and> pv_fingerprint p = ex_fingerprint input
       \<and> (\<forall>k \<in> set (pv_risks p). required k \<longrightarrow> risk_id k \<in> set (accepted_risk_ids input)))"
proof (cases rule: begin_execution_cases [of is_uuid now input reg])
  case (start tid r)
  have ok: "registry_ok reg" using assms(1) by (rule reachable_registry_ok)
  obtain q where q: "get_record tid reg = Some q" "r = expire_record now q" using start(3) by auto
  have live: "\<not> is_expired now q"
    using start(4) q(2) by (auto simp: expire_record_def executable_Inr status_def)
  then have r: "r = q" using q(2) by (simp add: expire_record_def)
  have rok: "record_ok tid r" using registry_ok_get [OF ok q(1)] r by simp
  obtain p where p: "status r = Ready" "execution r = None" "sn_preview (snap r) = Some p"
    "pv_fingerprint p = ex_fingerprint input" "pv_can_execute p"
    "\<forall>k \<in> set (pv_risks p). required k \<longrightarrow> risk_id k \<in> set (accepted_risk_ids input)"
    using start(4) by (auto simp: executable_Inr)
  have okx: "registry_ok (expire now reg)" using ok by (rule registry_ok_expire)
  obtain w where w: "(tid, w) \<in> set (records (expire now reg))" "plan_id w = Some (ex_plan_id input)
      \<or> (\<exists>e. execution w = Some e \<and> ex_plan_id e = ex_plan_id input)"
    using start(2) by (auto simp: find_plan_def find_Some_iff split: option.splits dest: nth_mem)
  have "w = r"
    using eq_key_imp_eq_value [OF records_okD(1) w(1) get_record_Some [OF start(3)]] okx
    by (simp add: registry_ok_def)
  with w(2) p(2) have "plan_id r = Some (ex_plan_id input)" by simp
  with rok p have "pv_plan_id p = ex_plan_id input" by (simp add: record_ok_def)
  moreover have "now < text_number (pv_expires_at p)" using live p r by (simp add: is_expired_def)
  moreover have "\<not> cancel_flag r" using rok p(1-3) by (auto simp: record_ok_def in_work_def)
  moreover have "sn_task_id (snap (start_record now input r)) = tid"
    using rok by (simp add: record_ok_def start_record_def)
  ultimately show ?thesis
    using assms(2) start(5,6) p q(1) r by (auto simp: update_record_records)
qed (use assms(2) in auto)


theorem begin_execution_guard_witness:
  "\<exists>p. (\<exists>r. get_record ''task'' ready_registry = Some r \<and> sn_preview (snap r) = Some p)
     \<and> pv_plan_id p = ''plan'' \<and> 3 < text_number (pv_expires_at p)"
proof -
  have "\<exists>s c. fst (begin_execution (\<lambda>_. True) 3 example_input ready_registry) = Inr (s, True, c) \<and> sn_task_id s = ''task''"
  proof -
    have "(case fst (begin_execution (\<lambda>_. True) 3 example_input ready_registry) of
        Inl _ \<Rightarrow> False | Inr (s, n, c) \<Rightarrow> n \<and> sn_task_id s = ''task'')" by code_simp
    then show ?thesis by (auto split: sum.splits)
  qed
  then obtain s c where run: "begin_execution (\<lambda>_. True) 3 example_input ready_registry = (Inr (s, True, c), running_registry)"
    and s: "sn_task_id s = ''task''"
    by (metis running_registry_def prod.collapse)
  show ?thesis
    using begin_execution_guard [OF ready_reachable run] s by (auto simp: example_input_def)
qed

text \<open>
  C16. Starting is idempotent: repeating the request that started an execution, at any later time,
  starts nothing; it returns the running task unchanged.
\<close>

theorem begin_execution_idempotent:
  assumes "registry_ok reg" and "begin_execution is_uuid now input reg = (Inr (s, True, c), reg')"
  shows "begin_execution is_uuid later input reg' = (Inr (s, False, c), expire later reg')
    \<and> writer (expire later reg') = writer reg'"
proof (cases rule: begin_execution_cases [of is_uuid now input reg])
  case (start tid r)
  let ?r = "start_record now input r"
  let ?base = "expire now reg\<lparr>writer := Some tid\<rparr>"
  have reg': "reg' = update_record tid (\<lambda>_. ?r) ?base" and s: "s = snap ?r" "c = cancel_flag r"
    using assms(2) start(6) by simp_all
  have ready: "status r = Ready" using start(4) by (simp add: executable_Inr)
  have live: "expire_record later ?r = ?r" by (simp add: expire_record_def is_expired_def status_def start_record_def)
  have other: "\<not> (case execution q of None \<Rightarrow> False | Some e \<Rightarrow> ex_execution_id e = ex_execution_id input)"
    if "(j, q) \<in> set (records (expire now reg))" for j q
    using start(1) that by (auto simp: find_execution_def find_None_iff)
  have same: "execution (expire_record later q) = execution q" for q by (simp add: expire_record_def)
  have recs: "records (expire later reg') = map (\<lambda>(j, q). (j, expire_record later (if j = tid then ?r else q))) (records (expire now reg))"
    by (auto simp: reg' update_record_records expire_def [of later])
  have mem: "(tid, r) \<in> set (records (expire now reg))" using start(3) by (rule get_record_Some)
  have hit: "execution ?r = Some input" by (simp add: start_record_def)
  have "find_execution (ex_execution_id input) (expire later reg') = Some ?r"
  proof (rule ccontr)
    let ?p = "\<lambda>(i, r). case execution r of None \<Rightarrow> False | Some e \<Rightarrow> ex_execution_id e = ex_execution_id input"
    assume no: "\<not> ?thesis"
    have "(tid, ?r) \<in> set (records (expire later reg'))" using mem live unfolding recs by force
    then have "List.find ?p (records (expire later reg')) \<noteq> None"
      using hit unfolding find_None_iff by force
    then obtain j q where q: "List.find ?p (records (expire later reg')) = Some (j, q)" by auto
    then have "(j, q) \<in> set (records (expire later reg'))" and pq: "?p (j, q)"
      by (auto simp: find_Some_iff dest: nth_mem)
    then obtain q0 where q0: "(j, q0) \<in> set (records (expire now reg))" "q = expire_record later (if j = tid then ?r else q0)"
      unfolding recs by auto
    have "j = tid" using pq q0 other [OF q0(1)] same by (cases "j = tid") auto
    with q0 live have "q = ?r" by simp
    with q no show False by (simp add: find_execution_def)
  qed
  then show ?thesis
    using hit start(7) s by (simp add: begin_execution_def Let_def) (simp add: start_record_def)
qed (use assms(2) in auto)

theorem begin_execution_idempotent_witness:
  "writer (snd (begin_execution (\<lambda>_. True) 99 example_input running_registry)) = Some ''task''"
proof -
  have "(case fst (begin_execution (\<lambda>_. True) 3 example_input ready_registry) of
      Inl _ \<Rightarrow> False | Inr (s, n, c) \<Rightarrow> n)" by code_simp
  then obtain s c where run: "begin_execution (\<lambda>_. True) 3 example_input ready_registry = (Inr (s, True, c), running_registry)"
    unfolding running_registry_def by (cases "begin_execution (\<lambda>_. True) 3 example_input ready_registry") (auto split: sum.splits)
  have "writer running_registry = Some ''task''" by code_simp
  then show ?thesis
    using begin_execution_idempotent [OF reachable_registry_ok [OF ready_reachable] run, of 99] by simp
qed

text \<open>
  C17. What has been reported stays: no operation changes the status of a finished task or the
  commit state, tables and error of its result; only cleanup errors are added.
\<close>

theorem finished_is_final:
  assumes "reachable_registry is_uuid reg" and "registry_step is_uuid reg reg'"
    and "get_record i reg = Some r" and "is_terminal (status r)" and "get_record i reg' = Some r'"
  shows "status r' = status r \<and> (outcome r \<noteq> None \<longrightarrow> outcome r' = outcome r)"
proof -
  have "moves (get_record i reg) (get_record i reg')"
    using assms(2) reachable_registry_ok [OF assms(1)] by (rule registry_step_moves)
  then show ?thesis using assms(3-5) terminal_steps by (simp add: moves_def)
qed

definition failure_example :: data_task_result where
  "failure_example = \<lparr>res_status = Failed, res_commit_state = RolledBack, res_tables = [], res_error = None,
     cleanup_errors = [], requires_target_refresh = False\<rparr>"

definition failed_registry :: registry where
  "failed_registry = snd (finish 4 ''task'' failure_example running_registry)"

lemma failed_reachable: "reachable_registry (\<lambda>_. True) failed_registry"
  using running_reachable unfolding reachable_registry_def failed_registry_def
  by (rule rtranclp.rtrancl_into_rtrancl) (rule step_finish)

theorem finished_is_final_witness:
  "\<exists>r'. get_record ''task'' (snd (cancel 5 ''task'' failed_registry)) = Some r' \<and> status r' = Failed"
proof -
  have "(case get_record ''task'' failed_registry of None \<Rightarrow> False | Some r \<Rightarrow> status r = Failed)"
    and "(case get_record ''task'' (snd (cancel 5 ''task'' failed_registry)) of None \<Rightarrow> False | Some r \<Rightarrow> True)"
    by code_simp+
  then obtain r r' where r: "get_record ''task'' failed_registry = Some r" "status r = Failed"
    "get_record ''task'' (snd (cancel 5 ''task'' failed_registry)) = Some r'" by (auto split: option.splits)
  then show ?thesis
    using finished_is_final [OF failed_reachable step_cancel r(1) _ r(3)] by auto
qed

text \<open>
  C18. A cancellation holds: once a task has been told to cancel, no operation clears the signal
  or starts an execution of it, and once it is cancelling or has ended, no report of its worker
  moves it anywhere but to an end.
\<close>

theorem cancellation_holds:
  assumes "reachable_registry is_uuid reg" and "registry_step is_uuid reg reg'"
    and "get_record i reg = Some r" and "cancel_flag r" and "get_record i reg' = Some r'"
  shows "cancel_flag r' \<and> execution r' = execution r
    \<and> (is_terminal (status r) \<or> status r = Cancelling \<longrightarrow> is_terminal (status r') \<or> status r' = Cancelling)"
proof -
  have ok: "registry_ok reg" using assms(1) by (rule reachable_registry_ok)
  have "record_ok i r" using registry_ok_get [OF ok assms(3)] .
  moreover have "moves (get_record i reg) (get_record i reg')"
    using assms(2) ok by (rule registry_step_moves)
  ultimately show ?thesis
    using assms(3-5) cancelled_steps unfolding ending_def [symmetric] by (auto simp: moves_def)
qed

definition cancelling_registry :: registry where
  "cancelling_registry = snd (cancel 4 ''task'' running_registry)"

lemma cancelling_reachable: "reachable_registry (\<lambda>_. True) cancelling_registry"
  using running_reachable unfolding reachable_registry_def cancelling_registry_def
  by (rule rtranclp.rtrancl_into_rtrancl) (rule step_cancel)

theorem cancellation_holds_witness:
  "\<exists>r'. get_record ''task'' (progress 5 ''task'' \<lparr>up_status = Committing, up_read_rows = 0, up_written_rows = 0,
       up_verified_rows = 0, up_bytes = 0\<rparr> cancelling_registry) = Some r' \<and> cancel_flag r'"
proof -
  let ?u = "\<lparr>up_status = Committing, up_read_rows = 0, up_written_rows = 0, up_verified_rows = 0, up_bytes = 0\<rparr>"
  let ?reg = "progress 5 ''task'' ?u cancelling_registry"
  have "(case get_record ''task'' cancelling_registry of None \<Rightarrow> False | Some r \<Rightarrow> cancel_flag r)"
    and "(case get_record ''task'' ?reg of None \<Rightarrow> False | Some r \<Rightarrow> True)"
    by code_simp+
  then obtain r r' where r: "get_record ''task'' cancelling_registry = Some r" "cancel_flag r"
    "get_record ''task'' ?reg = Some r'" by (auto split: option.splits)
  then show ?thesis using cancellation_holds [OF cancelling_reachable step_progress r] by auto
qed

end
