(* ===== verification/History.thy ===== *)
theory History
  imports Registry
begin

text \<open>
  The history of data tasks on disk (\<open>src-tauri/src/db/data\_tasks/history.rs\<close>): what is kept
  of a task, how the file is replaced and what a task that was interrupted becomes when the
  history is read at the next start.
\<close>

subsection \<open>What is kept\<close>

definition history_error :: data_task_error where
  "history_error = task_error ''history_unavailable'' ''the history cannot be read or written''"

definition summary_result :: "data_task_result \<Rightarrow> data_task_result" where
  "summary_result res = res\<lparr>
     res_error := map_option (\<lambda>e. e\<lparr>err_message := ''the task did not finish''\<rparr>) (res_error res),
     cleanup_errors := map (\<lambda>_. ''cleanup failed'') (cleanup_errors res)\<rparr>"

definition summary :: "data_task_snapshot \<Rightarrow> data_task_snapshot" where
  "summary s = s\<lparr>sn_preview := None,
     sn_request := (sn_request s)\<lparr>mappings := map (\<lambda>m. m\<lparr>columns := []\<rparr>) (mappings (sn_request s))\<rparr>,
     sn_result := map_option summary_result (sn_result s)\<rparr>"

subsection \<open>The file\<close>

text \<open>
  The file as \<open>symlink\_metadata\<close> sees it: missing, not to be examined, something other than
  a regular file, or a regular file with its bytes.
\<close>

datatype history_file = Missing | Unexaminable | Irregular | Regular bytes

definition MAX_HISTORY_BYTES :: nat where
  "MAX_HISTORY_BYTES = 2 * 1024 * 1024"

definition history_items :: "data_task_snapshot list \<Rightarrow> data_task_snapshot list" where
  "history_items snapshots =
     take 100 (sort_key (\<lambda>s. - int (text_number (sn_updated_at s))) (map summary snapshots))"

text \<open>
  \<open>to_vec\<close> and \<open>from_slice\<close> stand for the JSON encoder and decoder of the \<open>serde\_json\<close>
  package; the booleans say whether creating, writing and renaming the temporary file
  succeed. The file is only replaced by the rename.
\<close>

definition save_history ::
    "(data_task_snapshot list \<Rightarrow> bytes option) \<Rightarrow> bool \<times> bool \<times> bool \<Rightarrow> data_task_snapshot list
       \<Rightarrow> history_file \<Rightarrow> unit task_result \<times> history_file" where
  "save_history to_vec io snapshots file =
     (if file = Irregular then (Inl history_error, file)
      else (case to_vec (history_items snapshots) of
          None \<Rightarrow> (Inl history_error, file)
        | Some bs \<Rightarrow>
            if MAX_HISTORY_BYTES < length bs then (Inl history_error, file)
            else (case io of (created, wrote, renamed) \<Rightarrow>
              if created \<and> wrote \<and> renamed then (Inr (), Regular bs)
              else (Inl history_error, file))))"

subsection \<open>Recovery\<close>

definition recovered_tables :: "table_mapping list \<Rightarrow> data_table_preview list" where
  "recovered_tables ms = map (\<lambda>(i, m). \<lparr>table_id = nat_to_string i, tp_source_table = source_table m,
     tp_target_table = target_table m, tp_counts = default_counts\<rparr>) (enumerate 0 ms)"

definition recover :: "data_task_snapshot \<Rightarrow> data_task_snapshot" where
  "recover s =
     (if is_terminal (sn_status s) then s\<lparr>sn_preview := None\<rparr>
      else (let unknown = (sn_execution_id s \<noteq> None);
                st = (if unknown then OutcomeUnknown else Interrupted)
        in s\<lparr>sn_preview := None, sn_status := st,
          sn_result := Some \<lparr>res_status = st,
            res_commit_state = (if unknown then CommitUnknown else CommitNone),
            res_tables = recovered_tables (mappings (sn_request s)),
            res_error = Some (if unknown
              then task_error ''outcome_unknown'' ''the outcome was not confirmed, check the target''
              else task_error ''interrupted'' ''the preview was interrupted''),
            cleanup_errors = [], requires_target_refresh = unknown\<rparr>,
          sn_sequence := nat_to_string ((text_number (sn_sequence s) + 1) mod 2 ^ 64)\<rparr>))"

definition load_history ::
    "(bytes \<Rightarrow> data_task_snapshot list option) \<Rightarrow> history_file \<Rightarrow> data_task_snapshot list task_result" where
  "load_history from_slice file =
     (case file of
        Missing \<Rightarrow> Inr []
      | Unexaminable \<Rightarrow> Inl history_error
      | Irregular \<Rightarrow> Inl history_error
      | Regular bs \<Rightarrow>
          if MAX_HISTORY_BYTES < length bs then Inl history_error
          else (case from_slice bs of
              None \<Rightarrow> Inl history_error
            | Some items \<Rightarrow> Inr (map recover (take 100 items))))"

lemma recover_terminal: "is_terminal (sn_status (recover s)) \<and> sn_preview (recover s) = None"
  by (simp add: recover_def Let_def)

lemma load_history_Inr:
  assumes "load_history from_slice file = Inr items"
  shows "length items \<le> 100 \<and> (\<forall>s \<in> set items. \<exists>q. s = recover q)"
  using assms by (auto simp: load_history_def split: history_file.splits if_splits option.splits)

lemma recover_preview: "recover (s\<lparr>sn_preview := p\<rparr>) = recover s"
  by (simp add: recover_def Let_def)

subsection \<open>Properties\<close>

text \<open>
  C19. Nothing in the history is ever resumed: every task read from it is finished and has no
  preview. A task that was still running is reported with an unknown outcome and a target to be
  refreshed, one that was only a preview as interrupted, and a finished one as it was.
\<close>

theorem load_history_finished:
  assumes "load_history from_slice (Regular bs) = Inr items"
  shows "\<exists>saved. from_slice bs = Some saved \<and> length items \<le> 100
    \<and> list_all2 (\<lambda>q s. is_terminal (sn_status s) \<and> sn_preview s = None \<and> sn_task_id s = sn_task_id q
        \<and> (if is_terminal (sn_status q) then sn_status s = sn_status q \<and> sn_result s = sn_result q
           else if sn_execution_id q \<noteq> None
           then sn_status s = OutcomeUnknown
             \<and> (\<exists>res. sn_result s = Some res \<and> res_commit_state res = CommitUnknown \<and> requires_target_refresh res)
           else sn_status s = Interrupted
             \<and> (\<exists>res. sn_result s = Some res \<and> res_commit_state res = CommitNone)))
      (take 100 saved) items"
proof -
  obtain saved where saved: "from_slice bs = Some saved" "items = map recover (take 100 saved)"
    using assms by (auto simp: load_history_def split: if_splits option.splits)
  show ?thesis
    unfolding saved(2)
    by (intro exI [of _ saved]) (auto simp: saved(1) list_all2_map2 list.rel_refl_strong recover_def Let_def intro!: list_all2_refl)
qed

definition interrupted_snapshot :: data_task_snapshot where
  "interrupted_snapshot = (new_snapshot 1 ''task'' sample_request False)\<lparr>sn_status := Committing, sn_execution_id := Some ''u''\<rparr>"

theorem load_history_finished_witness:
  "\<exists>s. load_history (\<lambda>_. Some [interrupted_snapshot]) (Regular []) = Inr [s] \<and> sn_status s = OutcomeUnknown"
proof -
  have run: "load_history (\<lambda>_. Some [interrupted_snapshot]) (Regular []) = Inr [recover interrupted_snapshot]"
    by (simp add: load_history_def)
  have "sn_status (recover interrupted_snapshot) = OutcomeUnknown"
    using load_history_finished [OF run] by (simp add: interrupted_snapshot_def)
  with run show ?thesis by blast
qed

text \<open>
  C20. A saved history is read back: when saving succeeds and the JSON decoder inverts the encoder,
  reading yields the summaries of the hundred most recently updated tasks, recovered; when saving
  fails the file is the one that was there.
\<close>

theorem save_then_load:
  assumes "\<And>xs bs. to_vec xs = Some bs \<Longrightarrow> from_slice bs = Some xs"
  shows "case save_history to_vec io snapshots stored of
      (Inr _, file') \<Rightarrow> load_history from_slice file' = Inr (map recover (history_items snapshots))
    | (Inl _, file') \<Rightarrow> file' = stored"
  using assms
  by (auto simp: save_history_def load_history_def history_items_def split: option.splits prod.splits)

definition example_to_vec :: "data_task_snapshot list \<Rightarrow> bytes option" where
  "example_to_vec xs = (if xs = [] then Some [1] else None)"

definition example_from_slice :: "bytes \<Rightarrow> data_task_snapshot list option" where
  "example_from_slice bs = Some []"

theorem save_then_load_witness:
  "load_history example_from_slice (snd (save_history example_to_vec (True, True, True) [] Missing)) = Inr []"
proof -
  have "\<And>xs bs. example_to_vec xs = Some bs \<Longrightarrow> example_from_slice bs = Some xs"
    by (simp add: example_to_vec_def example_from_slice_def split: if_splits)
  from save_then_load [where to_vec = example_to_vec and from_slice = example_from_slice
      and io = "(True, True, True)" and snapshots = "[]" and stored = Missing, OF this]
  show ?thesis by (simp add: save_history_def history_items_def MAX_HISTORY_BYTES_def example_to_vec_def)
qed

text \<open>What of a result and of a request reaches the history.\<close>

definition public_result :: "data_task_result \<Rightarrow> data_task_status \<times> data_commit_state \<times> data_table_preview list
    \<times> string option \<times> nat \<times> bool" where
  "public_result res = (res_status res, res_commit_state res, res_tables res, map_option err_code (res_error res),
     length (cleanup_errors res), requires_target_refresh res)"

definition public_request :: "data_task_request \<Rightarrow> nat \<times> data_task_kind \<times> data_endpoint \<times> data_endpoint
    \<times> (string \<times> string) list \<times> data_task_mode" where
  "public_request q = (protocol_version q, req_kind q, req_source q, req_target q,
     map (\<lambda>m. (source_table m, target_table m)) (mappings q), req_mode q)"

lemma map_const_eq: "map (\<lambda>_. c) xs = map (\<lambda>_. c) ys \<longleftrightarrow> length xs = length ys"
  by (auto simp: map_replicate_const)

lemma summary_result_public: "public_result a = public_result b \<Longrightarrow> summary_result a = summary_result b"
  by (cases "res_error a"; cases "res_error b")
     (auto simp: public_result_def summary_result_def map_const_eq intro!: data_task_result.equality data_task_error.equality)

lemma mappings_public:
  "map (\<lambda>m. (source_table m, target_table m)) xs = map (\<lambda>m. (source_table m, target_table m)) ys \<Longrightarrow>
     map (\<lambda>m :: table_mapping. m\<lparr>columns := []\<rparr>) xs = map (\<lambda>m. m\<lparr>columns := []\<rparr>) ys"
proof (induction xs arbitrary: ys)
  case (Cons x xs)
  then obtain y zs where "ys = y # zs" by (cases ys) auto
  with Cons show ?case by (auto intro!: table_mapping.equality)
qed simp

text \<open>
  C21. The history holds no row data: what is saved of a task does not depend on its preview, on the
  columns of its mapping, on the text of its error or on the texts of its cleanup errors.
\<close>

theorem summary_private:
  assumes "public_request q = public_request (sn_request s)"
    and "map_option public_result res = map_option public_result (sn_result s)"
  shows "summary (s\<lparr>sn_preview := p, sn_request := q, sn_result := res\<rparr>) = summary s"
proof -
  have "map_option summary_result res = map_option summary_result (sn_result s)"
  proof (cases res)
    case None
    then show ?thesis using assms(2) by simp
  next
    case (Some a)
    then obtain b where b: "sn_result s = Some b" "public_result a = public_result b"
      using assms(2) by (cases "sn_result s") auto
    show ?thesis using summary_result_public [OF b(2)] by (simp add: Some b(1))
  qed
  moreover have "q\<lparr>mappings := map (\<lambda>m. m\<lparr>columns := []\<rparr>) (mappings q)\<rparr>
      = (sn_request s)\<lparr>mappings := map (\<lambda>m. m\<lparr>columns := []\<rparr>) (mappings (sn_request s))\<rparr>"
  proof (cases q; cases "sn_request s")
    fix a b c d e f a' b' c' d' e' f'
    assume eq: "q = \<lparr>protocol_version = a, req_kind = b, req_source = c, req_target = d, mappings = e, req_mode = f\<rparr>"
      "sn_request s = \<lparr>protocol_version = a', req_kind = b', req_source = c', req_target = d', mappings = e', req_mode = f'\<rparr>"
    with assms(1) have same: "a = a'" "b = b'" "c = c'" "d = d'" "f = f'"
      and m: "map (\<lambda>m. (source_table m, target_table m)) e = map (\<lambda>m. (source_table m, target_table m)) e'"
      by (simp_all add: public_request_def)
    show ?thesis unfolding eq using mappings_public [OF m] same by simp
  qed
  ultimately show ?thesis by (simp add: summary_def)
qed

theorem summary_private_witness:
  "summary (interrupted_snapshot\<lparr>sn_preview := Some example_preview, sn_request := sample_request,
     sn_result := None\<rparr>) = summary interrupted_snapshot"
  by (rule summary_private) (simp_all add: interrupted_snapshot_def new_snapshot_def)

end
