(* ===== verification/Actions.thy ===== *)
theory Actions
  imports Rust_Prelude
begin

text \<open>
  Code that can fail and changes state: an \<open>action\<close> takes a state and returns a result and the
  state after it, also when it fails. The question mark operator is \<open>abind\<close>. What an action
  achieves is stated as a weakest precondition over both of its exits, and the rules for \<open>wp\<close>
  turn a goal about a composed action into one about its parts.
\<close>

named_theorems wp_simps \<open>weakest preconditions of the control structures\<close>

type_synonym ('e, 's, 'a) fallible = "'s \<Rightarrow> ('e + 'a) \<times> 's"

type_synonym ('s, 'a) action = "(err, 's, 'a) fallible"

definition areturn :: "'a \<Rightarrow> ('e, 's, 'a) fallible" where
  "areturn x s = (Inr x, s)"

definition afail :: "'e \<Rightarrow> ('e, 's, 'a) fallible" where
  "afail e s = (Inl e, s)"

definition abind :: "('e, 's, 'a) fallible \<Rightarrow> ('a \<Rightarrow> ('e, 's, 'b) fallible) \<Rightarrow> ('e, 's, 'b) fallible" where
  "abind m f s = (case m s of (Inl e, t) \<Rightarrow> (Inl e, t) | (Inr x, t) \<Rightarrow> f x t)"

definition alift :: "'e + 'a \<Rightarrow> ('e, 's, 'a) fallible" where
  "alift r s = (r, s)"

definition amodify :: "('s \<Rightarrow> 's) \<Rightarrow> ('e, 's, unit) fallible" where
  "amodify f s = (Inr (), f s)"

definition aget :: "('s \<Rightarrow> 'a) \<Rightarrow> ('e, 's, 'a) fallible" where
  "aget f s = (Inr (f s), s)"

definition aguard :: "bool \<Rightarrow> 'e \<Rightarrow> ('e, 's, unit) fallible" where
  "aguard ok e s = (if ok then Inr () else Inl e, s)"

text \<open>An action on a part of a pair.\<close>

definition on_snd :: "('e, 's, 'a) fallible \<Rightarrow> ('e, 'w \<times> 's, 'a) fallible" where
  "on_snd m ws = (case m (snd ws) of (r, s) \<Rightarrow> (r, (fst ws, s)))"

text \<open>A destructor runs at the end of a block, however the block ends.\<close>

definition afinally :: "('e, 's, 'a) fallible \<Rightarrow> ('s \<Rightarrow> 's) \<Rightarrow> ('e, 's, 'a) fallible" where
  "afinally m f s = (case m s of (r, t) \<Rightarrow> (r, f t))"

lemma abind_cong [fundef_cong]:
  assumes "s = s'" and "m s' = m' s'" and "\<And>x t. m' s' = (Inr x, t) \<Longrightarrow> f x t = g x t"
  shows "abind m f s = abind m' g s'"
  using assms by (auto simp: abind_def split: prod.splits sum.splits)

definition wp :: "('e, 's, 'a) fallible \<Rightarrow> ('a \<Rightarrow> 's \<Rightarrow> bool) \<Rightarrow> ('e \<Rightarrow> 's \<Rightarrow> bool) \<Rightarrow> 's \<Rightarrow> bool" where
  "wp m Q E s = (case m s of (Inl e, t) \<Rightarrow> E e t | (Inr x, t) \<Rightarrow> Q x t)"

lemma wp_areturn [wp_simps]: "wp (areturn x) Q E s = Q x s"
  by (simp add: wp_def areturn_def)

lemma wp_afail [wp_simps]: "wp (afail e) Q E s = E e s"
  by (simp add: wp_def afail_def)

lemma wp_alift [wp_simps]: "wp (alift r) Q E s = (case r of Inl e \<Rightarrow> E e s | Inr x \<Rightarrow> Q x s)"
  by (simp add: wp_def alift_def)

lemma wp_amodify [wp_simps]: "wp (amodify f) Q E s = Q () (f s)"
  by (simp add: wp_def amodify_def)

lemma wp_aget [wp_simps]: "wp (aget f) Q E s = Q (f s) s"
  by (simp add: wp_def aget_def)

lemma wp_aguard [wp_simps]: "wp (aguard ok e) Q E s = (if ok then Q () s else E e s)"
  by (simp add: wp_def aguard_def)

lemma wp_abind [wp_simps]: "wp (abind m f) Q E s = wp m (\<lambda>x. wp (f x) Q E) E s"
  by (simp add: wp_def abind_def split: prod.splits sum.splits)

lemma wp_if [wp_simps]: "wp (if b then m else n) Q E s = (if b then wp m Q E s else wp n Q E s)"
  by simp

lemma wp_on_snd [wp_simps]: "wp (on_snd m) Q E ws = wp m (\<lambda>x s. Q x (fst ws, s)) (\<lambda>e s. E e (fst ws, s)) (snd ws)"
  by (simp add: wp_def on_snd_def split: prod.splits sum.splits)

lemma wp_mono:
  assumes "wp m Q E s" and "\<And>x t. Q x t \<Longrightarrow> Q' x t" and "\<And>e t. E e t \<Longrightarrow> E' e t"
  shows "wp m Q' E' s"
  using assms by (auto simp: wp_def split: prod.splits sum.splits)

lemma wp_conj: "wp m Q E s \<Longrightarrow> wp m Q' E' s \<Longrightarrow> wp m (\<lambda>x t. Q x t \<and> Q' x t) (\<lambda>e t. E e t \<and> E' e t) s"
  by (auto simp: wp_def split: prod.splits sum.splits)

lemma wp_Inr: "wp m Q E s \<Longrightarrow> m s = (Inr x, t) \<Longrightarrow> Q x t"
  by (simp add: wp_def)

lemma wp_Inl: "wp m Q E s \<Longrightarrow> m s = (Inl e, t) \<Longrightarrow> E e t"
  by (simp add: wp_def)

text \<open>An action that is known to return.\<close>

lemma wp_returns: "wp m Q (\<lambda>_ _. False) s \<Longrightarrow> \<exists>x t. m s = (Inr x, t) \<and> Q x t"
  by (auto simp: wp_def split: prod.splits sum.splits)

lemma wpI: "(\<And>x t. m s = (Inr x, t) \<Longrightarrow> Q x t) \<Longrightarrow> (\<And>e t. m s = (Inl e, t) \<Longrightarrow> E e t) \<Longrightarrow> wp m Q E s"
  by (auto simp: wp_def split: prod.splits sum.splits)

text \<open>What a successful run tells about the parts of an action.\<close>

named_theorems run_simps \<open>successful runs of the control structures\<close>

lemma abind_Inr [run_simps]:
  "abind m f s = (Inr y, t) \<longleftrightarrow> (\<exists>x u. m s = (Inr x, u) \<and> f x u = (Inr y, t))"
  by (auto simp: abind_def split: prod.splits sum.splits)

lemma areturn_run [run_simps]: "areturn x s = (r, t) \<longleftrightarrow> r = Inr x \<and> t = s"
  by (auto simp: areturn_def)

lemma afail_run [run_simps]: "afail e s = (r, t) \<longleftrightarrow> r = Inl e \<and> t = s"
  by (auto simp: afail_def)

lemma alift_run [run_simps]: "alift r s = (r', t) \<longleftrightarrow> r = r' \<and> t = s"
  by (auto simp: alift_def)

lemma amodify_run [run_simps]: "amodify f s = (r, t) \<longleftrightarrow> r = Inr () \<and> t = f s"
  by (auto simp: amodify_def)

lemma aget_run [run_simps]: "aget f s = (r, t) \<longleftrightarrow> r = Inr (f s) \<and> t = s"
  by (auto simp: aget_def)

lemma aguard_run [run_simps]: "aguard b e s = (Inr u, t) \<longleftrightarrow> b \<and> t = s"
  by (auto simp: aguard_def)

lemma on_snd_run [run_simps]: "on_snd m ws = (r, vt) \<longleftrightarrow> (\<exists>t. m (snd ws) = (r, t) \<and> vt = (fst ws, t))"
  by (auto simp: on_snd_def split: prod.splits)

lemma afinally_run [run_simps]: "afinally m f s = (r, t) \<longleftrightarrow> (\<exists>u. m s = (r, u) \<and> t = f u)"
  by (auto simp: afinally_def split: prod.splits)

lemma ok_or_Inr [run_simps]: "ok_or e m = Inr x \<longleftrightarrow> m = Some x"
  by (cases m) auto

lemma split_run [run_simps]:
  "(case p of (a, b) \<Rightarrow> f a b) s = (r, t) \<longleftrightarrow> (\<exists>a b. p = (a, b) \<and> f a b s = (r, t))"
  by (cases p) auto

lemma if_run [run_simps]: "(if b then m else n) s = (r, t) \<longleftrightarrow> (if b then m s = (r, t) else n s = (r, t))"
  by simp

subsection \<open>Evaluation\<close>

text \<open>
  An action that is run is evaluated from its first step on; the steps after it are looked at only
  when they are reached. The theories add the equations of their actions with the state they run on.
\<close>

lemma apply_case_prod [code_unfold]: "case_prod g x s = (case x of (a, b) \<Rightarrow> g a b s)"
  by (cases x) simp

lemma apply_if [code_unfold]: "(if b then m else n) s = (if b then m s else n s)"
  by simp

lemma apply_option [code_unfold]: "case_option m g x s = (case x of None \<Rightarrow> m s | Some a \<Rightarrow> g a s)"
  by (cases x) simp_all

lemma apply_sum [code_unfold]: "case_sum f g x s = (case x of Inl a \<Rightarrow> f a s | Inr b \<Rightarrow> g b s)"
  by (cases x) simp_all

lemma apply_let [code_unfold]: "Let x f s = (let a = x in f a s)"
  by simp

declare abind_def [code_unfold] afinally_def [code_unfold] on_snd_def [code_unfold]

end
