(* ===== verification/Spool.thy ===== *)
theory Spool
  imports Data_Value Actions
begin

text \<open>
  The encrypted snapshot files of a data task (\<open>src-tauri/src/db/data\_tasks/spool.rs\<close>): the
  resource budget, the writer, the handle, the cursor and the external merge sort.

  Everything runs over the shared counters \<open>resources\<close>. The cipher, the hash, the random bytes,
  the clock and the outcome of each call of the file system are given by an environment, and the
  cancellation flag, which is never cleared, reads true from some poll on. A file is the list of
  its bytes. What Rust frees at the end of a scope is freed here by \<open>with_memory\<close>, \<open>or_drop\<close> and
  \<open>drop_spool\<close>, on success and on error alike.
\<close>

subsection \<open>Budget and counters\<close>

definition SPOOL_ERROR :: err where
  "SPOOL_ERROR = ''resource_limit: the encrypted snapshot cannot be read, written or verified''"

record budget =
  max_row_bytes :: nat
  memory_bytes :: nat
  sort_run_bytes :: nat
  disk_bytes :: nat

definition default_budget :: budget where
  "default_budget = \<lparr>max_row_bytes = 8 * 1024 * 1024, memory_bytes = 64 * 1024 * 1024,
     sort_run_bytes = 16 * 1024 * 1024, disk_bytes = 5 * 1024 * 1024 * 1024\<rparr>"

record resources =
  disk_used :: nat
  memory_used :: nat
  disk_peak :: nat
  memory_peak :: nat
  stop_at :: "nat option"
  polls :: nat
  io_calls :: nat
  draws :: nat

definition new_resources :: "nat option \<Rightarrow> resources" where
  "new_resources stop = \<lparr>disk_used = 0, memory_used = 0, disk_peak = 0, memory_peak = 0,
     stop_at = stop, polls = 0, io_calls = 0, draws = 0\<rparr>"

text \<open>
  \<open>seal\<close> and \<open>unseal\<close> are the in-place encryption and decryption of AES-256-GCM, given the key,
  the nonce, the associated data and the text; \<open>digest\<close> is SHA-256 in hexadecimal; \<open>draw\<close> the
  key and prefix of the n-th writer; \<open>io_ok\<close> the outcome of the n-th file system call.
\<close>

record spool_env =
  seal :: "bytes \<Rightarrow> bytes \<Rightarrow> bytes \<Rightarrow> bytes \<Rightarrow> bytes option"
  unseal :: "bytes \<Rightarrow> bytes \<Rightarrow> bytes \<Rightarrow> bytes \<Rightarrow> bytes option"
  digest :: "bytes \<Rightarrow> string"
  draw :: "nat \<Rightarrow> bytes \<times> bytes"
  io_ok :: "nat \<Rightarrow> bool"
  clock :: "nat \<Rightarrow> nat"
  mem_size :: "canonical_row \<Rightarrow> nat"

type_synonym 'a task_action = "(resources, 'a) action"

definition check :: "unit task_action" where
  "check st = (if (case stop_at st of None \<Rightarrow> False | Some n \<Rightarrow> n \<le> polls st)
     then Inl ''cancelled: the snapshot was cancelled'' else Inr (), st\<lparr>polls := polls st + 1\<rparr>)"

definition io_call :: "spool_env \<Rightarrow> unit task_action" where
  "io_call env st = (if io_ok env (io_calls st) then Inr () else Inl SPOOL_ERROR,
     st\<lparr>io_calls := io_calls st + 1\<rparr>)"

definition reserve_memory :: "budget \<Rightarrow> nat \<Rightarrow> nat task_action" where
  "reserve_memory b n = abind check (\<lambda>_ st.
     if memory_used st + n \<le> U64_MAX \<and> memory_used st + n \<le> memory_bytes b
     then (Inr n, st\<lparr>memory_used := memory_used st + n,
       memory_peak := max (memory_peak st) (memory_used st + n)\<rparr>)
     else (Inl ''resource_limit: the task exceeds the shared memory budget'', st))"

definition drop_lease :: "nat \<Rightarrow> resources \<Rightarrow> resources" where
  "drop_lease n st = st\<lparr>memory_used := memory_used st - n\<rparr>"

definition reserve :: "budget \<Rightarrow> nat \<Rightarrow> unit task_action" where
  "reserve b n = abind check (\<lambda>_ st.
     if disk_used st + n \<le> U64_MAX \<and> disk_used st + n \<le> disk_bytes b
     then (Inr (), st\<lparr>disk_used := disk_used st + n, disk_peak := max (disk_peak st) (disk_used st + n)\<rparr>)
     else (Inl ''resource_limit: the temporary data exceeds the disk quota'', st))"

text \<open>A lease that lives as long as the block.\<close>

definition with_memory :: "budget \<Rightarrow> nat \<Rightarrow> 'a task_action \<Rightarrow> 'a task_action" where
  "with_memory b n m = abind (reserve_memory b n) (\<lambda>lease. afinally m (drop_lease lease))"

subsection \<open>Files, writers, handles and cursors\<close>

record spool_inner =
  sp_key :: bytes
  sp_prefix :: bytes
  sp_budget :: budget
  sp_bytes :: nat
  sp_data_bytes :: nat
  sp_rows :: nat
  sp_captured :: nat

definition drop_spool :: "spool_inner \<Rightarrow> resources \<Rightarrow> resources" where
  "drop_spool inner st = st\<lparr>disk_used := disk_used st - sp_bytes inner\<rparr>"

text \<open>An owned spool is dropped when the code after it returns early.\<close>

definition or_drop :: "spool_inner list \<Rightarrow> 'a task_action \<Rightarrow> 'a task_action" where
  "or_drop owned m st = (case m st of (Inl e, t) \<Rightarrow> (Inl e, fold drop_spool owned t) | (Inr x, t) \<Rightarrow> (Inr x, t))"

record spool_writer =
  w_file :: bytes
  w_index :: bytes
  w_inner :: spool_inner
  w_failed :: bool

record spool_handle =
  h_inner :: spool_inner
  h_file :: bytes
  h_index :: bytes

record spool_cursor =
  c_handle :: spool_handle
  c_rest :: bytes
  c_index :: nat

record sorted_spool =
  so_spool :: spool_handle
  so_digest :: string

definition data_nonce :: "spool_inner \<Rightarrow> nat \<Rightarrow> bytes" where
  "data_nonce inner i = sp_prefix inner @ be_bytes 8 i"

fun flip_top :: "bytes \<Rightarrow> bytes" where
  "flip_top [] = []"
| "flip_top (b # bs) = xor b 0x80 # bs"

definition index_nonce :: "spool_inner \<Rightarrow> nat \<Rightarrow> bytes" where
  "index_nonce inner i = flip_top (data_nonce inner i)"

definition row_aad :: "nat \<Rightarrow> nat \<Rightarrow> bytes" where
  "row_aad i n = be_bytes 8 i @ be_bytes 8 n"

subsection \<open>The writer\<close>

definition writer_new :: "spool_env \<Rightarrow> budget \<Rightarrow> spool_writer task_action" where
  "writer_new env b =
     abind check (\<lambda>_.
     abind (aguard (1024 \<le> memory_bytes b \<and> max_row_bytes b \<noteq> 0 \<and> sort_run_bytes b \<noteq> 0)
       ''resource_limit: the memory budget is invalid'') (\<lambda>_.
     abind (io_call env) (\<lambda>_.
     abind (io_call env) (\<lambda>_.
     abind (io_call env) (\<lambda>_.
     abind (io_call env) (\<lambda>_.
     abind (aget (\<lambda>st. draw env (draws st))) (\<lambda>(key, prefix).
     abind (amodify (\<lambda>st. st\<lparr>draws := draws st + 1\<rparr>)) (\<lambda>_.
       areturn \<lparr>w_file = [], w_index = [],
         w_inner = \<lparr>sp_key = key, sp_prefix = prefix, sp_budget = b, sp_bytes = 0, sp_data_bytes = 0,
           sp_rows = 0, sp_captured = 0\<rparr>, w_failed = False\<rparr>))))))))"

definition too_large :: err where
  "too_large = ''resource_limit: a row exceeds the snapshot or memory budget''"

definition row_too_large :: "spool_env \<Rightarrow> budget \<Rightarrow> canonical_row \<Rightarrow> bool" where
  "row_too_large env b row \<longleftrightarrow> memory_bytes b div 4 < mem_size env row
     \<or> max_row_bytes b < row_encoded_size row \<or> memory_bytes b < saturating_mul (row_encoded_size row) 4"

definition bytes_too_large :: "budget \<Rightarrow> bytes \<Rightarrow> bool" where
  "bytes_too_large b bs \<longleftrightarrow> max_row_bytes b < length bs \<or> memory_bytes b < saturating_mul (length bs) 4"

definition seal_row :: "spool_env \<Rightarrow> spool_inner \<Rightarrow> bytes \<Rightarrow> (bytes \<times> bytes) result" where
  "seal_row env inner bs =
     (let i = sp_rows inner
      in rbind (ok_or SPOOL_ERROR (seal env (sp_key inner) (data_nonce inner i)
           (row_aad i (length bs + 16)) bs)) (\<lambda>block.
         rbind (ok_or SPOOL_ERROR (seal env (sp_key inner) (index_nonce inner i)
           (be_bytes 8 i) (be_bytes 8 (sp_data_bytes inner)))) (\<lambda>offset. Inr (block, offset))))"

type_synonym 'a writer_action = "(spool_writer \<times> resources, 'a) action"

definition on_writer :: "(spool_writer \<Rightarrow> spool_writer) \<Rightarrow> unit writer_action" where
  "on_writer f = amodify (\<lambda>(w, st). (f w, st))"

definition on_inner :: "(spool_inner \<Rightarrow> spool_inner) \<Rightarrow> unit writer_action" where
  "on_inner f = on_writer (\<lambda>w. w\<lparr>w_inner := f (w_inner w)\<rparr>)"

text \<open>A write that fails leaves a writer that only its destructor uses.\<close>

definition store_block :: "spool_env \<Rightarrow> nat \<Rightarrow> bytes \<times> bytes \<Rightarrow> unit writer_action" where
  "store_block env n sealed = (case sealed of (block, offset) \<Rightarrow>
     abind (aget (\<lambda>(w, st). sp_budget (w_inner w))) (\<lambda>b.
     abind (on_snd (reserve b (n + 8 + 24))) (\<lambda>_.
     abind (on_inner (\<lambda>i. i\<lparr>sp_bytes := sp_bytes i + (n + 8 + 24)\<rparr>)) (\<lambda>_.
     abind (on_snd (io_call env)) (\<lambda>_.
     abind (on_writer (\<lambda>w. w\<lparr>w_file := w_file w @ be_bytes 8 n @ block\<rparr>)) (\<lambda>_.
     abind (on_snd (io_call env)) (\<lambda>_.
     abind (on_writer (\<lambda>w. w\<lparr>w_index := w_index w @ offset\<rparr>)) (\<lambda>_.
     abind (on_inner (\<lambda>i. i\<lparr>sp_data_bytes := sp_data_bytes i + (n + 8)\<rparr>)) (\<lambda>_.
     abind (aget (\<lambda>(w, st). sp_rows (w_inner w))) (\<lambda>rows.
     abind (aguard (rows + 1 \<le> U64_MAX) SPOOL_ERROR) (\<lambda>_.
       on_inner (\<lambda>i. i\<lparr>sp_rows := rows + 1\<rparr>))))))))))))"

definition with_memory_writer :: "nat \<Rightarrow> 'a writer_action \<Rightarrow> 'a writer_action" where
  "with_memory_writer n m =
     abind (aget (\<lambda>(w, st). sp_budget (w_inner w))) (\<lambda>b.
     abind (on_snd (reserve_memory b n)) (\<lambda>lease. afinally m (\<lambda>(w, st). (w, drop_lease lease st))))"

definition push_inner :: "spool_env \<Rightarrow> canonical_row \<Rightarrow> unit writer_action" where
  "push_inner env row =
     abind (on_snd check) (\<lambda>_.
     abind (aget (\<lambda>(w, st). sp_budget (w_inner w))) (\<lambda>b.
     abind (aguard (\<not> row_too_large env b row) too_large) (\<lambda>_.
     with_memory_writer (saturating_mul (row_encoded_size row) 2) (
       abind (alift (row_canonical_bytes row)) (\<lambda>bs.
       abind (aguard (\<not> bytes_too_large b bs) too_large) (\<lambda>_.
       abind (aget (\<lambda>(w, st). w_inner w)) (\<lambda>inner.
       abind (alift (seal_row env inner bs)) (\<lambda>sealed.
         store_block env (length bs + 16) sealed))))))))"

definition push :: "spool_env \<Rightarrow> canonical_row \<Rightarrow> unit writer_action" where
  "push env row ws =
     (if w_failed (fst ws) then (Inl SPOOL_ERROR, ws)
      else (case push_inner env row ws of
          (Inl e, (w, st)) \<Rightarrow> (Inl e, (w\<lparr>w_failed := True\<rparr>, st))
        | (Inr u, t) \<Rightarrow> (Inr u, t)))"

fun push_batch :: "spool_env \<Rightarrow> canonical_row list \<Rightarrow> unit writer_action" where
  "push_batch env [] = areturn ()"
| "push_batch env (row # rows) = abind (push env row) (\<lambda>_. push_batch env rows)"

text \<open>A local writer: the block returns it changed, or drops it and returns the error.\<close>

definition own_writer :: "spool_writer \<Rightarrow> 'a writer_action \<Rightarrow> ('a \<times> spool_writer) task_action" where
  "own_writer w m st = (case m (w, st) of
     (Inl e, (w, st)) \<Rightarrow> (Inl e, drop_spool (w_inner w) st)
   | (Inr x, (w, st)) \<Rightarrow> (Inr (x, w), st))"

definition put :: "spool_env \<Rightarrow> canonical_row \<Rightarrow> spool_writer \<Rightarrow> spool_writer task_action" where
  "put env row w = abind (own_writer w (push_batch env [row])) (\<lambda>(_, w). areturn w)"

definition finish_writer :: "spool_env \<Rightarrow> spool_writer \<Rightarrow> spool_handle task_action" where
  "finish_writer env w = or_drop [w_inner w] (
     abind (aguard (\<not> w_failed w) SPOOL_ERROR) (\<lambda>_.
     abind check (\<lambda>_.
     abind (io_call env) (\<lambda>_.
     abind (io_call env) (\<lambda>_.
     abind (aget (\<lambda>st. clock env (io_calls st))) (\<lambda>now.
       areturn \<lparr>h_inner = (w_inner w)\<lparr>sp_captured := now\<rparr>, h_file = w_file w, h_index = w_index w\<rparr>))))))"

subsection \<open>The handle and the cursor\<close>

definition open_cursor :: "spool_env \<Rightarrow> spool_handle \<Rightarrow> spool_cursor task_action" where
  "open_cursor env h =
     abind check (\<lambda>_.
     abind (io_call env) (\<lambda>_.
     abind (io_call env) (\<lambda>_.
     abind (aguard (length (h_file h) = sp_data_bytes (h_inner h)) SPOOL_ERROR) (\<lambda>_.
       areturn \<lparr>c_handle = h, c_rest = h_file h, c_index = 0\<rparr>))))"

definition read_exact :: "nat \<Rightarrow> bytes \<Rightarrow> (bytes \<times> bytes) result" where
  "read_exact n bs = (if n \<le> length bs then Inr (take n bs, drop n bs) else Inl SPOOL_ERROR)"

definition cursor_at :: "spool_env \<Rightarrow> spool_handle \<Rightarrow> nat \<Rightarrow> spool_cursor task_action" where
  "cursor_at env h i =
     abind (aguard (i \<le> sp_rows (h_inner h)) ''resource_limit: the snapshot cursor is out of bounds'') (\<lambda>_.
     abind (open_cursor env h) (\<lambda>c.
     if i = sp_rows (h_inner h) then areturn (c\<lparr>c_index := i\<rparr>)
     else
       abind (io_call env) (\<lambda>_.
       abind (io_call env) (\<lambda>_.
       abind (aguard (length (h_index h) = sp_rows (h_inner h) * 24) SPOOL_ERROR) (\<lambda>_.
       abind (io_call env) (\<lambda>_.
       abind (io_call env) (\<lambda>_.
       abind (alift (read_exact 24 (drop (i * 24) (h_index h)))) (\<lambda>(block, _).
       abind (alift (ok_or SPOOL_ERROR (unseal env (sp_key (h_inner h)) (index_nonce (h_inner h) i)
         (be_bytes 8 i) block))) (\<lambda>plain.
       abind (aguard (length plain = 8) SPOOL_ERROR) (\<lambda>_.
       abind (aguard (be_nat plain < sp_data_bytes (h_inner h)) SPOOL_ERROR) (\<lambda>_.
       abind (io_call env) (\<lambda>_.
         areturn (c\<lparr>c_rest := drop (be_nat plain) (h_file h), c_index := i\<rparr>)))))))))))))"

definition handle_writer :: "spool_env \<Rightarrow> spool_handle \<Rightarrow> spool_writer task_action" where
  "handle_writer env h = writer_new env (sp_budget (h_inner h))"

definition writer_with_overhead :: "spool_env \<Rightarrow> spool_handle \<Rightarrow> nat \<Rightarrow> spool_writer task_action" where
  "writer_with_overhead env h extra =
     (let b = sp_budget (h_inner h)
      in abind (alift (ok_or SPOOL_ERROR (checked_add (max_row_bytes b) extra)))
        (\<lambda>n. writer_new env (b\<lparr>max_row_bytes := n\<rparr>)))"

definition next_row :: "spool_env \<Rightarrow> spool_cursor \<Rightarrow> (canonical_row option \<times> spool_cursor) task_action" where
  "next_row env c =
     (let inner = h_inner (c_handle c); b = sp_budget inner; i = c_index c in
      abind check (\<lambda>_.
      if i = sp_rows inner then areturn (None, c)
      else
        abind (io_call env) (\<lambda>_.
        abind (alift (read_exact 8 (c_rest c))) (\<lambda>(len_bytes, rest).
        let len = be_nat len_bytes in
        abind (aguard (16 \<le> len \<and> len \<le> max_row_bytes b + 16) SPOOL_ERROR) (\<lambda>_.
        with_memory b (saturating_mul len 2) (
          abind (io_call env) (\<lambda>_.
          abind (alift (read_exact len rest)) (\<lambda>(block, rest).
          abind (alift (ok_or SPOOL_ERROR (unseal env (sp_key inner) (data_nonce inner i)
            (row_aad i len) block))) (\<lambda>plain.
          abind (alift (decode_row plain)) (\<lambda>row.
            areturn (Some row, c\<lparr>c_rest := rest, c_index := i + 1\<rparr>)))))))))))"

subsection \<open>Runs of the parts\<close>

lemma check_frame: "check st = (r, t) \<Longrightarrow> disk_used t = disk_used st \<and> memory_used t = memory_used st"
  by (auto simp: check_def split: if_splits)

lemma io_frame: "io_call env st = (r, t) \<Longrightarrow> disk_used t = disk_used st \<and> memory_used t = memory_used st"
  by (auto simp: io_call_def split: if_splits)

text \<open>What an action may do to the counters: it takes disk space and leaves no lease behind.\<close>

definition leases_kept :: "resources \<Rightarrow> resources \<Rightarrow> bool" where
  "leases_kept st t \<longleftrightarrow> disk_used t = disk_used st \<and> memory_used t = memory_used st"

lemma leases_kept_refl [simp]: "leases_kept st st"
  by (simp add: leases_kept_def)

lemma leases_kept_trans: "leases_kept a b \<Longrightarrow> leases_kept b c \<Longrightarrow> leases_kept a c"
  by (simp add: leases_kept_def)

definition quiet :: "'a task_action \<Rightarrow> bool" where
  "quiet m \<longleftrightarrow> (\<forall>st r t. m st = (r, t) \<longrightarrow> leases_kept st t)"

named_theorems quiet_intros \<open>actions that leave the counters as they were\<close>

lemma quiet_check [quiet_intros]: "quiet check"
  by (auto simp: quiet_def leases_kept_def dest: check_frame)

lemma quiet_io [quiet_intros]: "quiet (io_call env)"
  by (auto simp: quiet_def leases_kept_def dest: io_frame)

lemma quiet_abind [quiet_intros]: "quiet m \<Longrightarrow> (\<And>x. quiet (f x)) \<Longrightarrow> quiet (abind m f)"
  unfolding quiet_def abind_def
  by (auto split: prod.splits sum.splits intro: leases_kept_trans) (metis leases_kept_trans)+

lemma quiet_basic [quiet_intros]:
  "quiet (areturn x)" "quiet (afail e)" "quiet (alift r)" "quiet (aguard b e)" "quiet (aget f)"
  by (auto simp: quiet_def areturn_def afail_def alift_def aguard_def aget_def)

lemma quiet_if [quiet_intros]: "quiet m \<Longrightarrow> quiet n \<Longrightarrow> quiet (if b then m else n)"
  by simp

lemma quiet_split [quiet_intros]: "(\<And>a b. quiet (f a b)) \<Longrightarrow> quiet (case p of (a, b) \<Rightarrow> f a b)"
  by (cases p) simp

lemma reserve_memory_cases:
  "reserve_memory b n st = (r, t) \<Longrightarrow> disk_used t = disk_used st \<and>
     (case r of Inl e \<Rightarrow> memory_used t = memory_used st
      | Inr l \<Rightarrow> l = n \<and> memory_used t = memory_used st + n \<and> memory_used t \<le> memory_bytes b)"
  by (auto simp: reserve_memory_def abind_def check_def split: prod.splits sum.splits if_splits)

lemma quiet_with_memory [quiet_intros]:
  assumes "quiet m"
  shows "quiet (with_memory b n m)"
  unfolding quiet_def
proof (intro allI impI)
  fix st r t
  assume run: "with_memory b n m st = (r, t)"
  obtain r' u where res: "reserve_memory b n st = (r', u)" by fastforce
  show "leases_kept st t"
  proof (cases r')
    case (Inl e)
    then show ?thesis using run res reserve_memory_cases [OF res]
      by (simp add: with_memory_def abind_def leases_kept_def)
  next
    case (Inr l)
    then obtain v where v: "m u = (r, v)" "t = drop_lease l v"
      using run res by (auto simp: with_memory_def abind_def run_simps)
    then have "leases_kept u v" using assms by (simp add: quiet_def)
    then show ?thesis using reserve_memory_cases [OF res] v(2) Inr
      by (simp add: leases_kept_def drop_lease_def)
  qed
qed

lemma quiet_open_cursor [quiet_intros]: "quiet (open_cursor env h)"
  unfolding open_cursor_def by (intro quiet_intros)

lemma quiet_next_row [quiet_intros]: "quiet (next_row env c)"
  unfolding next_row_def Let_def by (intro quiet_intros)

lemma quiet_cursor_at [quiet_intros]: "quiet (cursor_at env h i)"
  unfolding cursor_at_def Let_def by (intro quiet_intros)

lemma read_exact_Inr: "read_exact n bs = Inr (a, b) \<longleftrightarrow> bs = a @ b \<and> length a = n"
  by (auto simp: read_exact_def append_eq_conv_conj min_def)

lemma with_memory_Inr: "with_memory b n m st = (Inr x, t) \<Longrightarrow> \<exists>u v. m u = (Inr x, v)"
  by (auto simp: with_memory_def run_simps)

text \<open>What was read when a row is delivered, and when none is.\<close>

lemma next_row_Inr:
  assumes "next_row env c st = (Inr (x, c'), t)"
  shows "case x of
      None \<Rightarrow> c' = c \<and> c_index c = sp_rows (h_inner (c_handle c))
    | Some r \<Rightarrow> c_index c \<noteq> sp_rows (h_inner (c_handle c)) \<and>
        (\<exists>len block rest plain. c_rest c = be_bytes 8 len @ block @ rest \<and> length block = len \<and> 16 \<le> len
          \<and> len < 2 ^ 64
          \<and> unseal env (sp_key (h_inner (c_handle c))) (data_nonce (h_inner (c_handle c)) (c_index c))
              (row_aad (c_index c) len) block = Some plain
          \<and> decode_row plain = Inr r \<and> c' = c\<lparr>c_rest := rest, c_index := c_index c + 1\<rparr>)"
proof -
  let ?inner = "h_inner (c_handle c)" and ?i = "c_index c"
  show ?thesis
  proof (cases "?i = sp_rows ?inner")
    case True
    then show ?thesis using assms by (auto simp: next_row_def Let_def run_simps)
  next
    case False
    obtain lb rest' block rest plain r where read: "read_exact 8 (c_rest c) = Inr (lb, rest')" "16 \<le> be_nat lb"
      and *: "read_exact (be_nat lb) rest' = Inr (block, rest)"
      "unseal env (sp_key ?inner) (data_nonce ?inner ?i) (row_aad ?i (be_nat lb)) block = Some plain"
      "decode_row plain = Inr r" "x = Some r" "c' = c\<lparr>c_rest := rest, c_index := ?i + 1\<rparr>"
      using assms False
      by (auto simp: next_row_def Let_def run_simps split: prod.splits dest!: with_memory_Inr)
    have lb: "c_rest c = lb @ rest'" "length lb = 8"
      using read(1) by (simp_all add: read_exact_Inr)
    then have "c_rest c = be_bytes 8 (be_nat lb) @ block @ rest" "length block = be_nat lb"
      "be_nat lb < 2 ^ 64"
      using *(1) be_bytes_be_nat [of lb] be_nat_less [of lb] by (auto simp: read_exact_Inr)
    with * read(2) False show ?thesis by fastforce
  qed
qed

subsection \<open>Accounting of the disk quota and of the leases\<close>

text \<open>
  An action that starts with \<open>own\<close> bytes of disk and, when it succeeds, ends with \<open>sz x\<close> bytes:
  the rest is given back, all of it when the action fails, and no lease survives.
\<close>

definition accounts :: "nat \<Rightarrow> 'a task_action \<Rightarrow> ('a \<Rightarrow> nat) \<Rightarrow> bool" where
  "accounts own m sz \<longleftrightarrow> (\<forall>st r t. m st = (r, t) \<longrightarrow> own \<le> disk_used st \<longrightarrow>
     memory_used t = memory_used st
     \<and> (case r of Inl e \<Rightarrow> disk_used t = disk_used st - own
        | Inr x \<Rightarrow> disk_used t + own = disk_used st + sz x))"

named_theorems accounts_intros \<open>accounting of composed actions\<close>

lemma accountsD:
  "accounts own m sz \<Longrightarrow> m st = (r, t) \<Longrightarrow> own \<le> disk_used st \<Longrightarrow> memory_used t = memory_used st
     \<and> (case r of Inl e \<Rightarrow> disk_used t = disk_used st - own
        | Inr x \<Rightarrow> disk_used t + own = disk_used st + sz x)"
  by (simp add: accounts_def)

lemma accounts_quiet: "quiet m \<Longrightarrow> accounts 0 m (\<lambda>_. 0)"
  unfolding accounts_def quiet_def leases_kept_def by (auto split: sum.splits)

lemma accounts_areturn [accounts_intros]: "sz x = own \<Longrightarrow> accounts own (areturn x) sz"
  by (auto simp: accounts_def run_simps)

lemma accounts_abind_run:
  assumes "accounts own m sz" and "\<And>x s t. m s = (Inr x, t) \<Longrightarrow> accounts (sz x) (f x) sz'"
  shows "accounts own (abind m f) sz'"
  unfolding accounts_def
proof (intro allI impI)
  fix st r t
  assume run: "abind m f st = (r, t)" and own: "own \<le> disk_used st"
  obtain r' u where m: "m st = (r', u)" by fastforce
  show "memory_used t = memory_used st \<and> (case r of Inl e \<Rightarrow> disk_used t = disk_used st - own
      | Inr x \<Rightarrow> disk_used t + own = disk_used st + sz' x)"
  proof (cases r')
    case (Inl e)
    then show ?thesis using run m accountsD [OF assms(1) m own] by (auto simp: abind_def)
  next
    case (Inr x)
    then have f: "f x u = (r, t)" using run m by (simp add: abind_def)
    have m': "memory_used u = memory_used st" "disk_used u + own = disk_used st + sz x"
      using accountsD [OF assms(1) m own] Inr by auto
    then have "sz x \<le> disk_used u" using own by linarith
    then show ?thesis using accountsD [OF assms(2) [OF m [unfolded Inr]] f] m' own by (auto split: sum.splits)
  qed
qed

lemma accounts_abind [accounts_intros]:
  "accounts own m sz \<Longrightarrow> (\<And>x. accounts (sz x) (f x) sz') \<Longrightarrow> accounts own (abind m f) sz'"
  by (rule accounts_abind_run)

lemma accounts_after_quiet:
  assumes "quiet m" and "\<And>x. accounts 0 (f x) sz"
  shows "accounts 0 (abind m f) sz"
  using accounts_abind [OF accounts_quiet [OF assms(1)] assms(2)] .

lemma accounts_if [accounts_intros]:
  "(b \<Longrightarrow> accounts own m sz) \<Longrightarrow> (\<not> b \<Longrightarrow> accounts own n sz) \<Longrightarrow> accounts own (if b then m else n) sz"
  by simp

lemma accounts_prod [accounts_intros]:
  "(\<And>a b. p = (a, b) \<Longrightarrow> accounts own (f a b) sz) \<Longrightarrow> accounts own (case p of (a, b) \<Rightarrow> f a b) sz"
  by (cases p) simp

lemma accounts_size: "accounts own m sz \<Longrightarrow> (\<And>x. sz x = sz' x) \<Longrightarrow> accounts own m sz'"
  using ext [of sz sz'] by simp

definition total :: "spool_inner list \<Rightarrow> nat" where
  "total = sum_list \<circ> map sp_bytes"

lemma total_simps [simp]: "total [] = 0" "total (i # is) = sp_bytes i + total is"
  by (simp_all add: total_def)

lemma drop_spools:
  "disk_used (fold drop_spool is st) = disk_used st - total is \<and> memory_used (fold drop_spool is st) = memory_used st"
  by (induction "is" arbitrary: st) (auto simp: drop_spool_def)

lemma accounts_or_drop [accounts_intros]:
  assumes "accounts own m sz"
  shows "accounts (own + total is) (or_drop is m) (\<lambda>x. sz x + total is)"
  unfolding accounts_def
proof (intro allI impI)
  fix st r t
  assume run: "or_drop is m st = (r, t)" and own: "own + total is \<le> disk_used st"
  obtain r' u where m: "m st = (r', u)" by fastforce
  have "own \<le> disk_used st" using own by simp
  from accountsD [OF assms m this]
  show "memory_used t = memory_used st \<and> (case r of Inl e \<Rightarrow> disk_used t = disk_used st - (own + total is)
      | Inr x \<Rightarrow> disk_used t + (own + total is) = disk_used st + (sz x + total is))"
    using run m drop_spools [of "is" u] by (auto simp: or_drop_def split: sum.splits)
qed

lemma accounts_or_drop_quiet:
  "quiet m \<Longrightarrow> accounts (total is) (or_drop is m) (\<lambda>_. total is)"
  using accounts_or_drop [OF accounts_quiet, of m "is"] by simp

lemma accounts_with_memory [accounts_intros]:
  assumes "accounts 0 m sz"
  shows "accounts 0 (with_memory b n m) sz"
  unfolding accounts_def
proof (intro allI impI)
  fix st r t
  assume run: "with_memory b n m st = (r, t)"
  obtain r' u where res: "reserve_memory b n st = (r', u)" by fastforce
  show "memory_used t = memory_used st \<and> (case r of Inl e \<Rightarrow> disk_used t = disk_used st - 0
      | Inr x \<Rightarrow> disk_used t + 0 = disk_used st + sz x)"
  proof (cases r')
    case (Inl e)
    then show ?thesis using run res reserve_memory_cases [OF res]
      by (auto simp: with_memory_def abind_def)
  next
    case (Inr l)
    then obtain v where v: "m u = (r, v)" "t = drop_lease l v"
      using run res by (auto simp: with_memory_def abind_def run_simps)
    from accountsD [OF assms v(1)] show ?thesis using reserve_memory_cases [OF res] v(2) Inr
      by (auto simp: drop_lease_def split: sum.splits)
  qed
qed

subsection \<open>The writer accounts for what it writes\<close>

text \<open>The same for an action on a writer: the bytes it owns are those the writer names.\<close>

definition writer_accounts :: "'a writer_action \<Rightarrow> bool" where
  "writer_accounts m \<longleftrightarrow> (\<forall>w st r w' t. m (w, st) = (r, (w', t)) \<longrightarrow>
     memory_used t = memory_used st \<and> sp_bytes (w_inner w) \<le> sp_bytes (w_inner w')
     \<and> disk_used t + sp_bytes (w_inner w) = disk_used st + sp_bytes (w_inner w'))"

lemma writer_accounts_abind:
  assumes "writer_accounts m" and "\<And>x. writer_accounts (f x)"
  shows "writer_accounts (abind m f)"
  unfolding writer_accounts_def
proof (intro allI impI)
  fix w st r w' t
  assume run: "abind m f (w, st) = (r, (w', t))"
  obtain r1 v u where m: "m (w, st) = (r1, (v, u))" by (cases "m (w, st)") auto
  have 1: "memory_used u = memory_used st \<and> sp_bytes (w_inner w) \<le> sp_bytes (w_inner v)
     \<and> disk_used u + sp_bytes (w_inner w) = disk_used st + sp_bytes (w_inner v)"
    using assms(1) m by (simp add: writer_accounts_def)
  show "memory_used t = memory_used st \<and> sp_bytes (w_inner w) \<le> sp_bytes (w_inner w')
     \<and> disk_used t + sp_bytes (w_inner w) = disk_used st + sp_bytes (w_inner w')"
  proof (cases r1)
    case (Inl e)
    then show ?thesis using run m 1 by (auto simp: abind_def)
  next
    case (Inr x)
    then have "f x (v, u) = (r, (w', t))" using run m by (simp add: abind_def)
    then have "memory_used t = memory_used u \<and> sp_bytes (w_inner v) \<le> sp_bytes (w_inner w')
     \<and> disk_used t + sp_bytes (w_inner v) = disk_used u + sp_bytes (w_inner w')"
      using assms(2) by (simp add: writer_accounts_def)
    with 1 show ?thesis by auto
  qed
qed

lemma writer_accounts_basic:
  "writer_accounts (areturn x)" "writer_accounts (alift r)" "writer_accounts (aguard b e)" "writer_accounts (aget f)"
  by (auto simp: writer_accounts_def run_simps aguard_def)

lemma writer_accounts_on_writer:
  "(\<And>w. sp_bytes (w_inner (g w)) = sp_bytes (w_inner w)) \<Longrightarrow> writer_accounts (on_writer g)"
  by (auto simp: writer_accounts_def run_simps on_writer_def)

lemma writer_accounts_on_inner:
  "(\<And>i. sp_bytes (g i) = sp_bytes i) \<Longrightarrow> writer_accounts (on_inner g)"
  by (simp add: on_inner_def writer_accounts_on_writer)

lemma writer_accounts_quiet: "quiet m \<Longrightarrow> writer_accounts (on_snd m)"
  by (auto simp: writer_accounts_def on_snd_run quiet_def leases_kept_def)

text \<open>The space is reserved and counted in one go; everything after it keeps the count.\<close>

lemma reserve_cases:
  "reserve b n st = (r, t) \<Longrightarrow> memory_used t = memory_used st \<and>
     (case r of Inl e \<Rightarrow> disk_used t = disk_used st
      | Inr _ \<Rightarrow> disk_used t = disk_used st + n \<and> disk_used t \<le> disk_bytes b)"
  by (auto simp: reserve_def abind_def check_def split: prod.splits sum.splits if_splits)

lemma writer_accounts_reserve:
  assumes "writer_accounts m"
  shows "writer_accounts (abind (on_snd (reserve b n)) (\<lambda>_.
     abind (on_inner (\<lambda>i. i\<lparr>sp_bytes := sp_bytes i + n\<rparr>)) (\<lambda>_. m)))"
  unfolding writer_accounts_def
proof (intro allI impI)
  fix w st r w' t
  assume run: "abind (on_snd (reserve b n)) (\<lambda>_.
     abind (on_inner (\<lambda>i. i\<lparr>sp_bytes := sp_bytes i + n\<rparr>)) (\<lambda>_. m)) (w, st) = (r, (w', t))"
  obtain r1 u where res: "reserve b n st = (r1, u)" by fastforce
  show "memory_used t = memory_used st \<and> sp_bytes (w_inner w) \<le> sp_bytes (w_inner w')
     \<and> disk_used t + sp_bytes (w_inner w) = disk_used st + sp_bytes (w_inner w')"
  proof (cases r1)
    case (Inl e)
    then show ?thesis using run res reserve_cases [OF res] by (auto simp: abind_def on_snd_def)
  next
    case (Inr x)
    let ?v = "w\<lparr>w_inner := (w_inner w)\<lparr>sp_bytes := sp_bytes (w_inner w) + n\<rparr>\<rparr>"
    have "m (?v, u) = (r, (w', t))"
      using run res Inr by (simp add: abind_def on_snd_def on_inner_def on_writer_def amodify_def)
    then have "memory_used t = memory_used u \<and> sp_bytes (w_inner ?v) \<le> sp_bytes (w_inner w')
     \<and> disk_used t + sp_bytes (w_inner ?v) = disk_used u + sp_bytes (w_inner w')"
      using assms unfolding writer_accounts_def by blast
    then show ?thesis using reserve_cases [OF res] Inr by auto
  qed
qed

lemmas writer_accounts_intros =
  writer_accounts_basic writer_accounts_quiet writer_accounts_reserve writer_accounts_abind quiet_intros

lemma writer_accounts_store: "writer_accounts (store_block env n sealed)"
  unfolding store_block_def
  by (cases sealed)
     (auto intro!: writer_accounts_intros writer_accounts_on_writer writer_accounts_on_inner)

lemma writer_accounts_with_memory:
  assumes "writer_accounts m"
  shows "writer_accounts (with_memory_writer n m)"
  unfolding with_memory_writer_def
proof (rule writer_accounts_abind [OF writer_accounts_basic(4)])
  fix b
  let ?m = "abind (on_snd (reserve_memory b n)) (\<lambda>lease. afinally m (\<lambda>(w, st). (w, drop_lease lease st)))"
  show "writer_accounts ?m"
    unfolding writer_accounts_def
  proof (intro allI impI)
    fix w st r w' t
    assume run: "?m (w, st) = (r, (w', t))"
    obtain r1 u where res: "reserve_memory b n st = (r1, u)" by fastforce
    show "memory_used t = memory_used st \<and> sp_bytes (w_inner w) \<le> sp_bytes (w_inner w')
       \<and> disk_used t + sp_bytes (w_inner w) = disk_used st + sp_bytes (w_inner w')"
    proof (cases r1)
      case (Inl e)
      then show ?thesis using run res reserve_memory_cases [OF res] by (auto simp: abind_def on_snd_def)
    next
      case (Inr l)
      then obtain v where v: "m (w, u) = (r, (w', v))" "t = drop_lease l v"
        using run res by (auto simp: abind_def on_snd_def run_simps)
      then have "memory_used v = memory_used u \<and> sp_bytes (w_inner w) \<le> sp_bytes (w_inner w')
         \<and> disk_used v + sp_bytes (w_inner w) = disk_used u + sp_bytes (w_inner w')"
        using assms unfolding writer_accounts_def by blast
      then show ?thesis using reserve_memory_cases [OF res] Inr v(2) by (auto simp: drop_lease_def)
    qed
  qed
qed

lemma writer_accounts_push_inner: "writer_accounts (push_inner env row)"
  unfolding push_inner_def
  by (intro writer_accounts_intros writer_accounts_with_memory writer_accounts_store)

lemma writer_accounts_push: "writer_accounts (push env row)"
  using writer_accounts_push_inner [of env row]
  unfolding writer_accounts_def push_def by (auto split: prod.splits sum.splits if_splits)

lemma writer_accounts_push_batch: "writer_accounts (push_batch env rows)"
  by (induction rows) (auto intro: writer_accounts_basic writer_accounts_abind writer_accounts_push)

lemma accounts_own_writer [accounts_intros]:
  assumes "writer_accounts m"
  shows "accounts (sp_bytes (w_inner w)) (own_writer w m) (\<lambda>(_, w). sp_bytes (w_inner w))"
  unfolding accounts_def
proof (intro allI impI)
  fix st r t
  assume run: "own_writer w m st = (r, t)" and own: "sp_bytes (w_inner w) \<le> disk_used st"
  obtain r1 w' u where m: "m (w, st) = (r1, (w', u))" by (cases "m (w, st)") auto
  then have "memory_used u = memory_used st \<and> sp_bytes (w_inner w) \<le> sp_bytes (w_inner w')
     \<and> disk_used u + sp_bytes (w_inner w) = disk_used st + sp_bytes (w_inner w')"
    using assms by (simp add: writer_accounts_def)
  then show "memory_used t = memory_used st \<and> (case r of
      Inl e \<Rightarrow> disk_used t = disk_used st - sp_bytes (w_inner w)
    | Inr x \<Rightarrow> disk_used t + sp_bytes (w_inner w) = disk_used st + (case x of (_, w) \<Rightarrow> sp_bytes (w_inner w)))"
    using run m own by (auto simp: own_writer_def drop_spool_def split: sum.splits)
qed

lemma accounts_put [accounts_intros]:
  "accounts (sp_bytes (w_inner w)) (put env row w) (\<lambda>w. sp_bytes (w_inner w))"
  unfolding put_def
  by (rule accounts_abind [OF accounts_own_writer [OF writer_accounts_push_batch]]) (auto intro: accounts_areturn)

lemma accounts_finish [accounts_intros]:
  "accounts (sp_bytes (w_inner w)) (finish_writer env w) (\<lambda>h. sp_bytes (h_inner h))"
proof -
  have q: "quiet (abind (aguard (\<not> w_failed w) SPOOL_ERROR) (\<lambda>_. abind check (\<lambda>_. abind (io_call env) (\<lambda>_.
     abind (io_call env) (\<lambda>_. abind (aget (\<lambda>st. clock env (io_calls st))) (\<lambda>now.
       areturn \<lparr>h_inner = (w_inner w)\<lparr>sp_captured := now\<rparr>, h_file = w_file w, h_index = w_index w\<rparr>))))))"
    by (intro quiet_intros)
  have "sp_bytes (h_inner h) = sp_bytes (w_inner w)" if "finish_writer env w st = (Inr h, t)" for h st t
    using that by (auto simp: finish_writer_def or_drop_def run_simps split: prod.splits sum.splits)
  then show ?thesis
    using accounts_or_drop_quiet [OF q, of "[w_inner w]"]
    by (fastforce simp: accounts_def finish_writer_def split: sum.splits)
qed

lemma accounts_writer_new [accounts_intros]: "accounts 0 (writer_new env b) (\<lambda>w. sp_bytes (w_inner w))"
  unfolding writer_new_def
  by (intro accounts_after_quiet quiet_intros accounts_prod accounts_areturn) 
     (auto simp: quiet_def amodify_run leases_kept_def intro: accounts_after_quiet accounts_areturn)

lemma accounts_handle_writer [accounts_intros]: "accounts 0 (handle_writer env h) (\<lambda>w. sp_bytes (w_inner w))"
  by (simp add: handle_writer_def accounts_writer_new)

subsection \<open>What a snapshot holds\<close>

text \<open>What is relied on of the cipher: it adds a tag of 16 bytes, and deciphering undoes it.\<close>

definition aead_ok :: "spool_env \<Rightarrow> bool" where
  "aead_ok env \<longleftrightarrow> (\<forall>k n a p c. seal env k n a p = Some c \<longrightarrow>
     length c = length p + 16 \<and> unseal env k n a c = Some p)"

text \<open>The file, from row \<open>i\<close> on, holds exactly the given plain texts.\<close>

fun file_holds :: "spool_env \<Rightarrow> spool_inner \<Rightarrow> nat \<Rightarrow> bytes \<Rightarrow> bytes list \<Rightarrow> bool" where
  "file_holds env inner i bs [] \<longleftrightarrow> bs = []"
| "file_holds env inner i bs (p # ps) \<longleftrightarrow>
     (\<exists>block rest. bs = be_bytes 8 (length p + 16) @ block @ rest \<and> length p + 16 < 2 ^ 64
       \<and> length block = length p + 16
       \<and> unseal env (sp_key inner) (data_nonce inner i) (row_aad i (length p + 16)) block = Some p
       \<and> file_holds env inner (i + 1) rest ps)"

lemma file_holds_cong:
  "sp_key i' = sp_key i \<Longrightarrow> sp_prefix i' = sp_prefix i \<Longrightarrow> file_holds env i' k bs ps = file_holds env i k bs ps"
  by (induction ps arbitrary: k bs) (simp_all add: data_nonce_def)

lemma file_holds_snoc:
  assumes "file_holds env inner i bs ps"
    and "unseal env (sp_key inner) (data_nonce inner (i + length ps)) (row_aad (i + length ps) (length p + 16)) block = Some p"
    and "length p + 16 < 2 ^ 64" and "length block = length p + 16"
  shows "file_holds env inner i (bs @ be_bytes 8 (length p + 16) @ block) (ps @ [p])"
  using assms by (induction env inner i bs ps rule: file_holds.induct) fastforce+

text \<open>
  The index, from row \<open>i\<close> on: the sealed offset of each row, when that of row \<open>i\<close> is \<open>off\<close>.
\<close>

fun index_holds :: "spool_env \<Rightarrow> spool_inner \<Rightarrow> nat \<Rightarrow> nat \<Rightarrow> bytes \<Rightarrow> bytes list \<Rightarrow> bool" where
  "index_holds env inner i off bs [] \<longleftrightarrow> bs = []"
| "index_holds env inner i off bs (p # ps) \<longleftrightarrow>
     (\<exists>block rest. bs = block @ rest \<and> length block = 24
       \<and> unseal env (sp_key inner) (index_nonce inner i) (be_bytes 8 i) block = Some (be_bytes 8 off)
       \<and> index_holds env inner (i + 1) (off + length p + 24) rest ps)"

definition file_size :: "bytes list \<Rightarrow> nat" where
  "file_size ps = sum_list (map (\<lambda>p. length p + 24) ps)"

lemma index_holds_cong:
  "sp_key i' = sp_key i \<Longrightarrow> sp_prefix i' = sp_prefix i \<Longrightarrow> index_holds env i' k off bs ps = index_holds env i k off bs ps"
  by (induction ps arbitrary: k off bs) (simp_all add: data_nonce_def index_nonce_def)

lemma index_holds_snoc:
  assumes "index_holds env inner i off bs ps"
    and "unseal env (sp_key inner) (index_nonce inner (i + length ps)) (be_bytes 8 (i + length ps)) block
      = Some (be_bytes 8 (off + file_size ps))"
    and "length block = 24"
  shows "index_holds env inner i off (bs @ block) (ps @ [p])"
  using assms
proof (induction env inner i off bs ps rule: index_holds.induct)
  case (2 env inner i off bs q ps)
  then obtain b r where b: "bs = b @ r" "length b = 24"
    "unseal env (sp_key inner) (index_nonce inner i) (be_bytes 8 i) b = Some (be_bytes 8 off)"
    "index_holds env inner (i + 1) (off + length q + 24) r ps" by auto
  have "index_holds env inner (i + 1) (off + length q + 24) (r @ block) (ps @ [p])"
    using 2(3,4) by (intro "2.IH" [OF b(4)]) (simp_all add: file_size_def add.assoc)
  then show ?case using b by auto
qed (simp add: file_size_def)

lemma file_holds_size: "file_holds env inner i bs ps \<Longrightarrow> length bs = file_size ps"
  by (induction env inner i bs ps rule: file_holds.induct) (auto simp: file_size_def)

lemma index_holds_size: "index_holds env inner i off bs ps \<Longrightarrow> length bs = 24 * length ps"
  by (induction env inner i off bs ps rule: index_holds.induct) auto

text \<open>Splitting both at a row.\<close>

lemma file_holds_drop:
  "file_holds env inner i bs ps \<Longrightarrow> n \<le> length ps \<Longrightarrow>
     file_holds env inner (i + n) (drop (file_size (take n ps)) bs) (drop n ps)"
proof (induction env inner i bs ps arbitrary: n rule: file_holds.induct)
  case (2 env inner i bs p ps)
  show ?case
  proof (cases n)
    case (Suc m)
    obtain b r where b: "bs = be_bytes 8 (length p + 16) @ b @ r" "length b = length p + 16"
      "file_holds env inner (i + 1) r ps" using 2(2) by auto
    have "drop (file_size (take n (p # ps))) bs = drop (file_size (take m ps)) r"
      by (simp add: b(1,2) Suc file_size_def)
    then show ?thesis using "2.IH" [OF b(3), of m] 2(3) Suc by simp
  qed (use 2(2) in \<open>simp add: file_size_def\<close>)
qed (simp add: file_size_def)

lemma index_holds_nth:
  assumes "index_holds env inner i off bs ps" and "n < length ps"
  obtains block rest where "drop (24 * n) bs = block @ rest" "length block = 24"
    "unseal env (sp_key inner) (index_nonce inner (i + n)) (be_bytes 8 (i + n)) block
      = Some (be_bytes 8 (off + file_size (take n ps)))"
  using assms
proof (induction env inner i off bs ps arbitrary: n thesis rule: index_holds.induct)
  case (2 env inner i off bs p ps)
  obtain b r where b: "bs = b @ r" "length b = 24"
    "unseal env (sp_key inner) (index_nonce inner i) (be_bytes 8 i) b = Some (be_bytes 8 off)"
    "index_holds env inner (i + 1) (off + length p + 24) r ps" using 2(3) by auto
  show ?case
  proof (cases n)
    case 0
    then show ?thesis using 2(2) b by (simp add: file_size_def)
  next
    case (Suc m)
    then obtain block rest where "drop (24 * m) r = block @ rest" "length block = 24"
      "unseal env (sp_key inner) (index_nonce inner (i + 1 + m)) (be_bytes 8 (i + 1 + m)) block
        = Some (be_bytes 8 (off + length p + 24 + file_size (take m ps)))"
      using "2.IH" [OF _ b(4), of m] 2(4) by auto
    then show ?thesis using 2(2) [of block rest] Suc b(1,2) by (simp add: file_size_def add_ac)
  qed
qed simp

text \<open>A plain text and the row it stands for.\<close>

definition row_of :: "bytes \<Rightarrow> canonical_row \<Rightarrow> bool" where
  "row_of p r \<longleftrightarrow> decode_row p = Inr r \<and> row_canonical_bytes r = Inr p \<and> wf_row r"

definition holds :: "spool_env \<Rightarrow> spool_handle \<Rightarrow> canonical_row list \<Rightarrow> bool" where
  "holds env h rows \<longleftrightarrow> (\<exists>ps. file_holds env (h_inner h) 0 (h_file h) ps \<and> list_all2 row_of ps rows
     \<and> index_holds env (h_inner h) 0 0 (h_index h) ps
     \<and> sp_rows (h_inner h) = length ps \<and> sp_data_bytes (h_inner h) = length (h_file h))"

definition delivers :: "spool_env \<Rightarrow> spool_cursor \<Rightarrow> canonical_row list \<Rightarrow> bool" where
  "delivers env c rows \<longleftrightarrow> (\<exists>ps. (ps \<noteq> [] \<longrightarrow> file_holds env (h_inner (c_handle c)) (c_index c) (c_rest c) ps)
     \<and> list_all2 row_of ps rows \<and> sp_rows (h_inner (c_handle c)) = c_index c + length ps)"

definition writes :: "spool_env \<Rightarrow> spool_writer \<Rightarrow> canonical_row list \<Rightarrow> bool" where
  "writes env w rows \<longleftrightarrow> (\<exists>ps. file_holds env (w_inner w) 0 (w_file w) ps \<and> list_all2 row_of ps rows
     \<and> index_holds env (w_inner w) 0 0 (w_index w) ps
     \<and> sp_rows (w_inner w) = length ps \<and> sp_data_bytes (w_inner w) = length (w_file w))"

subsection \<open>Reading\<close>

lemma be_bytes_append_eq:
  assumes "be_bytes 8 m @ xs = be_bytes 8 n @ ys" and "m < 2 ^ 64" and "n < 2 ^ 64"
  shows "m = n \<and> xs = ys"
  using assms be_bytes_inj [of 8 m n] by simp

lemma next_row_delivers:
  assumes "delivers env c rows" and "next_row env c st = (Inr (x, c'), t)"
  shows "case rows of [] \<Rightarrow> x = None \<and> c' = c | y # ys \<Rightarrow> x = Some y \<and> delivers env c' ys"
proof -
  let ?inner = "h_inner (c_handle c)"
  obtain ps where ps: "ps \<noteq> [] \<longrightarrow> file_holds env ?inner (c_index c) (c_rest c) ps" "list_all2 row_of ps rows"
    "sp_rows ?inner = c_index c + length ps"
    using assms(1) by (auto simp: delivers_def)
  show ?thesis
  proof (cases rows)
    case Nil
    then show ?thesis using ps next_row_Inr [OF assms(2)] by (auto split: option.splits)
  next
    case (Cons y ys)
    then obtain p qs where pq: "ps = p # qs" "row_of p y" "list_all2 row_of qs ys"
      using ps(2) by (auto simp: list_all2_Cons2)
    then obtain block rest where f: "c_rest c = be_bytes 8 (length p + 16) @ block @ rest" "length p + 16 < 2 ^ 64"
      "length block = length p + 16"
      "unseal env (sp_key ?inner) (data_nonce ?inner (c_index c)) (row_aad (c_index c) (length p + 16)) block = Some p"
      "file_holds env ?inner (c_index c + 1) rest qs"
      using ps(1) by auto
    have "x \<noteq> None" using next_row_Inr [OF assms(2)] ps(3) pq(1) by (auto split: option.splits)
    then obtain r len block' rest' plain where r: "x = Some r"
      and g: "c_rest c = be_bytes 8 len @ block' @ rest'" "length block' = len" "len < 2 ^ 64"
      "unseal env (sp_key ?inner) (data_nonce ?inner (c_index c)) (row_aad (c_index c) len) block' = Some plain"
      "decode_row plain = Inr r" "c' = c\<lparr>c_rest := rest', c_index := c_index c + 1\<rparr>"
      using next_row_Inr [OF assms(2)] by (auto split: option.splits)
    have "length p + 16 = len \<and> block @ rest = block' @ rest'"
      using f(1,2) g(1,3) by (intro be_bytes_append_eq) simp_all
    then have "len = length p + 16" "block' = block" "rest' = rest" using f(3) g(2) by auto
    then have "r = y" "c' = c\<lparr>c_rest := rest, c_index := c_index c + 1\<rparr>"
      using f(4) g(4-6) pq(2) by (simp_all add: row_of_def)
    then show ?thesis using Cons r f(5) pq ps(3) by (auto simp: delivers_def)
  qed
qed

lemma open_cursor_delivers:
  assumes "holds env h rows" and "open_cursor env h st = (Inr c, t)"
  shows "delivers env c rows"
  using assms by (auto simp: holds_def delivers_def open_cursor_def run_simps)

subsection \<open>Writing\<close>

lemma writer_new_writes: "writer_new env b st = (Inr w, t) \<Longrightarrow> writes env w []"
  by (auto simp: writer_new_def run_simps writes_def split: prod.splits)

lemma norm_value_canonical:
  assumes "canonical_bytes v = Inr bs"
  shows "canonical_bytes (norm_value v) = Inr bs"
proof (cases v)
  case (Decimal s)
  then show ?thesis using assms normalize_decimal_idem by (auto simp: result_simps split: sum.splits)
qed (use assms in simp_all)

lemma norm_values_bytes:
  assumes "values_bytes vs = Inr bs"
  shows "values_bytes (map norm_value vs) = Inr bs"
proof -
  obtain fs where fs: "list_all2 (\<lambda>v f. \<exists>b. canonical_bytes v = Inr b \<and> f = field b) vs fs"
    "bs = be_bytes 8 (length vs) @ concat fs"
    using assms by (auto simp: values_bytes_Inr)
  have "list_all2 (\<lambda>v f. \<exists>b. canonical_bytes v = Inr b \<and> f = field b) (map norm_value vs) fs"
    unfolding list_all2_map1 using fs(1) by (rule list_all2_mono) (auto dest: norm_value_canonical)
  then show ?thesis using fs(2) by (auto simp: values_bytes_Inr)
qed

lemma norm_row_bytes: "row_canonical_bytes r = Inr bs \<Longrightarrow> row_canonical_bytes (norm_row r) = Inr bs"
  by (auto simp: row_canonical_bytes_def key_bytes_def norm_row_def norm_values_bytes)

lemma wf_norm_value: "wf_value v \<Longrightarrow> wf_value (norm_value v)"
  by (cases v) (auto split: sum.splits dest: normalize_decimal_utf8)

lemma wf_norm_row: "wf_row r \<Longrightarrow> wf_row (norm_row r)"
  by (auto simp: wf_row_def norm_row_def wf_norm_value)

lemma row_of_norm:
  "row_canonical_bytes r = Inr bs \<Longrightarrow> wf_row r \<Longrightarrow> length bs \<le> USIZE_MAX \<Longrightarrow> row_of bs (norm_row r)"
  by (simp add: row_of_def decode_row_canonical norm_row_bytes wf_norm_row)

lemma row_of_norm_row: "row_of p r \<Longrightarrow> length p \<le> USIZE_MAX \<Longrightarrow> norm_row r = r"
  using decode_row_canonical [of r p] by (simp add: row_of_def)

lemma reserve_Inr:
  "reserve b n st = (Inr u, t) \<Longrightarrow> disk_used st + n \<le> U64_MAX"
  by (auto simp: reserve_def run_simps split: if_splits dest!: check_frame)

lemma with_memory_writer_Inr:
  "with_memory_writer n m (w, st) = (Inr x, (w', t)) \<Longrightarrow> \<exists>u v. m (w, u) = (Inr x, (w', v))"
  by (auto simp: with_memory_writer_def run_simps) 

lemma store_block_Inr:
  assumes "store_block env n (block, offset) (w, st) = (Inr u, (w', t))"
  shows "n < 2 ^ 64 \<and> w_file w' = w_file w @ be_bytes 8 n @ block \<and> w_index w' = w_index w @ offset
    \<and> w_failed w' = w_failed w
    \<and> w_inner w' = (w_inner w)\<lparr>sp_bytes := sp_bytes (w_inner w) + (n + 32),
        sp_data_bytes := sp_data_bytes (w_inner w) + (n + 8), sp_rows := sp_rows (w_inner w) + 1\<rparr>"
  using assms
  by (auto simp: store_block_def run_simps on_inner_def on_writer_def U64_MAX_def dest!: reserve_Inr)

lemma push_Inr:
  assumes "push env row (w, st) = (Inr u, (w', t))"
  obtains bs block offset where "row_canonical_bytes row = Inr bs" "\<not> bytes_too_large (sp_budget (w_inner w)) bs"
    "seal_row env (w_inner w) bs = Inr (block, offset)" "length bs + 16 < 2 ^ 64"
    "w_file w' = w_file w @ be_bytes 8 (length bs + 16) @ block" "w_index w' = w_index w @ offset"
    "w_inner w' = (w_inner w)\<lparr>sp_bytes := sp_bytes (w_inner w) + (length bs + 48),
        sp_data_bytes := sp_data_bytes (w_inner w) + (length bs + 24), sp_rows := sp_rows (w_inner w) + 1\<rparr>"
proof -
  have "push_inner env row (w, st) = (Inr u, (w', t))"
    using assms by (auto simp: push_def split: if_splits prod.splits sum.splits)
  then obtain v x where m: "abind (alift (row_canonical_bytes row)) (\<lambda>bs.
       abind (aguard (\<not> bytes_too_large (sp_budget (w_inner w)) bs) too_large) (\<lambda>_.
       abind (aget (\<lambda>(w, st). w_inner w)) (\<lambda>inner.
       abind (alift (seal_row env inner bs)) (\<lambda>sealed.
         store_block env (length bs + 16) sealed)))) (w, v) = (Inr u, (w', x))"
    by (auto simp: push_inner_def abind_Inr on_snd_run aget_run aguard_run dest!: with_memory_writer_Inr)
  then obtain bs sealed where bs: "row_canonical_bytes row = Inr bs"
    "\<not> bytes_too_large (sp_budget (w_inner w)) bs" "seal_row env (w_inner w) bs = Inr sealed"
    and store: "store_block env (length bs + 16) sealed (w, v) = (Inr u, (w', x))"
    by (auto simp: run_simps)
  obtain block offset where sealed: "sealed = (block, offset)" by fastforce
  from store_block_Inr [OF store [unfolded sealed]] show ?thesis
    using that [OF bs(1,2) bs(3) [unfolded sealed]] by (simp add: add.assoc)
qed

lemma seal_row_Inr:
  assumes "aead_ok env" and "seal_row env inner bs = Inr (block, offset)"
  shows "length block = length bs + 16
    \<and> unseal env (sp_key inner) (data_nonce inner (sp_rows inner)) (row_aad (sp_rows inner) (length bs + 16)) block = Some bs
    \<and> length offset = 24
    \<and> unseal env (sp_key inner) (index_nonce inner (sp_rows inner)) (be_bytes 8 (sp_rows inner)) offset
        = Some (be_bytes 8 (sp_data_bytes inner))"
  using assms by (auto simp: seal_row_def Let_def aead_ok_def run_simps)

lemma push_writes:
  assumes "aead_ok env" and "wf_row row" and "writes env w rows" and "push env row (w, st) = (Inr u, (w', t))"
  shows "writes env w' (rows @ [norm_row row])"
proof -
  obtain bs block offset where p: "row_canonical_bytes row = Inr bs"
    "seal_row env (w_inner w) bs = Inr (block, offset)" "length bs + 16 < 2 ^ 64"
    "w_file w' = w_file w @ be_bytes 8 (length bs + 16) @ block" "w_index w' = w_index w @ offset"
    "w_inner w' = (w_inner w)\<lparr>sp_bytes := sp_bytes (w_inner w) + (length bs + 48),
        sp_data_bytes := sp_data_bytes (w_inner w) + (length bs + 24), sp_rows := sp_rows (w_inner w) + 1\<rparr>"
    using push_Inr [OF assms(4)] by metis
  obtain ps where ps: "file_holds env (w_inner w) 0 (w_file w) ps" "list_all2 row_of ps rows"
    "index_holds env (w_inner w) 0 0 (w_index w) ps"
    "sp_rows (w_inner w) = length ps" "sp_data_bytes (w_inner w) = length (w_file w)"
    using assms(3) by (auto simp: writes_def)
  note sealed = seal_row_Inr [OF assms(1) p(2)]
  have "file_holds env (w_inner w) 0 (w_file w') (ps @ [bs])"
    unfolding p(4) using sealed ps p(3) by (intro file_holds_snoc) simp_all
  then have "file_holds env (w_inner w') 0 (w_file w') (ps @ [bs])"
    using file_holds_cong [of "w_inner w'" "w_inner w"] by (simp add: p(6))
  moreover have "index_holds env (w_inner w) 0 0 (w_index w') (ps @ [bs])"
    unfolding p(5) using sealed ps(4,5) file_holds_size [OF ps(1)]
    by (intro index_holds_snoc [OF ps(3)]) simp_all
  then have "index_holds env (w_inner w') 0 0 (w_index w') (ps @ [bs])"
    using index_holds_cong [of "w_inner w'" "w_inner w"] by (simp add: p(6))
  moreover have "row_of bs (norm_row row)"
    using p(1,3) assms(2) by (intro row_of_norm) (simp_all add: USIZE_MAX_def)
  then have "list_all2 row_of (ps @ [bs]) (rows @ [norm_row row])"
    using ps(2) by (simp add: list_all2_appendI)
  moreover have "sp_rows (w_inner w') = length (ps @ [bs])" "sp_data_bytes (w_inner w') = length (w_file w')"
    using sealed by (simp_all add: p(4,6) ps(4,5))
  ultimately show ?thesis unfolding writes_def by blast
qed

lemma push_batch_writes:
  assumes "aead_ok env" and "\<forall>r \<in> set new. wf_row r" and "writes env w rows"
    and "push_batch env new (w, st) = (Inr u, (w', t))"
  shows "writes env w' (rows @ map norm_row new)"
  using assms(2-4)
proof (induction new arbitrary: w st rows)
  case (Cons r new)
  then obtain u1 v x where p: "push env r (w, st) = (Inr u1, (v, x))"
    and q: "push_batch env new (v, x) = (Inr u, (w', t))"
    by (auto simp: run_simps)
  from Cons.IH [OF _ push_writes [OF assms(1) _ Cons.prems(2) p] q] Cons.prems(1) show ?case by simp
qed (simp add: run_simps)

lemma own_writer_Inr [run_simps]: "own_writer w m st = (Inr (x, w'), t) \<longleftrightarrow> m (w, st) = (Inr x, (w', t))"
  by (auto simp: own_writer_def split: prod.splits sum.splits)

lemma put_writes:
  assumes "aead_ok env" and "wf_row row" and "writes env w rows" and "put env row w st = (Inr w', t)"
  shows "writes env w' (rows @ [norm_row row])"
proof -
  obtain x where "push_batch env [row] (w, st) = (Inr x, (w', t))"
    using assms(4) unfolding put_def by (auto simp: run_simps simp del: push_batch.simps)
  then show ?thesis using push_batch_writes [OF assms(1) _ assms(3), of "[row]"] assms(2) by auto
qed

lemma finish_holds:
  assumes "writes env w rows" and "finish_writer env w st = (Inr h, t)"
  shows "holds env h rows"
proof -
  have "h_file h = w_file w" "h_index h = w_index w" "sp_key (h_inner h) = sp_key (w_inner w)"
    "sp_prefix (h_inner h) = sp_prefix (w_inner w)" "sp_rows (h_inner h) = sp_rows (w_inner w)"
    "sp_data_bytes (h_inner h) = sp_data_bytes (w_inner w)"
    using assms(2) by (auto simp: finish_writer_def or_drop_def run_simps split: prod.splits sum.splits)
  then show ?thesis
    using assms(1) file_holds_cong [of "h_inner h" "w_inner w"] index_holds_cong [of "h_inner h" "w_inner w"]
    by (auto simp: holds_def writes_def)
qed

lemma be_nat_u64: "n < 2 ^ 64 \<Longrightarrow> be_nat (be_bytes 8 n) = n"
  by (simp add: be_nat_be_bytes)

lemma open_cursor_Inr: "open_cursor env h st = (Inr c, t) \<Longrightarrow> c = \<lparr>c_handle = h, c_rest = h_file h, c_index = 0\<rparr>"
  by (auto simp: open_cursor_def run_simps)

lemma cursor_at_Inr:
  assumes "cursor_at env h i st = (Inr c, t)"
  shows "i \<le> sp_rows (h_inner h) \<and> c_handle c = h \<and> c_index c = i \<and>
    (i \<noteq> sp_rows (h_inner h) \<longrightarrow> (\<exists>block rest plain. drop (i * 24) (h_index h) = block @ rest \<and> length block = 24
      \<and> unseal env (sp_key (h_inner h)) (index_nonce (h_inner h) i) (be_bytes 8 i) block = Some plain
      \<and> c_rest c = drop (be_nat plain) (h_file h)))"
  using assms unfolding cursor_at_def
  by (auto simp: run_simps read_exact_Inr split: if_splits dest!: open_cursor_Inr)

lemma cursor_at_delivers:
  assumes "holds env h rows" and "sp_data_bytes (h_inner h) < 2 ^ 64"
    and "cursor_at env h i st = (Inr c, t)"
  shows "i \<le> length rows \<and> delivers env c (drop i rows)"
proof -
  let ?inner = "h_inner h"
  obtain ps where ps: "file_holds env ?inner 0 (h_file h) ps" "list_all2 row_of ps rows"
    "index_holds env ?inner 0 0 (h_index h) ps" "sp_rows ?inner = length ps" "sp_data_bytes ?inner = length (h_file h)"
    using assms(1) by (auto simp: holds_def)
  have len: "length ps = length rows" using ps(2) by (rule list_all2_lengthD)
  note c = cursor_at_Inr [OF assms(3)]
  have all: "list_all2 row_of (drop i ps) (drop i rows)" using ps(2) by (rule list_all2_dropI)
  have rest: "file_holds env ?inner i (c_rest c) (drop i ps)" if lt: "i < length ps"
  proof -
    obtain block rest where b: "drop (24 * i) (h_index h) = block @ rest" "length block = 24"
      "unseal env (sp_key ?inner) (index_nonce ?inner (0 + i)) (be_bytes 8 (0 + i)) block
        = Some (be_bytes 8 (0 + file_size (take i ps)))"
      by (rule index_holds_nth [OF ps(3) lt])
    have "file_size (take i ps) \<le> file_size ps"
      using append_take_drop_id [of i ps] by (metis file_size_def le_add1 map_append sum_list_append)
    then have "file_size (take i ps) < 2 ^ 64"
      using assms(2) ps(5) file_holds_size [OF ps(1)] by linarith
    then have "c_rest c = drop (file_size (take i ps)) (h_file h)"
      using c b lt ps(4) by (auto simp: mult.commute be_nat_u64)
    then show ?thesis using file_holds_drop [OF ps(1), of i] lt by simp
  qed
  show ?thesis
    using c ps(4) len rest all unfolding delivers_def by (auto intro!: exI [of _ "drop i ps"])
qed

subsection \<open>Properties\<close>

text \<open>Reading a snapshot to its end, as every consumer of a cursor does.\<close>

function read_rows :: "spool_env \<Rightarrow> spool_cursor \<Rightarrow> canonical_row list \<Rightarrow> canonical_row list task_action" where
  "read_rows env c rows st =
     abind (next_row env c) (\<lambda>(row, c) st.
       case row of None \<Rightarrow> (Inr rows, st) | Some r \<Rightarrow> read_rows env c (rows @ [r]) st) st"
  by pat_completeness auto

termination
  by (relation "measure (\<lambda>(env, c, rows, st). length (c_rest c))") (auto dest!: next_row_Inr)

declare read_rows.simps [simp del]

definition read_snapshot :: "spool_env \<Rightarrow> spool_handle \<Rightarrow> canonical_row list task_action" where
  "read_snapshot env h = abind (open_cursor env h) (\<lambda>c. read_rows env c [])"

definition write_snapshot :: "spool_env \<Rightarrow> budget \<Rightarrow> canonical_row list \<Rightarrow> spool_handle task_action" where
  "write_snapshot env b rows =
     abind (writer_new env b) (\<lambda>w.
     abind (own_writer w (push_batch env rows)) (\<lambda>(_, w). finish_writer env w))"

lemma read_rows_delivers:
  "delivers env c xs \<Longrightarrow> read_rows env c rows st = (Inr ys, t) \<Longrightarrow> ys = rows @ xs"
proof (induction xs arbitrary: c rows st)
  case Nil
  then obtain x c' u where n: "next_row env c st = (Inr (x, c'), u)"
    by (subst (asm) read_rows.simps) (auto simp: run_simps)
  then have "x = None" using next_row_delivers [OF Nil(1) n] by simp
  then show ?case using Nil(2) n by (subst (asm) read_rows.simps) (auto simp: run_simps)
next
  case (Cons r xs)
  then obtain x c' u where n: "next_row env c st = (Inr (x, c'), u)"
    by (subst (asm) read_rows.simps) (auto simp: run_simps)
  then have x: "x = Some r" "delivers env c' xs" using next_row_delivers [OF Cons.prems(1) n] by simp_all
  then have "read_rows env c' (rows @ [r]) u = (Inr ys, t)"
    using Cons.prems(2) n by (subst (asm) read_rows.simps) (auto simp: run_simps)
  then show ?case using Cons.IH [OF x(2), of "rows @ [r]" u] by simp
qed

lemma write_snapshot_holds:
  assumes "aead_ok env" and "\<forall>r \<in> set rows. wf_row r" and "write_snapshot env b rows st = (Inr h, t)"
  shows "holds env h (map norm_row rows)"
proof -
  obtain w u x w' v where r: "writer_new env b st = (Inr w, u)" "push_batch env rows (w, u) = (Inr x, (w', v))"
    "finish_writer env w' v = (Inr h, t)"
    using assms(3) by (auto simp: write_snapshot_def run_simps)
  have "writes env w' ([] @ map norm_row rows)"
    using push_batch_writes [OF assms(1,2) writer_new_writes [OF r(1)] r(2)] .
  then show ?thesis using finish_holds r(3) by simp
qed

text \<open>
  C22. A snapshot is read back as it was written: when the cipher undoes its own encryption, the
  rows a cursor delivers are the rows written, in order, with their decimals in normal form.
\<close>

theorem snapshot_round_trip:
  assumes "aead_ok env" and "\<forall>r \<in> set rows. wf_row r"
    and "write_snapshot env b rows st = (Inr h, t)" and "read_snapshot env h st' = (Inr ys, t')"
  shows "ys = map norm_row rows"
proof -
  obtain c u where "open_cursor env h st' = (Inr c, u)" "read_rows env c [] u = (Inr ys, t')"
    using assms(4) by (auto simp: read_snapshot_def run_simps)
  then show ?thesis
    using read_rows_delivers open_cursor_delivers [OF write_snapshot_holds [OF assms(1-3)]] by fastforce
qed

text \<open>A cipher that satisfies what is assumed of AES-GCM, for the witnesses only.\<close>

definition plain_env :: spool_env where
  "plain_env = \<lparr>seal = (\<lambda>k n a p. Some (p @ replicate 16 0)),
     unseal = (\<lambda>k n a c. if 16 \<le> length c then Some (take (length c - 16) c) else None),
     digest = (\<lambda>bs. of_bytes bs), draw = (\<lambda>n. ([], [1, 2, 3, of_nat n])), io_ok = (\<lambda>_. True),
     clock = (\<lambda>n. n), mem_size = (\<lambda>_. 100)\<rparr>"

lemma plain_env_ok: "aead_ok plain_env"
  by (simp add: aead_ok_def plain_env_def)

definition tiny_row :: "bool \<Rightarrow> canonical_row" where
  "tiny_row b = \<lparr>row_table = ''t'', row_key = [], row_values = [Bool b]\<rparr>"

text \<open>For evaluation, see \<open>Actions\<close>.\<close>

declare or_drop_def [code_unfold] with_memory_def [code_unfold] with_memory_writer_def [code_unfold] own_writer_def [code_unfold] on_writer_def [code_unfold] on_inner_def [code_unfold]

lemmas spool_run [code] = reserve_memory_def [THEN fun_cong] reserve_def [THEN fun_cong]
  writer_new_def [THEN fun_cong] store_block_def [THEN fun_cong] push_inner_def [THEN fun_cong]
  push_batch.simps [THEN fun_cong] put_def [THEN fun_cong] finish_writer_def [THEN fun_cong]
  open_cursor_def [THEN fun_cong] cursor_at_def [THEN fun_cong] handle_writer_def [THEN fun_cong]
  writer_with_overhead_def [THEN fun_cong] next_row_def [THEN fun_cong] read_snapshot_def [THEN fun_cong]
  write_snapshot_def [THEN fun_cong]

definition written_example :: "spool_handle task_action" where
  "written_example = write_snapshot plain_env default_budget [tiny_row True, tiny_row False]"

lemma written_example_runs:
  "wp written_example (\<lambda>h t. sp_data_bytes (h_inner h) < 2 ^ 64
      \<and> wp (read_snapshot plain_env h) (\<lambda>_ _. True) (\<lambda>_ _. False) t
      \<and> wp (abind (cursor_at plain_env h 1) (\<lambda>c. read_rows plain_env c [])) (\<lambda>_ _. True) (\<lambda>_ _. False) t)
    (\<lambda>_ _. False) (new_resources None)"
  by code_simp

lemma tiny_rows_wf: "\<forall>r \<in> set [tiny_row True, tiny_row False]. wf_row r"
  by code_simp

theorem snapshot_round_trip_witness:
  "\<exists>h t t'. written_example (new_resources None) = (Inr h, t)
     \<and> read_snapshot plain_env h t = (Inr [tiny_row True, tiny_row False], t')"
proof -
  obtain h t ys t' where run: "written_example (new_resources None) = (Inr h, t)"
    "read_snapshot plain_env h t = (Inr ys, t')"
    using written_example_runs by (blast dest!: wp_returns)
  then have "ys = map norm_row [tiny_row True, tiny_row False]"
    using snapshot_round_trip [OF plain_env_ok tiny_rows_wf] unfolding written_example_def by blast
  then show ?thesis using run by (simp add: norm_row_def tiny_row_def)
qed


definition example_inner :: spool_inner where
  "example_inner = \<lparr>sp_key = [], sp_prefix = [1, 2, 3, 4], sp_budget = default_budget, sp_bytes = 0,
     sp_data_bytes = 0, sp_rows = 0, sp_captured = 0\<rparr>"


text \<open>
  C24. Seeking lands on the row asked for: a cursor opened at row \<open>i\<close> through the encrypted index
  delivers exactly the rows from the \<open>i\<close>-th on, also at the end, where it delivers none.
\<close>

theorem cursor_at_seeks:
  assumes "aead_ok env" and "\<forall>r \<in> set rows. wf_row r"
    and "write_snapshot env b rows st = (Inr h, t)" and "sp_data_bytes (h_inner h) < 2 ^ 64"
    and "cursor_at env h i u = (Inr c, v)" and "read_rows env c [] u' = (Inr ys, v')"
  shows "i \<le> length rows \<and> ys = map norm_row (drop i rows)"
proof -
  have "i \<le> length (map norm_row rows) \<and> delivers env c (drop i (map norm_row rows))"
    by (rule cursor_at_delivers [OF write_snapshot_holds [OF assms(1-3)] assms(4,5)])
  then show ?thesis using read_rows_delivers [OF _ assms(6)] by (auto simp: drop_map)
qed

theorem cursor_at_seeks_witness:
  "\<exists>h t c u v. written_example (new_resources None) = (Inr h, t) \<and> cursor_at plain_env h 1 t = (Inr c, u)
     \<and> read_rows plain_env c [] u = (Inr [tiny_row False], v)"
proof -
  obtain h t where w: "written_example (new_resources None) = (Inr h, t)" "sp_data_bytes (h_inner h) < 2 ^ 64"
    "wp (abind (cursor_at plain_env h 1) (\<lambda>c. read_rows plain_env c [])) (\<lambda>_ _. True) (\<lambda>_ _. False) t"
    using wp_returns [OF written_example_runs] by blast
  then obtain c u ys v where r: "cursor_at plain_env h 1 t = (Inr c, u)" "read_rows plain_env c [] u = (Inr ys, v)"
    by (auto dest!: wp_returns simp: run_simps)
  have "ys = map norm_row (drop 1 [tiny_row True, tiny_row False])"
    using cursor_at_seeks [OF plain_env_ok tiny_rows_wf w(1) [unfolded written_example_def] w(2) r] by simp
  then show ?thesis using w(1) r by (simp add: norm_row_def tiny_row_def)
qed

end
