(* ===== verification/Spool_Sort.thy ===== *)
theory Spool_Sort
  imports Spool "HOL-Library.Product_Lexorder"
begin

text \<open>
  The external merge sort of a snapshot (\<open>compare\<close>, \<open>merge\<close> and \<open>external\_sort\<close> of
  \<open>src-tauri/src/db/data\_tasks/spool.rs\<close>): sorted runs of bounded size, merged two by two in a
  list of levels like the digits of a binary counter.
\<close>

subsection \<open>The order of rows\<close>

definition not_validated :: err where
  "not_validated = ''panic: validated row''"

definition row_rank :: "canonical_row \<Rightarrow> (bytes \<times> bytes) result" where
  "row_rank r = map_err (\<lambda>_. not_validated)
     (rbind (key_bytes r) (\<lambda>k. rbind (row_canonical_bytes r) (\<lambda>c. Inr (k, c))))"

text \<open>
  \<open>compare(a, b).is\_le()\<close>: pairs are ordered by the key bytes first, as \<open>then\_with\<close> does.
\<close>

definition compare_le :: "canonical_row \<Rightarrow> canonical_row \<Rightarrow> bool result" where
  "compare_le a b = rbind (row_rank a) (\<lambda>p. rbind (row_rank b) (\<lambda>q. Inr (p \<le> q)))"

subsection \<open>Merging two snapshots\<close>

text \<open>
  What a cursor still has to read, with the row already read. Reading a row takes at least the
  length and the tag of a block off the file, so the loops below end, whatever the files hold.
\<close>

definition left_over :: "spool_cursor \<Rightarrow> canonical_row option \<Rightarrow> nat" where
  "left_over c r = length (c_rest c) + (if r = None then 0 else 1)"

lemma next_row_less:
  assumes "next_row env c st = (Inr (x, c'), t)"
  shows "left_over c' x \<le> length (c_rest c)"
  using next_row_Inr [OF assms] by (auto simp: left_over_def split: option.splits)

lemma or_drop_Inr [run_simps]: "or_drop owned m st = (Inr x, t) \<longleftrightarrow> m st = (Inr x, t)"
  by (auto simp: or_drop_def split: prod.splits sum.splits)

definition take_left :: "canonical_row option \<Rightarrow> canonical_row option \<Rightarrow> bool result" where
  "take_left ra rb = (case (ra, rb) of
     (Some a, Some b) \<Rightarrow> compare_le a b
   | (Some _, None) \<Rightarrow> Inr True
   | _ \<Rightarrow> Inr False)"

function merge_loop ::
    "spool_env \<Rightarrow> spool_cursor \<Rightarrow> canonical_row option \<Rightarrow> spool_cursor \<Rightarrow> canonical_row option
       \<Rightarrow> spool_writer \<Rightarrow> spool_writer task_action" where
  "merge_loop env ca ra cb rb w st =
     (if ra = None \<and> rb = None then (Inr w, st)
      else
        abind (or_drop [w_inner w] (alift (take_left ra rb))) (\<lambda>left st.
        if left then
          (case ra of None \<Rightarrow> (Inr w, st)
           | Some a \<Rightarrow> abind (put env a w) (\<lambda>w.
               abind (or_drop [w_inner w] (next_row env ca)) (\<lambda>(ra, ca). merge_loop env ca ra cb rb w)) st)
        else
          (case rb of None \<Rightarrow> (Inr w, st)
           | Some b \<Rightarrow> abind (put env b w) (\<lambda>w.
               abind (or_drop [w_inner w] (next_row env cb)) (\<lambda>(rb, cb). merge_loop env ca ra cb rb w)) st)) st)"
  by pat_completeness auto
termination
  by (relation "measure (\<lambda>(env, ca, ra, cb, rb, w, st). left_over ca ra + left_over cb rb)")
     (auto simp: run_simps left_over_def split: if_splits dest!: next_row_less)

declare merge_loop.simps [simp del]

text \<open>\<open>merge\<close> borrows its inputs; the caller drops them.\<close>

definition merge :: "spool_env \<Rightarrow> spool_handle \<Rightarrow> spool_handle \<Rightarrow> spool_handle task_action" where
  "merge env a b =
     abind (open_cursor env a) (\<lambda>ca.
     abind (open_cursor env b) (\<lambda>cb.
     abind (next_row env ca) (\<lambda>(ra, ca).
     abind (next_row env cb) (\<lambda>(rb, cb).
     abind (handle_writer env a) (\<lambda>w.
     abind (merge_loop env ca ra cb rb w) (\<lambda>w. finish_writer env w))))))"

subsection \<open>Sorted runs\<close>

text \<open>
  One run: rows are taken while they fit, the first that does not is kept for the next run. A
  row costs its memory and the \<open>ROW_SIZE\<close> bytes of the struct itself.
\<close>

definition ROW_SIZE :: nat where
  "ROW_SIZE = 72"

definition run_limit :: "budget \<Rightarrow> nat" where
  "run_limit b = min (sort_run_bytes b) (memory_bytes b div 2)"

definition next_pending ::
    "spool_env \<Rightarrow> canonical_row option \<Rightarrow> spool_cursor \<Rightarrow> (canonical_row option \<times> spool_cursor) task_action" where
  "next_pending env pending c =
     (case pending of Some r \<Rightarrow> areturn (Some r, c) | None \<Rightarrow> next_row env c)"

lemma next_pending_less:
  assumes "next_pending env pending c st = (Inr (Some r, c'), t)"
  shows "left_over c' None < left_over c pending"
proof (cases pending)
  case None
  then show ?thesis using assms next_row_Inr [of env c st "Some r" c' t]
    by (auto simp: next_pending_def left_over_def)
qed (use assms in \<open>auto simp: next_pending_def run_simps left_over_def\<close>)

function fill_run ::
    "spool_env \<Rightarrow> nat \<Rightarrow> canonical_row list \<Rightarrow> nat \<Rightarrow> canonical_row option \<Rightarrow> spool_cursor
       \<Rightarrow> (canonical_row list \<times> canonical_row option \<times> spool_cursor) task_action" where
  "fill_run env limit rows held pending c st =
     abind (next_pending env pending c) (\<lambda>(row, c) st.
       case row of
         None \<Rightarrow> (Inr (rows, None, c), st)
       | Some r \<Rightarrow>
           let n = saturating_add (mem_size env r) ROW_SIZE in
           if rows \<noteq> [] \<and> limit < held + n then (Inr (rows, Some r, c), st)
           else fill_run env limit (rows @ [r]) (held + n) None c st) st"
  by pat_completeness auto

termination
  by (relation "measure (\<lambda>(env, limit, rows, held, pending, c, st). left_over c pending)")
     (auto dest!: next_pending_less)

declare fill_run.simps [simp del]

text \<open>
  \<open>sort\_unstable\_by(compare)\<close>. The comparison panics on a row without canonical bytes; it is not
  called for fewer than two rows. Rows it finds equal have the same canonical bytes.
\<close>

definition sort_rows :: "canonical_row list \<Rightarrow> canonical_row list result" where
  "sort_rows rows =
     (if length rows < 2 then Inr rows
      else rbind (collect_results (\<lambda>r. rbind (row_rank r) (\<lambda>p. Inr (p, r))) rows)
        (\<lambda>ranked. Inr (map snd (sort_key fst ranked))))"

subsection \<open>Levels\<close>

text \<open>The spools a list of levels owns.\<close>

fun owned :: "spool_handle option list \<Rightarrow> spool_inner list" where
  "owned [] = []"
| "owned (None # ls) = owned ls"
| "owned (Some h # ls) = h_inner h # owned ls"

definition drop_handle :: "spool_handle \<Rightarrow> unit task_action" where
  "drop_handle h = amodify (drop_spool (h_inner h))"

text \<open>Both inputs of a merge are dropped, whether it succeeds or fails.\<close>

definition merge_owned ::
    "spool_env \<Rightarrow> spool_handle option list \<Rightarrow> spool_handle \<Rightarrow> spool_handle \<Rightarrow> spool_handle task_action" where
  "merge_owned env others a b =
     abind (or_drop (h_inner a # h_inner b # owned others) (merge env a b)) (\<lambda>m.
     abind (drop_handle a) (\<lambda>_.
     abind (drop_handle b) (\<lambda>_. areturn m)))"

fun carry ::
    "spool_env \<Rightarrow> spool_handle \<Rightarrow> spool_handle option list \<Rightarrow> spool_handle option list task_action" where
  "carry env run [] = areturn [Some run]"
| "carry env run (None # ls) = areturn (Some run # ls)"
| "carry env run (Some other # ls) =
     abind (merge_owned env ls other run) (\<lambda>run.
     abind (carry env run ls) (\<lambda>ls. areturn (None # ls)))"

fun merge_levels ::
    "spool_env \<Rightarrow> spool_handle option \<Rightarrow> spool_handle option list \<Rightarrow> spool_handle option task_action" where
  "merge_levels env merged [] = areturn merged"
| "merge_levels env merged (None # ls) = merge_levels env merged ls"
| "merge_levels env None (Some run # ls) = merge_levels env (Some run) ls"
| "merge_levels env (Some other) (Some run # ls) =
     abind (merge_owned env ls other run) (\<lambda>m. merge_levels env (Some m) ls)"

definition write_run :: "spool_env \<Rightarrow> spool_handle \<Rightarrow> canonical_row list \<Rightarrow> spool_handle task_action" where
  "write_run env s rows =
     abind (alift (sort_rows rows)) (\<lambda>rows.
     abind (handle_writer env s) (\<lambda>w.
     abind (own_writer w (push_batch env rows)) (\<lambda>(_, w). finish_writer env w)))"

lemma fill_run_cases:
  assumes "fill_run env limit rows held pending c st = (Inr (rows', pending', c'), t)"
  obtains (ended) "next_pending env pending c st = (Inr (None, c'), t)" "rows' = rows" "pending' = None"
  | (full) r where "next_pending env pending c st = (Inr (Some r, c'), t)" "rows' = rows" "pending' = Some r"
      "rows \<noteq> []"
  | (more) r d u where "next_pending env pending c st = (Inr (Some r, d), u)"
      "\<not> (rows \<noteq> [] \<and> limit < held + saturating_add (mem_size env r) ROW_SIZE)"
      "fill_run env limit (rows @ [r]) (held + saturating_add (mem_size env r) ROW_SIZE) None d u
        = (Inr (rows', pending', c'), t)"
proof -
  obtain row d u where np: "next_pending env pending c st = (Inr (row, d), u)"
    and rest: "(case row of
         None \<Rightarrow> (Inr (rows, None, d), u)
       | Some r \<Rightarrow>
           let n = saturating_add (mem_size env r) ROW_SIZE in
           if rows \<noteq> [] \<and> limit < held + n then (Inr (rows, Some r, d), u)
           else fill_run env limit (rows @ [r]) (held + n) None d u) = (Inr (rows', pending', c'), t)"
    using assms by (subst (asm) fill_run.simps) (auto simp: run_simps)
  show ?thesis
  proof (cases row)
    case None
    then show ?thesis using np rest ended by simp
  next
    case (Some r)
    show ?thesis
    proof (cases "rows \<noteq> [] \<and> limit < held + saturating_add (mem_size env r) ROW_SIZE")
      case True
      then have "rows' = rows \<and> pending' = Some r \<and> c' = d \<and> u = t"
        using rest True by (simp only: Some option.case Let_def if_True prod.inject sum.inject simp_thms)
      then show ?thesis using np True full [of r] Some by blast
    next
      case False
      then have "fill_run env limit (rows @ [r]) (held + saturating_add (mem_size env r) ROW_SIZE) None d u
          = (Inr (rows', pending', c'), t)"
        using rest False by (simp only: Some option.case Let_def if_False)
      then show ?thesis using np False more [of r d u] Some by blast
    qed
  qed
qed

lemma fill_run_less:
  "fill_run env limit rows held pending c st = (Inr (rows', pending', c'), t) \<Longrightarrow>
     left_over c' pending' \<le> left_over c pending \<and> (rows' \<noteq> rows \<longrightarrow> left_over c' pending' < left_over c pending)"
proof (induction "left_over c pending" arbitrary: rows held pending c st rule: less_induct)
  case less
  from less.prems show ?case
  proof (cases rule: fill_run_cases)
    case ended
    then have "pending = None \<and> next_row env c st = (Inr (None, c'), t)"
      by (cases pending) (simp_all add: next_pending_def run_simps)
    then show ?thesis using next_row_Inr [of env c st None c' t] ended by simp
  next
    case (full r)
    then show ?thesis using next_pending_less [OF full(1)]
      by (cases pending) (auto simp: left_over_def next_pending_def run_simps dest: next_row_Inr)
  next
    case (more r d u)
    then show ?thesis using less.hyps [OF next_pending_less more(3)] next_pending_less [OF more(1)] by fastforce
  qed
qed

function sort_runs ::
    "spool_env \<Rightarrow> spool_handle \<Rightarrow> spool_handle option list \<Rightarrow> canonical_row option \<Rightarrow> spool_cursor
       \<Rightarrow> spool_handle option list task_action" where
  "sort_runs env s levels pending c st =
     abind (or_drop (owned levels) (fill_run env (run_limit (sp_budget (h_inner s))) [] 0 pending c))
       (\<lambda>(rows, pending, c) st.
         if rows = [] then (Inr levels, st)
         else abind (or_drop (owned levels) (write_run env s rows)) (\<lambda>run.
           abind (carry env run levels) (\<lambda>levels. sort_runs env s levels pending c)) st) st"
  by pat_completeness auto

termination
  by (relation "measure (\<lambda>(env, s, levels, pending, c, st). left_over c pending)")
     (auto simp: run_simps dest!: fill_run_less)

declare sort_runs.simps [simp del]

subsection \<open>The sort\<close>

text \<open>The hash is fed each row with its length, in order; the argument is what it was fed so far.\<close>

function digest_loop :: "spool_env \<Rightarrow> spool_cursor \<Rightarrow> bytes \<Rightarrow> string task_action" where
  "digest_loop env c fed st =
     abind (next_row env c) (\<lambda>(row, c) st.
       case row of
         None \<Rightarrow> (Inr (digest env fed), st)
       | Some r \<Rightarrow> abind (alift (row_canonical_bytes r)) (\<lambda>bs.
           digest_loop env c (fed @ be_bytes 8 (length bs) @ bs)) st) st"
  by pat_completeness auto

termination
  by (relation "measure (\<lambda>(env, c, fed, st). length (c_rest c))") (auto dest!: next_row_Inr)

declare digest_loop.simps [simp del]

definition captured_as :: "spool_handle \<Rightarrow> spool_handle \<Rightarrow> spool_handle" where
  "captured_as s h = h\<lparr>h_inner := (h_inner h)\<lparr>sp_captured := sp_captured (h_inner s)\<rparr>\<rparr>"

definition external_sort :: "spool_env \<Rightarrow> spool_handle \<Rightarrow> sorted_spool task_action" where
  "external_sort env s =
     (let b = sp_budget (h_inner s) in
      with_memory b (memory_bytes b div 2) (
        abind (open_cursor env s) (\<lambda>c.
        abind (sort_runs env s [] None c) (\<lambda>levels.
        abind (merge_levels env None levels) (\<lambda>merged.
        abind (case merged of Some h \<Rightarrow> areturn h
               | None \<Rightarrow> abind (handle_writer env s) (finish_writer env)) (\<lambda>h.
        let h = captured_as s h in
        abind (or_drop [h_inner h] (abind (open_cursor env h) (\<lambda>c. digest_loop env c []))) (\<lambda>d.
          areturn \<lparr>so_spool = h, so_digest = d\<rparr>)))))))"

subsection \<open>The sort gives back what it takes\<close>

lemma accounts_merge_loop:
  "accounts (sp_bytes (w_inner w)) (merge_loop env ca ra cb rb w) (\<lambda>w. sp_bytes (w_inner w))"
proof (induction "left_over ca ra + left_over cb rb" arbitrary: ca ra cb rb w rule: less_induct)
  case less
  let ?own = "\<lambda>w. sp_bytes (w_inner w)"
  have drop: "accounts (?own w) (or_drop [w_inner w] m) (\<lambda>_. ?own w)" if "quiet m" for w and m :: "'x task_action"
    using accounts_or_drop_quiet [OF that, of "[w_inner w]"] by simp
  have step: "accounts (?own w) (abind (put env a w) (\<lambda>w. abind (or_drop [w_inner w] (next_row env c)) (f w))) ?own"
    if "\<And>w x c' s t. next_row env c s = (Inr (x, c'), t) \<Longrightarrow> accounts (?own w) (f w (x, c')) ?own" for a w c f
  proof (rule accounts_abind [OF accounts_put])
    fix v
    show "accounts (?own v) (abind (or_drop [w_inner v] (next_row env c)) (f v)) ?own"
      by (rule accounts_abind_run [OF drop [OF quiet_next_row]]) (auto simp: run_simps intro: that)
  qed
  have left: "accounts (?own w) (abind (put env a w) (\<lambda>w. abind (or_drop [w_inner w] (next_row env ca))
      (\<lambda>(ra, ca). merge_loop env ca ra cb rb w))) ?own" if "ra = Some a" for a w
    by (rule step) (auto simp: that left_over_def intro!: less dest!: next_row_less)
  have right: "accounts (?own w) (abind (put env b w) (\<lambda>w. abind (or_drop [w_inner w] (next_row env cb))
      (\<lambda>(rb, cb). merge_loop env ca ra cb rb w))) ?own" if "rb = Some b" for b w
    by (rule step) (auto simp: that left_over_def intro!: less dest!: next_row_less)
  let ?body = "abind (or_drop [w_inner w] (alift (take_left ra rb))) (\<lambda>left st.
        if left then
          (case ra of None \<Rightarrow> (Inr w, st)
           | Some a \<Rightarrow> abind (put env a w) (\<lambda>w.
               abind (or_drop [w_inner w] (next_row env ca)) (\<lambda>(ra, ca). merge_loop env ca ra cb rb w)) st)
        else
          (case rb of None \<Rightarrow> (Inr w, st)
           | Some b \<Rightarrow> abind (put env b w) (\<lambda>w.
               abind (or_drop [w_inner w] (next_row env cb)) (\<lambda>(rb, cb). merge_loop env ca ra cb rb w)) st))"
  have body: "accounts (?own w) ?body ?own"
  proof (rule accounts_abind [OF drop [OF quiet_basic(3)]])
    fix l
    have "accounts (?own w) (\<lambda>st. (Inr w, st)) ?own" by (auto simp: accounts_def)
    then show "accounts (?own w) (\<lambda>st. if l then
          (case ra of None \<Rightarrow> (Inr w, st)
           | Some a \<Rightarrow> abind (put env a w) (\<lambda>w.
               abind (or_drop [w_inner w] (next_row env ca)) (\<lambda>(ra, ca). merge_loop env ca ra cb rb w)) st)
        else
          (case rb of None \<Rightarrow> (Inr w, st)
           | Some b \<Rightarrow> abind (put env b w) (\<lambda>w.
               abind (or_drop [w_inner w] (next_row env cb)) (\<lambda>(rb, cb). merge_loop env ca ra cb rb w)) st)) ?own"
      using left [of _ w] right [of _ w] by (cases l; cases ra; cases rb) simp_all
  qed
  have "merge_loop env ca ra cb rb w = (\<lambda>st. if ra = None \<and> rb = None then (Inr w, st) else ?body st)"
    by (rule ext, subst merge_loop.simps) simp
  then show ?case using body by (cases "ra = None \<and> rb = None") (auto simp: accounts_def)
qed

lemma accounts_merge [accounts_intros]: "accounts 0 (merge env a b) (\<lambda>h. sp_bytes (h_inner h))"
  unfolding merge_def
  by (rule accounts_after_quiet [OF quiet_open_cursor], rule accounts_after_quiet [OF quiet_open_cursor],
      rule accounts_after_quiet [OF quiet_next_row], rule accounts_prod,
      rule accounts_after_quiet [OF quiet_next_row], rule accounts_prod,
      rule accounts_abind [OF accounts_handle_writer], rule accounts_abind [OF accounts_merge_loop],
      rule accounts_finish)

definition held :: "spool_handle option list \<Rightarrow> nat" where
  "held ls = total (owned ls)"

lemma held_simps [simp]:
  "held [] = 0" "held (None # ls) = held ls" "held (Some h # ls) = sp_bytes (h_inner h) + held ls"
  by (simp_all add: held_def)

lemma accounts_drop_handle:
  "accounts (n + sp_bytes (h_inner h)) (drop_handle h) (\<lambda>_. n)"
  by (auto simp: accounts_def drop_handle_def run_simps drop_spool_def)

lemma accounts_merge_owned:
  "accounts (sp_bytes (h_inner a) + sp_bytes (h_inner b) + held ls) (merge_owned env ls a b)
     (\<lambda>m. sp_bytes (h_inner m) + held ls)"
  unfolding merge_owned_def
proof (rule accounts_abind)
  show "accounts (sp_bytes (h_inner a) + sp_bytes (h_inner b) + held ls)
     (or_drop (h_inner a # h_inner b # owned ls) (merge env a b))
     (\<lambda>m. sp_bytes (h_inner m) + held ls + sp_bytes (h_inner b) + sp_bytes (h_inner a))"
    using accounts_or_drop [OF accounts_merge, of "h_inner a # h_inner b # owned ls" env a b]
    by (simp add: held_def add_ac)
qed (rule accounts_abind [OF accounts_drop_handle], rule accounts_abind [OF accounts_drop_handle],
    rule accounts_areturn, simp)

lemma accounts_none_cons:
  "accounts n m held \<Longrightarrow> accounts n (abind m (\<lambda>ls. areturn (None # ls))) held"
  by (erule accounts_abind) (simp add: accounts_areturn)

lemma accounts_carry: "accounts (sp_bytes (h_inner run) + held ls) (carry env run ls) held"
proof (induction env run ls rule: carry.induct)
  case (3 env run other ls)
  have "accounts (sp_bytes (h_inner run) + held (Some other # ls)) (merge_owned env ls other run)
      (\<lambda>m. sp_bytes (h_inner m) + held ls)"
    using accounts_merge_owned [of other run ls env] by (simp add: add_ac)
  then show ?case by (simp add: accounts_abind accounts_none_cons 3)
qed (auto intro: accounts_areturn)

fun held_option :: "spool_handle option \<Rightarrow> nat" where
  "held_option None = 0"
| "held_option (Some h) = sp_bytes (h_inner h)"

lemma accounts_merge_levels:
  "accounts (held_option m + held ls) (merge_levels env m ls) held_option"
proof (induction env m ls rule: merge_levels.induct)
  case (4 env other run ls)
  have "accounts (held_option (Some other) + held (Some run # ls)) (merge_owned env ls other run)
      (\<lambda>m. held_option (Some m) + held ls)"
    using accounts_merge_owned [of other run ls env] by (simp add: add_ac)
  then show ?case unfolding merge_levels.simps by (rule accounts_abind) (rule 4)
qed (auto intro: accounts_areturn)

lemma accounts_write_run [accounts_intros]:
  "accounts 0 (write_run env s rows) (\<lambda>h. sp_bytes (h_inner h))"
  unfolding write_run_def
  by (intro accounts_after_quiet quiet_intros accounts_abind [OF accounts_handle_writer]
      accounts_abind [OF accounts_own_writer [OF writer_accounts_push_batch]] accounts_prod)
     (auto intro: accounts_finish)

lemma quiet_next_pending: "quiet (next_pending env pending c)"
  by (cases pending) (simp_all add: next_pending_def quiet_intros)

lemma quiet_abind_run:
  assumes "quiet m" and "\<And>x s t. m s = (Inr x, t) \<Longrightarrow> quiet (f x)"
  shows "quiet (abind m f)"
  unfolding quiet_def
proof (intro allI impI)
  fix s r t
  assume run: "abind m f s = (r, t)"
  obtain r1 u where m: "m s = (r1, u)" by fastforce
  then have "leases_kept s u" using assms(1) by (simp add: quiet_def)
  moreover have "leases_kept u t"
    using run m assms(2) [of s] by (cases r1) (auto simp: abind_def quiet_def)
  ultimately show "leases_kept s t" by (rule leases_kept_trans)
qed

lemma quiet_fill_run: "quiet (fill_run env limit rows n pending c)"
proof (induction "left_over c pending" arbitrary: rows n pending c rule: less_induct)
  case less
  show ?case
  proof (subst fill_run.simps [abs_def], rule quiet_abind_run [OF quiet_next_pending], clarify)
    fix row d s t
    assume np: "next_pending env pending c s = (Inr (row, d), t)"
    have "quiet (fill_run env limit rows' n' None d)" if "row = Some r" for r rows' n'
      using less.hyps [of d None] next_pending_less [of env pending c s r d t] np that by blast
    then show "quiet (\<lambda>st. case row of None \<Rightarrow> (Inr (rows, None, d), st)
       | Some r \<Rightarrow> let n' = saturating_add (mem_size env r) ROW_SIZE in
           if rows \<noteq> [] \<and> limit < n + n' then (Inr (rows, Some r, d), st)
           else fill_run env limit (rows @ [r]) (n + n') None d st)"
      by (cases row) (auto simp: quiet_def Let_def)
  qed
qed

lemma accounts_sort_runs: "accounts (held levels) (sort_runs env s levels pending c) held"
proof (induction "left_over c pending" arbitrary: levels pending c rule: less_induct)
  case less
  have drop: "accounts (held ls) (or_drop (owned ls) m) (\<lambda>_. held ls)" if "quiet m" for ls and m :: "'x task_action"
    using accounts_or_drop_quiet [OF that, of "owned ls"] by (simp add: held_def)
  have run: "accounts (held ls) (or_drop (owned ls) (write_run env s rows)) (\<lambda>h. sp_bytes (h_inner h) + held ls)" for ls rows
    using accounts_or_drop [OF accounts_write_run, of "owned ls"] by (simp add: held_def)
  show ?case
  proof (subst sort_runs.simps [abs_def], rule accounts_abind_run [OF drop [OF quiet_fill_run]], clarify)
    fix rows p d st t
    assume "or_drop (owned levels) (fill_run env (run_limit (sp_budget (h_inner s))) [] 0 pending c) st = (Inr (rows, p, d), t)"
    then have fill: "fill_run env (run_limit (sp_budget (h_inner s))) [] 0 pending c st = (Inr (rows, p, d), t)"
      by (simp add: run_simps)
    have rest: "accounts (held levels) (abind (or_drop (owned levels) (write_run env s rows)) (\<lambda>run.
        abind (carry env run levels) (\<lambda>levels. sort_runs env s levels p d))) held" if "rows \<noteq> []"
      using fill_run_less [OF fill] that
      by (intro accounts_abind [OF run] accounts_abind [OF accounts_carry] less.hyps) simp
    show "accounts (held levels) (\<lambda>st. if rows = [] then (Inr levels, st)
       else abind (or_drop (owned levels) (write_run env s rows)) (\<lambda>run.
         abind (carry env run levels) (\<lambda>levels. sort_runs env s levels p d)) st) held"
      using rest by (cases "rows = []") (auto simp: accounts_def)
  qed
qed

lemma quiet_digest: "quiet (digest_loop env c fed)"
proof (induction "length (c_rest c)" arbitrary: c fed rule: less_induct)
  case less
  show ?case
  proof (subst digest_loop.simps [abs_def], rule quiet_abind_run [OF quiet_next_row], clarify)
    fix row d s t
    assume nr: "next_row env c s = (Inr (row, d), t)"
    have "quiet (digest_loop env d fed')" if "row = Some r" for r fed'
      using less.hyps [of d] next_row_Inr [OF nr] that by auto
    then have "quiet (abind (alift (row_canonical_bytes r)) (\<lambda>bs. digest_loop env d (fed @ be_bytes 8 (length bs) @ bs)))"
      if "row = Some r" for r
      using that by (intro quiet_intros)
    then show "quiet (\<lambda>st. case row of None \<Rightarrow> (Inr (digest env fed), st)
       | Some r \<Rightarrow> abind (alift (row_canonical_bytes r)) (\<lambda>bs.
           digest_loop env d (fed @ be_bytes 8 (length bs) @ bs)) st)"
      by (cases row) (auto simp: quiet_def)
  qed
qed

lemma accounts_external_sort: "accounts 0 (external_sort env s) (\<lambda>so. sp_bytes (h_inner (so_spool so)))"
proof -
  have final: "accounts (sp_bytes (h_inner h)) (abind (or_drop [h_inner h] (abind (open_cursor env h) (\<lambda>c. digest_loop env c [])))
     (\<lambda>d. areturn \<lparr>so_spool = h, so_digest = d\<rparr>)) (\<lambda>so. sp_bytes (h_inner (so_spool so)))" for h
  proof (rule accounts_abind)
    show "accounts (sp_bytes (h_inner h)) (or_drop [h_inner h] (abind (open_cursor env h) (\<lambda>c. digest_loop env c [])))
        (\<lambda>_. sp_bytes (h_inner h))"
      using accounts_or_drop_quiet [of "abind (open_cursor env h) (\<lambda>c. digest_loop env c [])" "[h_inner h]"]
      by (simp add: quiet_abind quiet_open_cursor quiet_digest)
  qed (simp add: accounts_areturn)
  have last: "accounts (held_option m) (case m of Some h \<Rightarrow> areturn h
      | None \<Rightarrow> abind (handle_writer env s) (finish_writer env)) (\<lambda>h. sp_bytes (h_inner h))" for m
    by (cases m) (auto intro: accounts_areturn accounts_abind accounts_handle_writer accounts_finish)
  have "sp_bytes (h_inner (captured_as s h)) = sp_bytes (h_inner h)" for h
    by (simp add: captured_as_def)
  note final' = final [of "captured_as s _", unfolded this]
  show ?thesis
    unfolding external_sort_def Let_def
    by (rule accounts_with_memory, rule accounts_after_quiet [OF quiet_open_cursor],
        rule accounts_abind [OF accounts_sort_runs [of "[]", simplified]],
        rule accounts_abind [OF accounts_merge_levels [of None, simplified]],
        rule accounts_abind [OF last], rule final')
qed

subsection \<open>The rows a sort delivers\<close>

text \<open>A row that was read back from a snapshot.\<close>

definition stored_row :: "canonical_row \<Rightarrow> bool" where
  "stored_row r \<longleftrightarrow> (\<exists>p. row_of p r \<and> length p \<le> USIZE_MAX)"

text \<open>The rank the sort uses, for rows that have one.\<close>

definition rank_of :: "canonical_row \<Rightarrow> bytes \<times> bytes" where
  "rank_of r = (case row_rank r of Inl _ \<Rightarrow> ([], []) | Inr p \<Rightarrow> p)"

lemma stored_rank: "stored_row r \<Longrightarrow> row_rank r = Inr (rank_of r)"
  by (auto simp: stored_row_def rank_of_def row_rank_def row_of_def row_canonical_bytes_def map_err_def)

lemma rank_of_inj:
  assumes "stored_row r" and "stored_row q" and "rank_of r = rank_of q"
  shows "r = q"
proof -
  obtain p p' where "row_of p r" "row_of p' q" using assms(1,2) by (auto simp: stored_row_def)
  moreover have "snd (rank_of r) = p" "snd (rank_of q) = p'"
    using calculation stored_rank [OF assms(1)] stored_rank [OF assms(2)]
    by (auto simp: row_of_def row_rank_def map_err_def split: sum.splits dest!: sym [of _ "rank_of _"])
  then have "p = p'" using assms(3) by simp
  ultimately show ?thesis by (simp add: row_of_def)
qed

lemma stored_norm: "stored_row r \<Longrightarrow> norm_row r = r \<and> wf_row r"
  by (auto simp: stored_row_def row_of_norm_row) (simp add: row_of_def)

lemma map_norm_stored: "\<forall>r \<in> set rows. stored_row r \<Longrightarrow> map norm_row rows = rows"
  by (induction rows) (simp_all add: stored_norm)

lemma take_left_stored:
  "stored_row a \<Longrightarrow> stored_row b \<Longrightarrow> take_left (Some a) (Some b) = Inr (rank_of a \<le> rank_of b)"
  by (simp add: take_left_def compare_le_def stored_rank)

text \<open>Merging as a function on lists.\<close>

fun merge_rows :: "canonical_row list \<Rightarrow> canonical_row list \<Rightarrow> canonical_row list" where
  "merge_rows [] bs = bs"
| "merge_rows as [] = as"
| "merge_rows (a # as) (b # bs) =
     (if rank_of a \<le> rank_of b then a # merge_rows as (b # bs) else b # merge_rows (a # as) bs)"

lemma merge_rows_Nil [simp]: "merge_rows as [] = as"
  by (cases as) simp_all

lemma mset_merge_rows [simp]: "mset (merge_rows as bs) = mset as + mset bs"
  by (induction as bs rule: merge_rows.induct) auto

lemma set_merge_rows [simp]: "set (merge_rows as bs) = set as \<union> set bs"
  by (metis mset_merge_rows set_mset_mset set_mset_union)

definition rank_sorted :: "canonical_row list \<Rightarrow> bool" where
  "rank_sorted rows \<longleftrightarrow> sorted (map rank_of rows)"

lemma sorted_merge_rows: "rank_sorted as \<Longrightarrow> rank_sorted bs \<Longrightarrow> rank_sorted (merge_rows as bs)"
  unfolding rank_sorted_def
  by (induction as bs rule: merge_rows.induct) (auto intro: order_trans less_imp_le simp: not_le)

subsection \<open>Merging two snapshots\<close>

text \<open>A cursor with the row it has read: together they deliver the rows.\<close>

definition stream :: "spool_env \<Rightarrow> canonical_row option \<Rightarrow> spool_cursor \<Rightarrow> canonical_row list \<Rightarrow> bool" where
  "stream env r c rows \<longleftrightarrow> (\<forall>x \<in> set rows. stored_row x) \<and>
     (case rows of [] \<Rightarrow> r = None \<and> delivers env c [] | y # ys \<Rightarrow> r = Some y \<and> delivers env c ys)"

lemma file_holds_small: "file_holds env inner i bs ps \<Longrightarrow> p \<in> set ps \<Longrightarrow> length p \<le> USIZE_MAX"
  by (induction env inner i bs ps rule: file_holds.induct) (auto simp: USIZE_MAX_def)

lemma list_all2_pre: "list_all2 P xs ys \<Longrightarrow> y \<in> set ys \<Longrightarrow> \<exists>x \<in> set xs. P x y"
  by (induction rule: list_all2_induct) auto

lemma delivers_file:
  assumes "delivers env c rows" and "x \<in> set rows"
  shows "stored_row x"
proof -
  obtain ps where ps: "ps \<noteq> [] \<longrightarrow> file_holds env (h_inner (c_handle c)) (c_index c) (c_rest c) ps"
    "list_all2 row_of ps rows"
    using assms(1) by (auto simp: delivers_def)
  obtain p where p: "p \<in> set ps" "row_of p x" using list_all2_pre [OF ps(2) assms(2)] by blast
  then have "length p \<le> USIZE_MAX" using ps(1) by (intro file_holds_small) auto
  with p(2) show ?thesis by (auto simp: stored_row_def)
qed

lemma holds_stored: "holds env h rows \<Longrightarrow> x \<in> set rows \<Longrightarrow> stored_row x"
  using delivers_file [of env "\<lparr>c_handle = h, c_rest = h_file h, c_index = 0\<rparr>" rows x]
  by (auto simp: holds_def delivers_def)

lemma next_row_stream:
  assumes "delivers env c rows" and "next_row env c st = (Inr (x, c'), t)"
  shows "stream env x c' rows"
  using next_row_delivers [OF assms] delivers_file [OF assms(1)] assms(1)
  by (auto simp: stream_def split: list.splits)

lemma merge_loop_writes:
  assumes "aead_ok env"
  shows "stream env ra ca as \<Longrightarrow> stream env rb cb bs \<Longrightarrow> writes env w rows \<Longrightarrow>
    merge_loop env ca ra cb rb w st = (Inr w', t) \<Longrightarrow> writes env w' (rows @ merge_rows as bs)"
proof (induction "length as + length bs" arbitrary: as bs ra ca rb cb w rows st rule: less_induct)
  case less
  note run = less.prems(4)
  have left: ?case if a: "as = a # as'" and l: "take_left ra rb = Inr True" and m: "merge_rows as bs = a # merge_rows as' bs" for a as'
  proof -
    have sa: "ra = Some a" "delivers env ca as'" "stored_row a" using less.prems(1) a by (auto simp: stream_def)
    obtain v u x d y where p: "put env a w u = (Inr v, x)" and q: "next_row env ca x = (Inr d, y)"
      and r: "merge_loop env (snd d) (fst d) cb rb v y = (Inr w', t)"
      using run l sa(1) by (subst (asm) merge_loop.simps) (auto simp: run_simps)
    have "stream env (fst d) (snd d) as'" using next_row_stream [OF sa(2)] q by (cases d) auto
    moreover have "writes env v (rows @ [a])"
      using put_writes [OF assms _ less.prems(3) p] stored_norm [OF sa(3)] by simp
    moreover have "length as' + length bs < length as + length bs" by (simp add: a)
    ultimately have "writes env w' ((rows @ [a]) @ merge_rows as' bs)"
      using less.hyps r less.prems(1,2) by blast
    then show ?thesis by (simp add: m)
  qed
  have right: ?case if b: "bs = b # bs'" and l: "take_left ra rb = Inr False" and m: "merge_rows as bs = b # merge_rows as bs'" for b bs'
  proof -
    have sb: "rb = Some b" "delivers env cb bs'" "stored_row b" using less.prems(2) b by (auto simp: stream_def)
    obtain v u x d y where p: "put env b w u = (Inr v, x)" and q: "next_row env cb x = (Inr d, y)"
      and r: "merge_loop env ca ra (snd d) (fst d) v y = (Inr w', t)"
      using run l sb(1) by (subst (asm) merge_loop.simps) (auto simp: run_simps)
    have "stream env (fst d) (snd d) bs'" using next_row_stream [OF sb(2)] q by (cases d) auto
    moreover have "writes env v (rows @ [b])"
      using put_writes [OF assms _ less.prems(3) p] stored_norm [OF sb(3)] by simp
    moreover have "length as + length bs' < length as + length bs" by (simp add: b)
    ultimately have "writes env w' ((rows @ [b]) @ merge_rows as bs')"
      using less.hyps r less.prems(1,2) by blast
    then show ?thesis by (simp add: m)
  qed
  show ?case
  proof (cases as; cases bs)
    assume "as = []" "bs = []"
    then show ?case using less.prems by (subst (asm) merge_loop.simps) (auto simp: stream_def)
  next
    fix b bs' assume b: "as = []" "bs = b # bs'"
    then show ?case using right [OF b(2)] less.prems(1,2) by (simp add: stream_def take_left_def)
  next
    fix a as' assume a: "as = a # as'" "bs = []"
    then show ?case using left [OF a(1)] less.prems(1,2) by (simp add: stream_def take_left_def)
  next
    fix a as' b bs' assume ab: "as = a # as'" "bs = b # bs'"
    then have tl: "take_left ra rb = Inr (rank_of a \<le> rank_of b)"
      using less.prems(1,2) take_left_stored [of a b] by (auto simp: stream_def)
    show ?case using left [OF ab(1)] right [OF ab(2)] tl ab by (cases "rank_of a \<le> rank_of b") auto
  qed
qed

lemma merge_holds:
  assumes "aead_ok env" and "holds env a as" and "holds env b bs" and "merge env a b st = (Inr h, t)"
  shows "holds env h (merge_rows as bs)"
proof -
  obtain ca s1 cb s2 ra ca' s3 rb cb' s4 w s5 w' s6 s0 where
    m: "open_cursor env a s0 = (Inr ca, s1)" "open_cursor env b s1 = (Inr cb, s2)"
    "next_row env ca s2 = (Inr (ra, ca'), s3)" "next_row env cb s3 = (Inr (rb, cb'), s4)"
    "handle_writer env a s4 = (Inr w, s5)" "merge_loop env ca' ra cb' rb w s5 = (Inr w', s6)"
    "finish_writer env w' s6 = (Inr h, t)"
    using assms(4) unfolding merge_def by (auto simp: run_simps)
  have "stream env ra ca' as"
    using next_row_stream [OF open_cursor_delivers [OF assms(2) m(1)] m(3)] .
  moreover have "stream env rb cb' bs"
    using next_row_stream [OF open_cursor_delivers [OF assms(3) m(2)] m(4)] .
  moreover have "writes env w []" using m(5) by (auto simp: handle_writer_def intro: writer_new_writes)
  ultimately have "writes env w' ([] @ merge_rows as bs)"
    using m(6) by (rule merge_loop_writes [OF assms(1)])
  then show ?thesis using finish_holds m(7) by simp
qed

subsection \<open>Runs and levels\<close>

lemma collect_ranks:
  "\<forall>r \<in> set rows. stored_row r \<Longrightarrow>
     collect_results (\<lambda>r. rbind (row_rank r) (\<lambda>p. Inr (p, r))) rows = Inr (map (\<lambda>r. (rank_of r, r)) rows)"
  by (induction rows) (simp_all add: stored_rank)

lemma sort_rows_stored:
  assumes "\<forall>r \<in> set rows. stored_row r" and "sort_rows rows = Inr ys"
  shows "mset ys = mset rows \<and> rank_sorted ys"
proof (cases "length rows < 2")
  case True
  then obtain r where "rows = [] \<or> rows = [r]" by (cases rows) (auto simp: length_Suc_conv less_2_cases_iff)
  then show ?thesis using assms(2) True by (auto simp: sort_rows_def rank_sorted_def)
next
  case False
  let ?ranked = "map (\<lambda>r. (rank_of r, r)) rows"
  have ys: "ys = map snd (sort_key fst ?ranked)"
    using assms False by (simp add: sort_rows_def collect_ranks)
  have "mset ys = mset rows" by (simp add: ys multiset.map_comp o_def)
  moreover have "map rank_of ys = map fst (sort_key fst ?ranked)"
  proof -
    have "\<forall>x \<in> set (sort_key fst ?ranked). rank_of (snd x) = fst x" by auto
    then show ?thesis by (simp add: ys)
  qed
  then have "rank_sorted ys" by (simp add: rank_sorted_def)
  ultimately show ?thesis by simp
qed

lemma write_run_holds:
  assumes "aead_ok env" and "\<forall>r \<in> set rows. stored_row r" and "write_run env s rows st = (Inr h, t)"
  shows "\<exists>ys. holds env h ys \<and> mset ys = mset rows \<and> rank_sorted ys"
proof -
  obtain ys u w v x w' y where r: "sort_rows rows = Inr ys" "handle_writer env s u = (Inr w, v)"
    "push_batch env ys (w, v) = (Inr x, (w', y))" "finish_writer env w' y = (Inr h, t)"
    using assms(3) unfolding write_run_def by (auto simp: run_simps)
  have ys: "mset ys = mset rows" "rank_sorted ys" using sort_rows_stored [OF assms(2) r(1)] by simp_all
  then have st: "\<forall>r \<in> set ys. stored_row r" using assms(2) mset_eq_setD by metis
  have "writes env w []" using r(2) by (auto simp: handle_writer_def intro: writer_new_writes)
  then have "writes env w' ([] @ map norm_row ys)"
    using push_batch_writes [OF assms(1) _ _ r(3)] st stored_norm by blast
  then have "holds env h ys" using finish_holds r(4) by (simp add: map_norm_stored [OF st])
  with ys show ?thesis by blast
qed

text \<open>The levels hold sorted rows: what they hold altogether is the multiset of rows so far.\<close>

inductive levels_hold :: "spool_env \<Rightarrow> spool_handle option list \<Rightarrow> canonical_row multiset \<Rightarrow> bool" for env where
  levels_Nil: "levels_hold env [] {#}"
| levels_None: "levels_hold env ls m \<Longrightarrow> levels_hold env (None # ls) m"
| levels_Some: "levels_hold env ls m \<Longrightarrow> holds env h rows \<Longrightarrow> rank_sorted rows \<Longrightarrow>
    levels_hold env (Some h # ls) (mset rows + m)"

inductive_cases levels_NilE: "levels_hold env [] m"
inductive_cases levels_NoneE: "levels_hold env (None # ls) m"
inductive_cases levels_SomeE: "levels_hold env (Some h # ls) m"

lemma merge_owned_holds:
  assumes "aead_ok env" and "holds env a as" and "holds env b bs"
    and "merge_owned env ls a b st = (Inr h, t)"
  shows "holds env h (merge_rows as bs)"
  using assms(4) merge_holds [OF assms(1-3)] by (auto simp: merge_owned_def run_simps)

lemma carry_holds:
  "aead_ok env \<Longrightarrow> levels_hold env ls m \<Longrightarrow> holds env run rows \<Longrightarrow> rank_sorted rows \<Longrightarrow>
    carry env run ls st = (Inr ls', t) \<Longrightarrow> levels_hold env ls' (mset rows + m)"
proof (induction env run ls arbitrary: m rows st ls' t rule: carry.induct)
  case (1 env run)
  then have "m = {#}" "ls' = [Some run]" by (auto simp: run_simps elim: levels_NilE)
  then show ?case using levels_Some [OF levels_Nil 1(3,4)] by simp
next
  case (2 env run ls)
  then show ?case by (auto simp: run_simps elim: levels_NoneE intro: levels_Some)
next
  case (3 env run other ls)
  obtain n as where l: "levels_hold env ls n" "holds env other as" "rank_sorted as" "m = mset as + n"
    using 3(3) by (auto elim: levels_SomeE)
  obtain h u v ls1 where c: "merge_owned env ls other run st = (Inr h, u)" "carry env h ls u = (Inr ls1, v)" "ls' = None # ls1"
    using 3(6) by (auto simp: run_simps)
  have "levels_hold env ls1 (mset (merge_rows as rows) + n)"
    by (rule "3.IH" [OF 3(2) l(1) merge_owned_holds [OF 3(2) l(2) 3(4) c(1)] sorted_merge_rows [OF l(3) 3(5)] c(2)])
  then show ?case using levels_None by (simp add: l(4) c(3) ac_simps)
qed

lemma merge_levels_holds:
  "aead_ok env \<Longrightarrow> levels_hold env ls m \<Longrightarrow>
    (case acc of None \<Rightarrow> rows = [] | Some h \<Rightarrow> holds env h rows \<and> rank_sorted rows) \<Longrightarrow>
    merge_levels env acc ls st = (Inr res, t) \<Longrightarrow>
    \<exists>ys. mset ys = mset rows + m \<and> (case res of None \<Rightarrow> ys = [] | Some h \<Rightarrow> holds env h ys \<and> rank_sorted ys)"
proof (induction env acc ls arbitrary: m rows st rule: merge_levels.induct)
  case (1 env merged)
  have "m = {#}" using 1(2) by (rule levels_NilE)
  then show ?case using 1(3,4) by (intro exI [of _ rows]) (auto simp: run_simps split: option.splits)
next
  case (2 env merged ls)
  then show ?case by (auto elim: levels_NoneE)
next
  case (3 env run ls)
  obtain n as where l: "levels_hold env ls n" "holds env run as" "rank_sorted as" "m = mset as + n"
    using 3(3) by (auto elim: levels_SomeE)
  show ?case using 3(1) [OF 3(2) l(1), of as] l 3(4,5) by (simp add: ac_simps)
next
  case (4 env other run ls)
  obtain n as where l: "levels_hold env ls n" "holds env run as" "rank_sorted as" "m = mset as + n"
    using 4(3) by (auto elim: levels_SomeE)
  obtain h u where c: "merge_owned env ls other run st = (Inr h, u)" "merge_levels env (Some h) ls u = (Inr res, t)"
    using 4(5) by (auto simp: run_simps)
  have o: "holds env other rows" "rank_sorted rows" using 4(4) by simp_all
  have "\<exists>ys. mset ys = mset (merge_rows rows as) + n \<and> (case res of None \<Rightarrow> ys = [] | Some h \<Rightarrow> holds env h ys \<and> rank_sorted ys)"
    by (rule "4.IH" [OF 4(2) l(1) _ c(2)])
       (simp add: merge_owned_holds [OF 4(2) o(1) l(2) c(1)] sorted_merge_rows [OF o(2) l(3)])
  then show ?case by (simp add: l(4) ac_simps)
qed

definition queue :: "spool_env \<Rightarrow> canonical_row option \<Rightarrow> spool_cursor \<Rightarrow> canonical_row list \<Rightarrow> bool" where
  "queue env pending c rows \<longleftrightarrow> (\<forall>x \<in> set rows. stored_row x) \<and>
     (case pending of None \<Rightarrow> delivers env c rows | Some r \<Rightarrow> \<exists>ys. rows = r # ys \<and> delivers env c ys)"

lemma next_pending_queue:
  assumes "queue env pending c rows" and "next_pending env pending c st = (Inr (x, c'), t)"
  shows "case rows of [] \<Rightarrow> x = None \<and> delivers env c' [] | y # ys \<Rightarrow> x = Some y \<and> delivers env c' ys"
proof (cases pending)
  case None
  then have "delivers env c rows" "next_row env c st = (Inr (x, c'), t)"
    using assms by (auto simp: queue_def next_pending_def)
  from next_row_stream [OF this] show ?thesis by (auto simp: stream_def split: list.splits)
qed (use assms in \<open>auto simp: queue_def next_pending_def run_simps\<close>)

lemma fill_run_queue:
  "queue env pending c xs \<Longrightarrow> fill_run env limit rows n pending c st = (Inr (rows', pending', c'), t) \<Longrightarrow>
     \<exists>taken rest. xs = taken @ rest \<and> rows' = rows @ taken \<and> queue env pending' c' rest \<and> (rows' = [] \<longrightarrow> rest = [])"
proof (induction xs arbitrary: rows n pending c st)
  case Nil
  from Nil(2) show ?case
  proof (cases rule: fill_run_cases)
    case ended
    then show ?thesis using next_pending_queue [OF Nil(1) ended(1)] by (auto simp: queue_def)
  qed (use next_pending_queue [OF Nil(1)] in fastforce)+
next
  case (Cons x xs)
  have stored: "stored_row x" "\<forall>y \<in> set xs. stored_row y" using Cons.prems(1) by (auto simp: queue_def)
  from Cons.prems(2) show ?case
  proof (cases rule: fill_run_cases)
    case ended
    then show ?thesis using next_pending_queue [OF Cons.prems(1) ended(1)] by simp
  next
    case (full r)
    then have "r = x" "delivers env c' xs" using next_pending_queue [OF Cons.prems(1) full(1)] by simp_all
    then have "queue env pending' c' (x # xs)" using full stored by (simp add: queue_def)
    then show ?thesis using full by (intro exI [of _ "[]"] exI [of _ "x # xs"]) simp
  next
    case (more r d u)
    then have "r = x" "delivers env d xs" using next_pending_queue [OF Cons.prems(1) more(1)] by simp_all
    then have "queue env None d xs" using stored by (simp add: queue_def)
    from Cons.IH [OF this more(3)] \<open>r = x\<close> obtain taken rest where
      "xs = taken @ rest" "rows' = (rows @ [x]) @ taken" "queue env pending' c' rest" by auto
    then show ?thesis by (intro exI [of _ "x # taken"] exI [of _ rest]) auto
  qed
qed

lemma sort_runs_holds:
  assumes "aead_ok env"
  shows "levels_hold env ls m \<Longrightarrow> queue env pending c xs \<Longrightarrow>
    sort_runs env s ls pending c st = (Inr ls', t) \<Longrightarrow> levels_hold env ls' (mset xs + m)"
proof (induction "length xs" arbitrary: ls m pending c xs st rule: less_induct)
  case less
  obtain rows p d u where f: "fill_run env (run_limit (sp_budget (h_inner s))) [] 0 pending c st = (Inr (rows, p, d), u)"
    and rest: "(if rows = [] then (Inr ls, u)
         else abind (or_drop (owned ls) (write_run env s rows)) (\<lambda>run.
           abind (carry env run ls) (\<lambda>levels. sort_runs env s levels p d)) u) = (Inr ls', t)"
    using less.prems(3) by (subst (asm) sort_runs.simps) (auto simp: run_simps)
  obtain left where q: "xs = rows @ left" "queue env p d left" "rows = [] \<longrightarrow> left = []"
    using fill_run_queue [OF less.prems(2) f] by auto
  show ?case
  proof (cases "rows = []")
    case True
    then show ?thesis using rest q less.prems(1) by simp
  next
    case False
    obtain run v ls1 w where r: "write_run env s rows u = (Inr run, v)" "carry env run ls v = (Inr ls1, w)"
      "sort_runs env s ls1 p d w = (Inr ls', t)"
      using rest False by (auto simp: run_simps)
    have "\<forall>r \<in> set rows. stored_row r" using less.prems(2) q(1) by (auto simp: queue_def)
    then obtain ys where ys: "holds env run ys" "mset ys = mset rows" "rank_sorted ys"
      using write_run_holds [OF assms _ r(1)] by blast
    have "levels_hold env ls1 (mset ys + m)" by (rule carry_holds [OF assms less.prems(1) ys(1,3) r(2)])
    from less.hyps [OF _ this q(2) r(3)] False q(1) ys(2) show ?thesis by (simp add: ac_simps)
  qed
qed

subsection \<open>The result of a sort\<close>

text \<open>What the hash of a sorted snapshot is fed.\<close>

fun digest_input :: "canonical_row list \<Rightarrow> bytes" where
  "digest_input [] = []"
| "digest_input (r # rs) = (case row_canonical_bytes r of Inl _ \<Rightarrow> []
     | Inr bs \<Rightarrow> be_bytes 8 (length bs) @ bs @ digest_input rs)"

lemma digest_loop_result:
  "delivers env c rows \<Longrightarrow> digest_loop env c fed st = (Inr d, t) \<Longrightarrow> d = digest env (fed @ digest_input rows)"
proof (induction rows arbitrary: c fed st)
  case Nil
  then obtain x c' u where n: "next_row env c st = (Inr (x, c'), u)"
    by (subst (asm) digest_loop.simps) (auto simp: run_simps)
  then have "x = None" using next_row_delivers [OF Nil(1) n] by simp
  then show ?case using Nil(2) n by (subst (asm) digest_loop.simps) (auto simp: run_simps)
next
  case (Cons r rows)
  then obtain x c' u where n: "next_row env c st = (Inr (x, c'), u)"
    by (subst (asm) digest_loop.simps) (auto simp: run_simps)
  then have x: "x = Some r" "delivers env c' rows" using next_row_delivers [OF Cons.prems(1) n] by simp_all
  then obtain bs where "row_canonical_bytes r = Inr bs"
    "digest_loop env c' (fed @ be_bytes 8 (length bs) @ bs) u = (Inr d, t)"
    using Cons.prems(2) n by (subst (asm) digest_loop.simps) (auto simp: run_simps)
  then show ?case using Cons.IH [OF x(2), of "fed @ be_bytes 8 (length bs) @ bs" u] by simp
qed

lemma holds_captured: "holds env (captured_as s h) rows = holds env h rows"
  using file_holds_cong [of "h_inner (captured_as s h)" "h_inner h"]
    index_holds_cong [of "h_inner (captured_as s h)" "h_inner h"]
  by (simp add: holds_def captured_as_def)

lemma external_sort_holds:
  assumes "aead_ok env" and "holds env s rows" and "external_sort env s st = (Inr so, t)"
  shows "\<exists>ys. holds env (so_spool so) ys \<and> mset ys = mset rows \<and> rank_sorted ys
    \<and> so_digest so = digest env (digest_input ys)"
proof -
  obtain s0 c s1 levels s2 merged s3 h s4 c2 s5 d s6 where r: "open_cursor env s s0 = (Inr c, s1)"
    "sort_runs env s [] None c s1 = (Inr levels, s2)" "merge_levels env None levels s2 = (Inr merged, s3)"
    "(case merged of Some h \<Rightarrow> areturn h | None \<Rightarrow> abind (handle_writer env s) (finish_writer env)) s3 = (Inr h, s4)"
    "open_cursor env (captured_as s h) s4 = (Inr c2, s5)" "digest_loop env c2 [] s5 = (Inr d, s6)"
    "so = \<lparr>so_spool = captured_as s h, so_digest = d\<rparr>"
    using assms(3) unfolding external_sort_def Let_def
    by (auto simp: run_simps dest!: with_memory_Inr)
  have "queue env None c rows"
    using open_cursor_delivers [OF assms(2) r(1)] holds_stored [OF assms(2)] by (simp add: queue_def)
  from sort_runs_holds [OF assms(1) levels_Nil this r(2)] have "levels_hold env levels (mset rows)" by simp
  from merge_levels_holds [OF assms(1) this _ r(3), of "[]"] obtain ys where
    ys: "mset ys = mset rows" "case merged of None \<Rightarrow> ys = [] | Some h \<Rightarrow> holds env h ys \<and> rank_sorted ys"
    by auto
  have "holds env h ys \<and> rank_sorted ys"
  proof (cases merged)
    case None
    then have "holds env h []"
      using r(4) by (auto simp: run_simps handle_writer_def dest!: writer_new_writes intro: finish_holds)
    then show ?thesis using ys(2) None by (simp add: rank_sorted_def)
  next
    case (Some g)
    then show ?thesis using ys(2) r(4) by (simp add: run_simps)
  qed
  moreover have "d = digest env (digest_input ys)"
    using digest_loop_result [OF open_cursor_delivers [OF _ r(5)] r(6)] calculation by (simp add: holds_captured)
  ultimately show ?thesis using ys(1) by (auto simp: r(7) holds_captured)
qed

text \<open>Rows determine their sorted list, hence the digest.\<close>

lemma rank_sorted_unique:
  assumes "mset xs = mset ys" and "rank_sorted xs" and "rank_sorted ys" and "\<forall>r \<in> set xs. stored_row r"
  shows "xs = ys"
proof -
  have "mset (map rank_of xs) = mset (map rank_of ys)" using assms(1) by simp
  then have "sort (map rank_of ys) = map rank_of xs"
    using assms(2) by (intro properties_for_sort) (simp_all add: rank_sorted_def)
  then have "map rank_of xs = map rank_of ys"
    using assms(3) by (simp add: rank_sorted_def sort_key_id_if_sorted)
  moreover have "inj_on rank_of (set xs \<union> set ys)"
    using assms(1,4) rank_of_inj mset_eq_setD [OF assms(1)] by (auto intro!: inj_onI)
  ultimately show ?thesis by (simp add: inj_on_map_eq_map)
qed

subsection \<open>Properties\<close>

text \<open>
  C25. The external sort is a sort: whatever runs and merges the budget forces, a sort that
  succeeds leaves a snapshot of exactly the rows of its input in the order of their key bytes and
  canonical bytes, and a digest of exactly that sequence.
\<close>

theorem external_sort_sorts:
  assumes "aead_ok env" and "\<forall>r \<in> set rows. wf_row r"
    and "write_snapshot env b rows st = (Inr s, t)" and "external_sort env s u = (Inr so, v)"
  shows "holds env (so_spool so) (sort_key rank_of (map norm_row rows))
    \<and> so_digest so = digest env (digest_input (sort_key rank_of (map norm_row rows)))"
proof -
  have s: "holds env s (map norm_row rows)" by (rule write_snapshot_holds [OF assms(1-3)])
  then obtain ys where ys: "holds env (so_spool so) ys" "mset ys = mset (map norm_row rows)" "rank_sorted ys"
    "so_digest so = digest env (digest_input ys)"
    using external_sort_holds [OF assms(1) _ assms(4)] by blast
  have "ys = sort_key rank_of (map norm_row rows)"
    using ys(2,3) holds_stored [OF ys(1)] by (intro rank_sorted_unique) (auto simp: rank_sorted_def)
  then show ?thesis using ys(1,4) by simp
qed

definition small_budget :: budget where
  "small_budget = default_budget\<lparr>sort_run_bytes := 1\<rparr>"

text \<open>For evaluation, see \<open>Actions\<close>.\<close>

lemmas spool_sort_run [code] = merge_def [THEN fun_cong] next_pending_def [THEN fun_cong]
  drop_handle_def [THEN fun_cong] merge_owned_def [THEN fun_cong] carry.simps [THEN fun_cong]
  merge_levels.simps [THEN fun_cong] write_run_def [THEN fun_cong] external_sort_def [THEN fun_cong]

definition sorted_example :: "sorted_spool task_action" where
  "sorted_example = abind (write_snapshot plain_env small_budget [tiny_row True, tiny_row False]) (external_sort plain_env)"

lemma sorted_example_runs:
  "wp sorted_example (\<lambda>_ _. True) (\<lambda>_ _. False) (new_resources None)"
  by code_simp

theorem external_sort_sorts_witness:
  "\<exists>so t. sorted_example (new_resources None) = (Inr so, t)
     \<and> holds plain_env (so_spool so) [tiny_row False, tiny_row True]"
proof -
  obtain so t h u where run: "sorted_example (new_resources None) = (Inr so, t)"
    "write_snapshot plain_env small_budget [tiny_row True, tiny_row False] (new_resources None) = (Inr h, u)"
    "external_sort plain_env h u = (Inr so, t)"
    using wp_returns [OF sorted_example_runs] unfolding sorted_example_def by (auto simp: run_simps)
  have "sort_key rank_of (map norm_row [tiny_row True, tiny_row False]) = [tiny_row False, tiny_row True]"
    by code_simp
  then show ?thesis
    using external_sort_sorts [OF plain_env_ok tiny_rows_wf run(2,3)] run(1) by metis
qed


definition one_row_sorted :: "budget \<Rightarrow> sorted_spool task_action" where
  "one_row_sorted b = abind (write_snapshot plain_env b [tiny_row True]) (external_sort plain_env)"

lemma one_row_runs:
  "wp (one_row_sorted small_budget) (\<lambda>_ t. wp (one_row_sorted default_budget) (\<lambda>_ _. True) (\<lambda>_ _. False) t)
     (\<lambda>_ _. False) (new_resources None)"
  by code_simp


text \<open>
  C27. A sort leaks nothing: it returns every lease of memory, and the disk space in use afterwards
  is what it was before, plus the sorted snapshot when there is one; a failed sort, at whatever
  point it failed, leaves nothing behind.
\<close>

theorem external_sort_resources:
  "case external_sort env s st of (r, t) \<Rightarrow> memory_used t = memory_used st
     \<and> disk_used t = disk_used st + (case r of Inl _ \<Rightarrow> 0 | Inr so \<Rightarrow> sp_bytes (h_inner (so_spool so)))"
  using accountsD [OF accounts_external_sort, of env s st] by (auto split: prod.splits sum.splits)

end
