(* ===== verification/Plan.thy ===== *)
theory Plan
  imports Metadata Spool_Sort
begin

text \<open>
  The plan of a data task (\<open>src-tauri/src/db/data\_tasks/plan.rs\<close>): the snapshots are sorted and
  walked side by side, the differences become operations, and the rows the target must hold
  afterwards are written down beforehand as the expected snapshot.
\<close>

subsection \<open>Operations\<close>

record plan_operation =
  op_kind :: data_diff_operation
  op_old :: "canonical_row option"
  op_new :: "canonical_row option"

definition operation_kind :: "data_value list \<Rightarrow> data_diff_operation result" where
  "operation_kind key = (case key of
     Text s # _ \<Rightarrow>
       if s = ''insert'' then Inr DiffInsert
       else if s = ''update'' then Inr DiffUpdate
       else if s = ''delete'' then Inr DiffDelete
       else if s = ''retain'' then Inr DiffRetain
       else Inl ''invalid_mapping: the operation is damaged''
   | _ \<Rightarrow> Inl ''invalid_mapping: the record of the operation is damaged'')"

fun is_uint :: "data_value \<Rightarrow> bool" where
  "is_uint (UInt64 _) = True"
| "is_uint _ = False"

definition operation_from_row :: "canonical_row \<Rightarrow> plan_operation result" where
  "operation_from_row row =
     rbind (operation_kind (row_key row)) (\<lambda>kind.
       if length (row_key row) < 2 \<or> \<not> is_uint (row_key row ! 1)
       then Inl ''invalid_mapping: the position of the operation is damaged''
       else (let payload = row\<lparr>row_key := drop 2 (row_key row)\<rparr> in
         Inr (case kind of
             DiffInsert \<Rightarrow> \<lparr>op_kind = kind, op_old = None, op_new = Some payload\<rparr>
           | DiffUpdate \<Rightarrow> \<lparr>op_kind = kind, op_old = Some (payload\<lparr>row_values := []\<rparr>), op_new = Some payload\<rparr>
           | _ \<Rightarrow> \<lparr>op_kind = kind, op_old = Some payload, op_new = None\<rparr>)))"

definition operation_name :: "data_diff_operation \<Rightarrow> string" where
  "operation_name kind = (case kind of
     DiffInsert \<Rightarrow> ''insert'' | DiffUpdate \<Rightarrow> ''update'' | DiffDelete \<Rightarrow> ''delete'' | DiffRetain \<Rightarrow> ''retain'')"

definition operation_row :: "data_diff_operation \<Rightarrow> canonical_row \<Rightarrow> nat \<Rightarrow> canonical_row" where
  "operation_row kind row target_index =
     row\<lparr>row_key := Text (operation_name kind) # UInt64 (of_nat target_index) # row_key row\<rparr>"

definition put_operation ::
    "spool_env \<Rightarrow> data_diff_operation \<Rightarrow> canonical_row \<Rightarrow> nat \<Rightarrow> spool_writer \<Rightarrow> spool_writer task_action" where
  "put_operation env kind row target_index w = put env (operation_row kind row target_index) w"

subsection \<open>Counts\<close>

record plan_counts =
  cn_source :: nat
  cn_target :: nat
  cn_insert :: nat
  cn_update :: nat
  cn_delete :: nat
  cn_unchanged :: nat
  cn_retained :: nat
  cn_expected :: nat

definition no_counts :: plan_counts where
  "no_counts = \<lparr>cn_source = 0, cn_target = 0, cn_insert = 0, cn_update = 0, cn_delete = 0,
     cn_unchanged = 0, cn_retained = 0, cn_expected = 0\<rparr>"

definition ipc_counts :: "plan_counts \<Rightarrow> data_task_counts" where
  "ipc_counts c = \<lparr>source_rows = nat_to_string (cn_source c), target_rows = nat_to_string (cn_target c),
     inserted = nat_to_string (cn_insert c), updated = nat_to_string (cn_update c),
     deleted = nat_to_string (cn_delete c), unchanged = nat_to_string (cn_unchanged c),
     retained = nat_to_string (cn_retained c),
     written = nat_to_string (cn_insert c + cn_update c + cn_delete c),
     verified = nat_to_string (cn_expected c)\<rparr>"

text \<open>The \<open>BTreeMap\<close> of the counts, sorted by table; a table that is not in it panics.\<close>

type_synonym count_map = "(string \<times> plan_counts) list"

definition initial_counts :: "validated_mapping \<Rightarrow> count_map" where
  "initial_counts mapping = map (\<lambda>t. (t, no_counts)) (sort (remdups (map vt_target (vm_tables mapping))))"

definition bump :: "string \<Rightarrow> (plan_counts \<Rightarrow> plan_counts) \<Rightarrow> count_map \<Rightarrow> count_map result" where
  "bump table f counts =
     (if table \<in> set (map fst counts) then Inr (map (\<lambda>(t, c). if t = table then (t, f c) else (t, c)) counts)
      else Inl ''panic: no counts for the table'')"

definition count_insert :: "plan_counts \<Rightarrow> plan_counts" where
  "count_insert c = c\<lparr>cn_source := cn_source c + 1, cn_insert := cn_insert c + 1, cn_expected := cn_expected c + 1\<rparr>"

definition count_both :: "bool \<Rightarrow> plan_counts \<Rightarrow> plan_counts" where
  "count_both same c = (let c = c\<lparr>cn_source := cn_source c + 1, cn_target := cn_target c + 1, cn_expected := cn_expected c + 1\<rparr>
     in if same then c\<lparr>cn_unchanged := cn_unchanged c + 1\<rparr> else c\<lparr>cn_update := cn_update c + 1\<rparr>)"

definition count_target_only :: "bool \<Rightarrow> plan_counts \<Rightarrow> plan_counts" where
  "count_target_only removed c = (let c = c\<lparr>cn_target := cn_target c + 1\<rparr>
     in if removed then c\<lparr>cn_delete := cn_delete c + 1\<rparr>
        else c\<lparr>cn_retained := cn_retained c + 1, cn_expected := cn_expected c + 1\<rparr>)"

subsection \<open>Checking a sorted snapshot\<close>

fun key_locates :: "nat list \<Rightarrow> data_value list \<Rightarrow> data_value list \<Rightarrow> unit result" where
  "key_locates (i # is) values (v # vs) =
     (if i < length values
      then rbind (canonical_bytes (values ! i)) (\<lambda>a. rbind (canonical_bytes v) (\<lambda>b.
        if a \<noteq> b then Inl ''invalid_mapping: the key of the snapshot does not match''
        else key_locates is values vs))
      else Inl ''panic: index out of bounds'')"
| "key_locates _ values _ = Inr ()"

fun inexact_key :: "data_value \<Rightarrow> bool" where
  "inexact_key (Float _) = True"
| "inexact_key (Json _) = True"
| "inexact_key (Temporal _ _) = True"
| "inexact_key _ = False"

definition check_row ::
    "validated_mapping \<Rightarrow> bool \<Rightarrow> bytes option \<Rightarrow> canonical_row \<Rightarrow> bytes option result" where
  "check_row mapping unique previous row =
     rbind (ok_or ''invalid_mapping: the snapshot has a table that was not selected''
       (List.find (\<lambda>t. vt_target t = row_table row) (vm_tables mapping))) (\<lambda>table.
     if length (row_values row) \<noteq> length (vt_target_columns table)
        \<or> length (row_key row) \<noteq> length (key_indices table)
     then Inl ''invalid_mapping: the projection of the snapshot does not match the mapping''
     else rbind (key_locates (key_indices table) (row_values row) (row_key row)) (\<lambda>_.
       if \<not> unique then Inr previous
       else if row_key row = [] \<or> (\<exists>v \<in> set (row_key row). is_null v)
       then Inl ''invalid_mapping: the key of a row is empty''
       else if \<exists>v \<in> set (row_key row). inexact_key v
       then Inl ''unsupported_capability: cannot prove the uniqueness of such a key''
       else rbind (key_bytes row) (\<lambda>key.
         if previous = Some key then Inl ''invalid_mapping: the key of a row is repeated''
         else Inr (Some key))))"

function check_loop ::
    "spool_env \<Rightarrow> validated_mapping \<Rightarrow> bool \<Rightarrow> spool_cursor \<Rightarrow> bytes option \<Rightarrow> unit task_action" where
  "check_loop env mapping unique c previous st =
     abind (next_row env c) (\<lambda>(row, c) st.
       case row of
         None \<Rightarrow> (Inr (), st)
       | Some r \<Rightarrow> abind (alift (check_row mapping unique previous r))
           (\<lambda>previous. check_loop env mapping unique c previous) st) st"
  by pat_completeness auto

termination
  by (relation "measure (\<lambda>(env, mapping, unique, c, previous, st). length (c_rest c))")
     (auto dest!: next_row_Inr)

declare check_loop.simps [simp del]

definition check_rows :: "spool_env \<Rightarrow> spool_handle \<Rightarrow> validated_mapping \<Rightarrow> bool \<Rightarrow> unit task_action" where
  "check_rows env h mapping unique = abind (open_cursor env h) (\<lambda>c. check_loop env mapping unique c None)"

subsection \<open>Walking the two snapshots\<close>

datatype ordering = OLess | OEqual | OGreater

definition row_ordering :: "canonical_row option \<Rightarrow> canonical_row option \<Rightarrow> ordering result" where
  "row_ordering s t = (case (s, t) of
     (Some a, Some b) \<Rightarrow> rbind (key_bytes a) (\<lambda>p. rbind (key_bytes b) (\<lambda>q.
       Inr (if p < q then OLess else if p = q then OEqual else OGreater)))
   | (Some _, None) \<Rightarrow> Inr OLess
   | _ \<Rightarrow> Inr OGreater)"

text \<open>The two writers of a plan, the operations and the expected rows, and the counts.\<close>

record plan_output =
  po_counts :: count_map
  po_operations :: spool_writer
  po_expected :: spool_writer

definition po_owned :: "plan_output \<Rightarrow> spool_inner list" where
  "po_owned po = [w_inner (po_operations po), w_inner (po_expected po)]"

definition po_count :: "string \<Rightarrow> (plan_counts \<Rightarrow> plan_counts) \<Rightarrow> plan_output \<Rightarrow> plan_output task_action" where
  "po_count table f po = abind (or_drop (po_owned po) (alift (bump table f (po_counts po))))
     (\<lambda>counts. areturn (po\<lparr>po_counts := counts\<rparr>))"

definition po_operation ::
    "spool_env \<Rightarrow> data_diff_operation \<Rightarrow> canonical_row \<Rightarrow> nat \<Rightarrow> plan_output \<Rightarrow> plan_output task_action" where
  "po_operation env kind row index po =
     abind (or_drop [w_inner (po_expected po)] (put_operation env kind row index (po_operations po)))
       (\<lambda>w. areturn (po\<lparr>po_operations := w\<rparr>))"

definition po_expect :: "spool_env \<Rightarrow> canonical_row \<Rightarrow> plan_output \<Rightarrow> plan_output task_action" where
  "po_expect env row po =
     abind (or_drop [w_inner (po_operations po)] (put env row (po_expected po)))
       (\<lambda>w. areturn (po\<lparr>po_expected := w\<rparr>))"

definition emit_insert :: "spool_env \<Rightarrow> canonical_row \<Rightarrow> plan_output \<Rightarrow> plan_output task_action" where
  "emit_insert env r po =
     abind (po_count (row_table r) count_insert po) (\<lambda>po.
     abind (po_operation env DiffInsert r U64_MAX po) (\<lambda>po. po_expect env r po))"

definition emit_both ::
    "spool_env \<Rightarrow> canonical_row \<Rightarrow> canonical_row \<Rightarrow> nat \<Rightarrow> plan_output \<Rightarrow> plan_output task_action" where
  "emit_both env r old index po =
     abind (or_drop (po_owned po) (alift (rbind (row_canonical_bytes r) (\<lambda>a.
       rbind (row_canonical_bytes old) (\<lambda>b. Inr (a = b)))))) (\<lambda>same.
     abind (po_count (row_table r) (count_both same) po) (\<lambda>po.
     abind (if same then areturn po else po_operation env DiffUpdate r index po) (\<lambda>po. po_expect env r po)))"

definition emit_target_only ::
    "spool_env \<Rightarrow> data_task_mode \<Rightarrow> canonical_row \<Rightarrow> nat \<Rightarrow> plan_output \<Rightarrow> plan_output task_action" where
  "emit_target_only env mode r index po =
     abind (po_count (row_table r) (count_target_only (mode = Mirror)) po) (\<lambda>po.
     if mode = Mirror then po_operation env DiffDelete r index po
     else abind (po_operation env DiffRetain r index po) (\<lambda>po. po_expect env r po))"

function sync_loop ::
    "spool_env \<Rightarrow> data_task_mode \<Rightarrow> canonical_row option \<Rightarrow> spool_cursor \<Rightarrow> canonical_row option \<Rightarrow> spool_cursor
       \<Rightarrow> nat \<Rightarrow> plan_output \<Rightarrow> plan_output task_action" where
  "sync_loop env mode s sc t tc ti po st =
     (if s = None \<and> t = None then (Inr po, st)
      else abind (or_drop (po_owned po) (alift (row_ordering s t))) (\<lambda>ord st.
        case ord of
          OLess \<Rightarrow> (case s of None \<Rightarrow> (Inr po, st) | Some r \<Rightarrow>
            abind (emit_insert env r po) (\<lambda>po.
            abind (or_drop (po_owned po) (next_row env sc)) (\<lambda>(s, sc).
              sync_loop env mode s sc t tc ti po)) st)
        | OEqual \<Rightarrow> (case s of None \<Rightarrow> (Inr po, st) | Some r \<Rightarrow> (case t of None \<Rightarrow> (Inr po, st) | Some old \<Rightarrow>
            abind (emit_both env r old ti po) (\<lambda>po.
            abind (or_drop (po_owned po) (next_row env sc)) (\<lambda>s.
            abind (or_drop (po_owned po) (next_row env tc)) (\<lambda>t.
              sync_loop env mode (fst s) (snd s) (fst t) (snd t) (ti + 1) po))) st))
        | OGreater \<Rightarrow> (case t of None \<Rightarrow> (Inr po, st) | Some r \<Rightarrow>
            abind (emit_target_only env mode r ti po) (\<lambda>po.
            abind (or_drop (po_owned po) (next_row env tc)) (\<lambda>(t, tc).
              sync_loop env mode s sc t tc (ti + 1) po)) st)) st)"
  by pat_completeness auto

termination
  by (relation "measure (\<lambda>(env, mode, s, sc, t, tc, ti, po, st). left_over sc s + left_over tc t)")
     (auto simp: run_simps left_over_def split: if_splits dest!: next_row_less)

declare sync_loop.simps [simp del]

function append_source ::
    "spool_env \<Rightarrow> spool_cursor \<Rightarrow> plan_output \<Rightarrow> plan_output task_action" where
  "append_source env c po st =
     abind (or_drop (po_owned po) (next_row env c)) (\<lambda>(row, c) st.
       case row of None \<Rightarrow> (Inr po, st)
       | Some r \<Rightarrow> abind (emit_insert env r po) (\<lambda>po. append_source env c po) st) st"
  by pat_completeness auto

termination
  by (relation "measure (\<lambda>(env, c, po, st). length (c_rest c))") (auto simp: run_simps dest!: next_row_Inr)

declare append_source.simps [simp del]

definition emit_kept ::
    "spool_env \<Rightarrow> data_task_mode \<Rightarrow> canonical_row \<Rightarrow> nat \<Rightarrow> plan_output \<Rightarrow> plan_output task_action" where
  "emit_kept env mode r index po =
     abind (po_count (row_table r) (count_target_only (mode = Replace)) po) (\<lambda>po.
     if mode = Replace then po_operation env DiffDelete r index po else po_expect env r po)"

function keep_target ::
    "spool_env \<Rightarrow> data_task_mode \<Rightarrow> spool_cursor \<Rightarrow> nat \<Rightarrow> plan_output \<Rightarrow> plan_output task_action" where
  "keep_target env mode c ti po st =
     abind (or_drop (po_owned po) (next_row env c)) (\<lambda>(row, c) st.
       case row of None \<Rightarrow> (Inr po, st)
       | Some r \<Rightarrow> abind (emit_kept env mode r ti po) (\<lambda>po. keep_target env mode c (ti + 1) po) st) st"
  by pat_completeness auto

termination
  by (relation "measure (\<lambda>(env, mode, c, ti, po, st). length (c_rest c))")
     (auto simp: run_simps dest!: next_row_Inr)

declare keep_target.simps [simp del]

subsection \<open>The plan\<close>

text \<open>
  What a plan takes from outside: the JSON encoders of \<open>serde\_json\<close>, the identifiers of the
  \<open>uuid\<close> package, and two formats of the standard library that are not spelled out here, the
  debug form of a list of strings and the decimal form of a double.
\<close>

type_synonym fingerprint_input =
  "data_task_request \<times> metadata_snapshot \<times> metadata_snapshot \<times> string \<times> string \<times> string \<times> string \<times> data_task_risk list"

record data_value_preview =
  vp_type :: string
  vp_display :: string
  vp_original_bytes :: string
  vp_truncated :: bool

record data_column_diff =
  cd_column :: string
  cd_old :: "data_value_preview option"
  cd_new :: "data_value_preview option"

record data_diff_item =
  di_operation :: data_diff_operation
  di_key :: "data_value_preview list"
  di_changes :: "data_column_diff list"

record data_diff_page =
  dp_plan_id :: string
  dp_table_id :: string
  dp_items :: "data_diff_item list"
  dp_next_cursor :: "string option"

record plan_env =
  pe_spool :: spool_env
  mapping_json :: "validated_mapping \<Rightarrow> bytes option"
  fingerprint_json :: "fingerprint_input \<Rightarrow> bytes option"
  item_json :: "data_diff_item \<Rightarrow> bytes option"
  new_uuid :: "nat \<Rightarrow> string"
  debug_strings :: "string list \<Rightarrow> string"
  float_text :: "64 word \<Rightarrow> string"

record stored_plan =
  sp_request :: data_task_request
  sp_mapping :: validated_mapping
  sp_preview :: data_task_preview
  sp_source :: sorted_spool
  sp_target :: sorted_spool
  sp_target_full :: sorted_spool
  sp_operations :: spool_handle
  sp_expected :: sorted_spool
  sp_source_metadata :: metadata_snapshot
  sp_target_metadata :: metadata_snapshot

definition plan_risks ::
    "data_task_mode \<Rightarrow> validated_mapping \<Rightarrow> metadata_snapshot \<Rightarrow> metadata_snapshot \<Rightarrow> count_map \<Rightarrow> data_task_risk list" where
  "plan_risks mode mapping source target counts =
     (if md_database_type source = ClickHouse
      then [\<lparr>risk_id = ''source_without_transaction_snapshot'',
        risk_message = ''a ClickHouse source has no snapshot across tables'', required = True\<rparr>] else [])
     @ (if mode = Mirror \<or> mode = Replace
        then \<lparr>risk_id = ''destructive_write'', risk_message = ''this mode deletes target rows'', required = True\<rparr>
          # map (\<lambda>(name, c). \<lparr>risk_id = ''empty_source:'' @ name,
              risk_message = ''the source is empty, table '' @ name @ '' loses all rows: '' @ nat_to_string (cn_target c),
              required = True\<rparr>)
            (filter (\<lambda>(name, c). cn_source c = 0 \<and> 0 < cn_target c) counts)
        else [])
     @ (if \<exists>t \<in> set (md_tables target). (\<exists>m \<in> set (vm_tables mapping). vt_target m = tab_name t)
            \<and> (\<exists>c \<in> set (tab_columns t). identity_col c)
        then [\<lparr>risk_id = ''generator_gaps'', risk_message = ''a rollback may leave gaps in generated numbers'',
          required = False\<rparr>]
        else [])"

definition plan_tables :: "validated_mapping \<Rightarrow> count_map \<Rightarrow> data_table_preview list result" where
  "plan_tables mapping counts = collect_results (\<lambda>m.
     rbind (ok_or ''panic: no counts for the table'' (map_of counts (vt_target m))) (\<lambda>c.
       Inr \<lparr>table_id = vt_target m, tp_source_table = vt_source m, tp_target_table = vt_target m,
         tp_counts = ipc_counts c\<rparr>)) (vm_tables mapping)"

definition plan_preview ::
    "string \<Rightarrow> string \<Rightarrow> nat \<Rightarrow> data_task_request \<Rightarrow> data_table_preview list \<Rightarrow> data_task_risk list
       \<Rightarrow> spool_handle \<Rightarrow> spool_handle \<Rightarrow> data_task_preview" where
  "plan_preview task_id plan_id now request tables risks source target =
     \<lparr>pv_task_id = task_id, pv_plan_id = plan_id, pv_fingerprint = [], pv_source = req_source request,
      pv_target = req_target request, pv_kind = req_kind request, pv_mode = req_mode request, pv_tables = tables,
      pv_source_captured_at = nat_to_string (sp_captured (h_inner source)),
      pv_target_captured_at = nat_to_string (sp_captured (h_inner target)),
      pv_expires_at = nat_to_string (min U64_MAX (now + 15 * 60 * 1000)), pv_risks = risks, pv_blockers = [],
      pv_can_execute = True, pv_sql_examples = [''INSERT INTO <table> (<columns>) VALUES (?, ...)'']\<rparr>"

subsection \<open>The fingerprint\<close>

definition normal_request :: "data_task_request \<Rightarrow> data_task_request" where
  "normal_request r = r\<lparr>mappings := map (\<lambda>m. m\<lparr>columns := sort_key target_column (columns m)\<rparr>)
     (sort_key target_table (mappings r))\<rparr>"

definition normal_metadata :: "plan_env \<Rightarrow> metadata_snapshot \<Rightarrow> metadata_snapshot" where
  "normal_metadata env m = m\<lparr>md_tables := map (\<lambda>t. t\<lparr>
       tab_columns := sort_key col_name (tab_columns t),
       foreign_keys := sort_key (\<lambda>f. parent_table f @ '':'' @ debug_strings env (from_columns f)) (foreign_keys t)\<rparr>)
     (sort_key tab_name (md_tables m))\<rparr>"

definition fingerprint :: "plan_env \<Rightarrow> stored_plan \<Rightarrow> string result" where
  "fingerprint env plan =
     rbind (ok_or ''invalid_mapping: the fingerprint cannot be encoded'' (fingerprint_json env
       (normal_request (sp_request plan), normal_metadata env (sp_source_metadata plan),
        normal_metadata env (sp_target_metadata plan), so_digest (sp_source plan), so_digest (sp_target plan),
        so_digest (sp_target_full plan), so_digest (sp_expected plan), pv_risks (sp_preview plan))))
     (\<lambda>bs. Inr (digest (pe_spool env) bs))"

subsection \<open>Building the plan\<close>

definition so_owned :: "sorted_spool list \<Rightarrow> spool_inner list" where
  "so_owned = map (h_inner \<circ> so_spool)"

definition walk ::
    "spool_env \<Rightarrow> data_task_request \<Rightarrow> spool_cursor \<Rightarrow> spool_cursor \<Rightarrow> plan_output \<Rightarrow> plan_output task_action" where
  "walk env request sc tc po =
     (if req_kind request = RowSync
      then
        abind (or_drop (po_owned po) (next_row env sc)) (\<lambda>(s, sc).
        abind (or_drop (po_owned po) (next_row env tc)) (\<lambda>(t, tc).
          sync_loop env (req_mode request) s sc t tc 0 po))
      else abind (append_source env sc po) (\<lambda>po. keep_target env (req_mode request) tc 0 po))"

text \<open>The operations and the sorted expected rows of two sorted snapshots.\<close>

definition differences ::
    "spool_env \<Rightarrow> data_task_request \<Rightarrow> validated_mapping \<Rightarrow> spool_handle \<Rightarrow> spool_handle
       \<Rightarrow> (count_map \<times> spool_handle \<times> sorted_spool) task_action" where
  "differences env request mapping source target =
     abind (writer_with_overhead env source 128) (\<lambda>operations.
     abind (or_drop [w_inner operations] (handle_writer env source)) (\<lambda>expected.
     let po = \<lparr>po_counts = initial_counts mapping, po_operations = operations, po_expected = expected\<rparr> in
     abind (or_drop (po_owned po) (open_cursor env source)) (\<lambda>sc.
     abind (or_drop (po_owned po) (open_cursor env target)) (\<lambda>tc.
     abind (walk env request sc tc po) (\<lambda>po.
     abind (or_drop [w_inner (po_expected po)] (finish_writer env (po_operations po))) (\<lambda>operations.
     abind (or_drop [h_inner operations] (finish_writer env (po_expected po))) (\<lambda>expected.
     abind (or_drop [h_inner operations, h_inner expected] (external_sort env expected)) (\<lambda>sorted.
     abind (drop_handle expected) (\<lambda>_.
       areturn (po_counts po, operations, sorted))))))))))"

definition build_plan ::
    "plan_env \<Rightarrow> string \<Rightarrow> data_task_request \<Rightarrow> validated_mapping \<Rightarrow> metadata_snapshot \<Rightarrow> metadata_snapshot
       \<Rightarrow> spool_handle \<Rightarrow> spool_handle \<Rightarrow> spool_handle \<Rightarrow> stored_plan task_action" where
  "build_plan penv task_id request mapping source_md target_md source target target_full =
     (let env = pe_spool penv;
          encoded = (\<lambda>m. ok_or ''invalid_mapping: the mapping cannot be encoded'' (mapping_json penv m));
          unique = (req_kind request = RowSync)
      in afinally (
        abind (alift (validate_mapping request source_md target_md)) (\<lambda>verified.
        abind (alift (encoded verified)) (\<lambda>a.
        abind (alift (encoded mapping)) (\<lambda>b.
        abind (aguard (a = b) ''invalid_mapping: the mapping was not verified'') (\<lambda>_.
        abind (external_sort env source) (\<lambda>source.
        abind (or_drop (so_owned [source]) (external_sort env target)) (\<lambda>target.
        abind (or_drop (so_owned [source, target]) (external_sort env target_full)) (\<lambda>target_full.
        or_drop (so_owned [source, target, target_full]) (
          abind (check_rows env (so_spool source) mapping unique) (\<lambda>_.
          abind (check_rows env (so_spool target) mapping unique) (\<lambda>_.
          abind (differences env request mapping (so_spool source) (so_spool target)) (\<lambda>(counts, operations, expected).
          or_drop [h_inner operations, h_inner (so_spool expected)] (
            abind (alift (plan_tables mapping counts)) (\<lambda>tables.
            abind (aget (\<lambda>st. (clock env (io_calls st), new_uuid penv (draws st)))) (\<lambda>(now, plan_id).
            let risks = plan_risks (req_mode request) mapping source_md target_md counts;
                preview = plan_preview task_id plan_id now request tables risks (so_spool source) (so_spool target);
                plan = \<lparr>sp_request = request, sp_mapping = mapping, sp_preview = preview, sp_source = source,
                  sp_target = target, sp_target_full = target_full, sp_operations = operations,
                  sp_expected = expected, sp_source_metadata = source_md, sp_target_metadata = target_md\<rparr> in
            abind (alift (fingerprint penv plan)) (\<lambda>fp.
              areturn (plan\<lparr>sp_preview := preview\<lparr>pv_fingerprint := fp\<rparr>\<rparr>)))))))))))))))))
        (fold drop_spool [h_inner source, h_inner target, h_inner target_full]))"

subsection \<open>Reading the differences\<close>

definition row_keys :: "canonical_row option \<Rightarrow> bytes option result" where
  "row_keys r = (case r of None \<Rightarrow> Inr None | Some r \<Rightarrow> rbind (key_bytes r) (\<lambda>k. Inr (Some k)))"

definition read_operation :: "spool_env \<Rightarrow> stored_plan \<Rightarrow> canonical_row \<Rightarrow> plan_operation task_action" where
  "read_operation env plan row =
     abind (alift (operation_from_row row)) (\<lambda>oper.
     case (op_kind oper, row_key row) of
       (DiffUpdate, _ # UInt64 index # _) \<Rightarrow>
         abind (cursor_at env (so_spool (sp_target plan)) (unat index)) (\<lambda>c.
         abind (next_row env c) (\<lambda>(old, _).
         abind (alift (row_keys old)) (\<lambda>a.
         abind (alift (row_keys (op_new oper))) (\<lambda>b.
         abind (aguard (a = b) ''invalid_mapping: the position of the operation is stale'') (\<lambda>_.
           areturn (oper\<lparr>op_old := old\<rparr>))))))
     | _ \<Rightarrow> areturn oper)"

definition hex_byte :: "u8 \<Rightarrow> string" where
  "hex_byte b = [''0123456789abcdef'' ! (unat b div 16), ''0123456789abcdef'' ! (unat b mod 16)]"

fun char_boundary_at :: "string \<Rightarrow> nat \<Rightarrow> nat" where
  "char_boundary_at s 0 = 0"
| "char_boundary_at s (Suc n) = (if is_char_boundary s (Suc n) then Suc n else char_boundary_at s n)"

definition value_parts :: "plan_env \<Rightarrow> data_value \<Rightarrow> string \<times> string \<times> nat" where
  "value_parts env v = (case v of
     Null \<Rightarrow> (''null'', ''NULL'', 0)
   | Bool b \<Rightarrow> (''bool'', if b then ''true'' else ''false'', 1)
   | Int64 w \<Rightarrow> (''int'', int_to_string (sint w), 8)
   | UInt64 w \<Rightarrow> (''uint'', nat_to_string (unat w), 8)
   | Decimal s \<Rightarrow> (''decimal'', s, length s)
   | Float w \<Rightarrow> (''float'', float_text env w, 8)
   | Text s \<Rightarrow> (''text'', s, length s)
   | Binary bs \<Rightarrow> (''binary'', concat (map hex_byte (take 128 bs)), length bs)
   | Temporal _ s \<Rightarrow> (''temporal'', s, length s)
   | Uuid bs \<Rightarrow> (''uuid'', concat (map hex_byte bs), 16)
   | Json s \<Rightarrow> (''json'', s, length s))"

definition preview_of :: "plan_env \<Rightarrow> data_value \<Rightarrow> data_value_preview" where
  "preview_of env v = (case value_parts env v of (kind, text, len) \<Rightarrow>
     let end_pos = char_boundary_at text (min (length text) 256)
     in \<lparr>vp_type = kind, vp_display = take end_pos text, vp_original_bytes = nat_to_string len,
         vp_truncated = (end_pos < length text \<or> kind = ''binary'' \<and> 128 < len)\<rparr>)"

definition value_at :: "canonical_row option \<Rightarrow> nat \<Rightarrow> data_value option" where
  "value_at r i = (case r of None \<Rightarrow> None
     | Some r \<Rightarrow> if i < length (row_values r) then Some (row_values r ! i) else None)"

definition value_option_bytes :: "data_value option \<Rightarrow> bytes option result" where
  "value_option_bytes v = (case v of None \<Rightarrow> Inr None | Some v \<Rightarrow> rbind (canonical_bytes v) (\<lambda>b. Inr (Some b)))"

definition column_change ::
    "plan_env \<Rightarrow> plan_operation \<Rightarrow> nat \<times> string \<Rightarrow> data_column_diff list result" where
  "column_change env oper c = (case c of (i, column) \<Rightarrow>
     let old = value_at (op_old oper) i; new = value_at (op_new oper) i in
     rbind (value_option_bytes old) (\<lambda>a. rbind (value_option_bytes new) (\<lambda>b.
       Inr (if a = b then []
         else [\<lparr>cd_column = column, cd_old = map_option (preview_of env) old,
           cd_new = map_option (preview_of env) new\<rparr>]))))"

definition diff_item_of :: "plan_env \<Rightarrow> string list \<Rightarrow> plan_operation \<Rightarrow> data_diff_item result" where
  "diff_item_of env cols oper =
     rbind (ok_or ''invalid_mapping: an empty operation''
       (case op_new oper of Some r \<Rightarrow> Some r | None \<Rightarrow> op_old oper)) (\<lambda>payload.
     rbind (collect_results (column_change env oper) (enumerate 0 cols)) (\<lambda>changes.
       Inr \<lparr>di_operation = op_kind oper, di_key = map (preview_of env) (row_key payload),
         di_changes = concat changes\<rparr>))"

definition PAGE_BYTES :: nat where
  "PAGE_BYTES = 1024 * 1024 - 4096"

text \<open>The items of a page, the bytes they take and the position after them.\<close>

function page_loop ::
    "plan_env \<Rightarrow> stored_plan \<Rightarrow> string \<Rightarrow> string list \<Rightarrow> nat \<Rightarrow> spool_cursor \<Rightarrow> nat \<Rightarrow> data_diff_item list \<Rightarrow> nat
       \<Rightarrow> (data_diff_item list \<times> nat) task_action" where
  "page_loop env plan table cols page_size c pos items used st =
     abind (next_row (pe_spool env) c) (\<lambda>(row, c) st.
       case row of
         None \<Rightarrow> (Inr (items, pos), st)
       | Some r \<Rightarrow>
           if row_table r \<noteq> table then page_loop env plan table cols page_size c (pos + 1) items used st
           else
             abind (read_operation (pe_spool env) plan r) (\<lambda>oper.
             abind (alift (diff_item_of env cols oper)) (\<lambda>item.
             abind (alift (ok_or ''resource_limit: the page cannot be encoded'' (item_json env item))) (\<lambda>bs st.
               if PAGE_BYTES < length bs
               then (Inl ''resource_limit: the fields of one row exceed the page budget'', st)
               else if items \<noteq> [] \<and> PAGE_BYTES < used + length bs then (Inr (items, pos), st)
               else if length items + 1 = page_size then (Inr (items @ [item], pos + 1), st)
               else page_loop env plan table cols page_size c (pos + 1) (items @ [item]) (used + length bs) st))) st) st"
  by pat_completeness auto

termination
  by (relation "measure (\<lambda>(env, plan, table, cols, page_size, c, pos, items, used, st). length (c_rest c))")
     (auto dest!: next_row_Inr)

declare page_loop.simps [simp del]

definition diff_page ::
    "plan_env \<Rightarrow> stored_plan \<Rightarrow> string \<Rightarrow> string option \<Rightarrow> nat \<Rightarrow> data_diff_page task_action" where
  "diff_page env plan table cursor page_size =
     (let b = sp_budget (h_inner (sp_operations plan)); rows = sp_rows (h_inner (sp_operations plan)) in
      with_memory b (memory_bytes b div 2) (
        abind (aguard (page_size \<noteq> 0 \<and> page_size \<le> 200) ''resource_limit: a page has 1 to 200 rows'') (\<lambda>_.
        abind (alift (ok_or ''invalid_mapping: no such table in the differences''
          (List.find (\<lambda>m. vt_target m = table) (vm_tables (sp_mapping plan))))) (\<lambda>mapping.
        abind (alift (case cursor of None \<Rightarrow> Inr 0
          | Some s \<Rightarrow> ok_or ''invalid_mapping: the cursor is invalid'' (parse_uint U64_MAX s))) (\<lambda>start.
        abind (aguard (start \<le> rows) ''invalid_mapping: the cursor is out of bounds'') (\<lambda>_.
        abind (cursor_at (pe_spool env) (sp_operations plan) start) (\<lambda>c.
        abind (page_loop env plan table (vt_target_columns mapping) page_size c start [] 0) (\<lambda>(items, pos).
          areturn \<lparr>dp_plan_id = pv_plan_id (sp_preview plan), dp_table_id = table, dp_items = items,
            dp_next_cursor = (if pos < rows then Some (nat_to_string pos) else None)\<rparr>))))))))"

subsection \<open>The differences as lists\<close>

definition key_of :: "canonical_row \<Rightarrow> bytes" where
  "key_of r = (case key_bytes r of Inl _ \<Rightarrow> [] | Inr k \<Rightarrow> k)"

type_synonym step = "data_diff_operation \<times> canonical_row \<times> nat"

definition step_row :: "step \<Rightarrow> canonical_row" where
  "step_row s = (case s of (kind, r, i) \<Rightarrow> operation_row kind r i)"

text \<open>What the walk over two sorted snapshots yields, and the rows it expects.\<close>

fun sync_steps :: "data_task_mode \<Rightarrow> nat \<Rightarrow> canonical_row list \<Rightarrow> canonical_row list \<Rightarrow> step list" where
  "sync_steps mode i [] [] = []"
| "sync_steps mode i (s # ss) [] = (DiffInsert, s, U64_MAX) # sync_steps mode i ss []"
| "sync_steps mode i [] (t # ts) = (if mode = Mirror then DiffDelete else DiffRetain, t, i) # sync_steps mode (i + 1) [] ts"
| "sync_steps mode i (s # ss) (t # ts) =
     (if key_of s < key_of t then (DiffInsert, s, U64_MAX) # sync_steps mode i ss (t # ts)
      else if key_of s = key_of t then (if s = t then [] else [(DiffUpdate, s, i)]) @ sync_steps mode (i + 1) ss ts
      else (if mode = Mirror then DiffDelete else DiffRetain, t, i) # sync_steps mode (i + 1) (s # ss) ts)"

fun sync_expected :: "data_task_mode \<Rightarrow> canonical_row list \<Rightarrow> canonical_row list \<Rightarrow> canonical_row list" where
  "sync_expected mode [] [] = []"
| "sync_expected mode (s # ss) [] = s # sync_expected mode ss []"
| "sync_expected mode [] (t # ts) = (if mode = Mirror then [] else [t]) @ sync_expected mode [] ts"
| "sync_expected mode (s # ss) (t # ts) =
     (if key_of s < key_of t then s # sync_expected mode ss (t # ts)
      else if key_of s = key_of t then s # sync_expected mode ss ts
      else (if mode = Mirror then [] else [t]) @ sync_expected mode (s # ss) ts)"

subsection \<open>The writers of a plan\<close>

lemma stored_bytes: "stored_row r \<Longrightarrow> \<exists>bs. row_canonical_bytes r = Inr bs"
  by (auto simp: stored_row_def row_of_def)

lemma stored_key: "stored_row r \<Longrightarrow> key_bytes r = Inr (key_of r)"
  by (auto simp: stored_row_def row_of_def row_canonical_bytes_def key_of_def)

lemma stored_same_bytes:
  "stored_row r \<Longrightarrow> stored_row q \<Longrightarrow> row_canonical_bytes r = row_canonical_bytes q \<longleftrightarrow> r = q"
  by (auto simp: stored_row_def row_of_def)

lemma operation_name_utf8: "valid_utf8 (operation_name kind)"
proof -
  have "valid_utf8 ''insert''" "valid_utf8 ''update''" "valid_utf8 ''delete''" "valid_utf8 ''retain''"
    by code_simp+
  then show ?thesis by (cases kind) (simp_all add: operation_name_def)
qed

lemma step_row_norm:
  assumes "stored_row r"
  shows "norm_row (operation_row kind r i) = operation_row kind r i \<and> wf_row (operation_row kind r i)"
proof -
  have "map norm_value (row_key r) = row_key r" "map norm_value (row_values r) = row_values r"
    using stored_norm [OF assms] by (metis canonical_row.ext_inject canonical_row.surjective norm_row_def canonical_row.update_convs)+
  then show ?thesis
    using stored_norm [OF assms] operation_name_utf8
    by (auto simp: norm_row_def operation_row_def wf_row_def)
qed

definition po_writes :: "spool_env \<Rightarrow> plan_output \<Rightarrow> step list \<Rightarrow> canonical_row list \<Rightarrow> bool" where
  "po_writes env po steps rows \<longleftrightarrow> writes env (po_operations po) (map step_row steps) \<and> writes env (po_expected po) rows"

lemma po_count_writes:
  "po_count table f po st = (Inr po', t) \<Longrightarrow> po_writes env po' steps rows = po_writes env po steps rows"
  by (auto simp: po_count_def run_simps po_writes_def)

lemma po_operation_writes:
  assumes "aead_ok env" and "stored_row r" and "po_writes env po steps rows"
    and "po_operation env kind r i po st = (Inr po', t)"
  shows "po_writes env po' (steps @ [(kind, r, i)]) rows"
proof -
  obtain w u where w: "put env (operation_row kind r i) (po_operations po) st = (Inr w, u)" "po' = po\<lparr>po_operations := w\<rparr>"
    using assms(4) by (auto simp: po_operation_def put_operation_def run_simps)
  then show ?thesis
    using put_writes [OF assms(1) _ _ w(1)] step_row_norm [OF assms(2), of kind i] assms(3)
    by (auto simp: po_writes_def step_row_def)
qed

lemma po_expect_writes:
  assumes "aead_ok env" and "stored_row r" and "po_writes env po steps rows"
    and "po_expect env r po st = (Inr po', t)"
  shows "po_writes env po' steps (rows @ [r])"
proof -
  obtain w u where w: "put env r (po_expected po) st = (Inr w, u)" "po' = po\<lparr>po_expected := w\<rparr>"
    using assms(4) by (auto simp: po_expect_def run_simps)
  then show ?thesis
    using put_writes [OF assms(1) _ _ w(1)] stored_norm [OF assms(2)] assms(3) by (auto simp: po_writes_def)
qed

lemma emit_insert_writes:
  assumes "aead_ok env" and "stored_row r" and "po_writes env po steps rows"
    and "emit_insert env r po st = (Inr po', t)"
  shows "po_writes env po' (steps @ [(DiffInsert, r, U64_MAX)]) (rows @ [r])"
proof -
  obtain p1 s1 p2 s2 where e: "po_count (row_table r) count_insert po st = (Inr p1, s1)"
    "po_operation env DiffInsert r U64_MAX p1 s1 = (Inr p2, s2)" "po_expect env r p2 s2 = (Inr po', t)"
    using assms(4) by (auto simp: emit_insert_def run_simps)
  have "po_writes env p1 steps rows" using po_count_writes [OF e(1)] assms(3) by simp
  from po_expect_writes [OF assms(1,2) po_operation_writes [OF assms(1,2) this e(2)] e(3)] show ?thesis .
qed

lemma emit_both_writes:
  assumes "aead_ok env" and "stored_row r" and "stored_row old" and "po_writes env po steps rows"
    and "emit_both env r old i po st = (Inr po', t)"
  shows "po_writes env po' (steps @ (if r = old then [] else [(DiffUpdate, r, i)])) (rows @ [r])"
proof -
  obtain a b where ab: "row_canonical_bytes r = Inr a" "row_canonical_bytes old = Inr b"
    using stored_bytes assms(2,3) by blast
  then have same: "a = b \<longleftrightarrow> r = old" using stored_same_bytes [OF assms(2,3)] by simp
  obtain p1 s1 p2 s2 s0 where e: "po_count (row_table r) (count_both (a = b)) po s0 = (Inr p1, s1)"
    "(if a = b then areturn p1 else po_operation env DiffUpdate r i p1) s1 = (Inr p2, s2)"
    "po_expect env r p2 s2 = (Inr po', t)"
    using assms(5) ab by (auto simp: emit_both_def run_simps)
  have p1: "po_writes env p1 steps rows" using po_count_writes [OF e(1)] assms(4) by simp
  have "po_writes env p2 (steps @ (if r = old then [] else [(DiffUpdate, r, i)])) rows"
    using e(2) po_operation_writes [OF assms(1,2) p1] p1 same by (cases "a = b") (auto simp: run_simps)
  from po_expect_writes [OF assms(1,2) this e(3)] show ?thesis .
qed

lemma emit_target_only_writes:
  assumes "aead_ok env" and "stored_row r" and "po_writes env po steps rows"
    and "emit_target_only env mode r i po st = (Inr po', t)"
  shows "po_writes env po' (steps @ [(if mode = Mirror then DiffDelete else DiffRetain, r, i)])
    (rows @ (if mode = Mirror then [] else [r]))"
proof -
  obtain p1 s1 where e: "po_count (row_table r) (count_target_only (mode = Mirror)) po st = (Inr p1, s1)"
    "(if mode = Mirror then po_operation env DiffDelete r i p1
      else abind (po_operation env DiffRetain r i p1) (\<lambda>po. po_expect env r po)) s1 = (Inr po', t)"
    using assms(4) by (auto simp: emit_target_only_def run_simps)
  have p1: "po_writes env p1 steps rows" using po_count_writes [OF e(1)] assms(3) by simp
  show ?thesis
  proof (cases "mode = Mirror")
    case True
    then show ?thesis using e(2) po_operation_writes [OF assms(1,2) p1] by simp
  next
    case False
    then obtain p2 s2 where "po_operation env DiffRetain r i p1 s1 = (Inr p2, s2)" "po_expect env r p2 s2 = (Inr po', t)"
      using e(2) by (auto simp: run_simps)
    then show ?thesis
      using po_expect_writes [OF assms(1,2) po_operation_writes [OF assms(1,2) p1]] False by simp
  qed
qed

lemma emit_kept_writes:
  assumes "aead_ok env" and "stored_row r" and "po_writes env po steps rows"
    and "emit_kept env mode r i po st = (Inr po', t)"
  shows "po_writes env po' (steps @ (if mode = Replace then [(DiffDelete, r, i)] else []))
    (rows @ (if mode = Replace then [] else [r]))"
proof -
  obtain p1 s1 where e: "po_count (row_table r) (count_target_only (mode = Replace)) po st = (Inr p1, s1)"
    "(if mode = Replace then po_operation env DiffDelete r i p1 else po_expect env r p1) s1 = (Inr po', t)"
    using assms(4) by (auto simp: emit_kept_def run_simps)
  have p1: "po_writes env p1 steps rows" using po_count_writes [OF e(1)] assms(3) by simp
  show ?thesis
    using e(2) po_operation_writes [OF assms(1,2) p1] po_expect_writes [OF assms(1,2) p1]
    by (cases "mode = Replace") simp_all
qed

subsection \<open>The walk refines the lists\<close>

lemma row_ordering_stored:
  assumes "stored_row a" and "stored_row b"
  shows "row_ordering (Some a) (Some b)
    = Inr (if key_of a < key_of b then OLess else if key_of a = key_of b then OEqual else OGreater)"
  by (simp add: row_ordering_def stored_key assms)

lemma stream_step:
  "stream env s c (r # rs) \<Longrightarrow> next_row env c st = (Inr (x, c'), t) \<Longrightarrow> stream env x c' rs"
  by (auto simp: stream_def dest: next_row_stream)

lemma sync_loop_insert:
  assumes "sync_loop env mode (Some r) sc t tc i po st = (Inr po', u)" and "row_ordering (Some r) t = Inr OLess"
  obtains p v s c w where "emit_insert env r po st = (Inr p, v)" "next_row env sc v = (Inr (s, c), w)"
    "sync_loop env mode s c t tc i p w = (Inr po', u)"
  using assms by (subst (asm) sync_loop.simps) (auto simp: run_simps)

lemma sync_loop_both:
  assumes "sync_loop env mode (Some r) sc (Some old) tc i po st = (Inr po', u)"
    and "row_ordering (Some r) (Some old) = Inr OEqual"
  obtains p v s c w t d x where "emit_both env r old i po st = (Inr p, v)" "next_row env sc v = (Inr (s, c), w)"
    "next_row env tc w = (Inr (t, d), x)" "sync_loop env mode s c t d (i + 1) p x = (Inr po', u)"
  using assms by (subst (asm) sync_loop.simps) (auto simp: run_simps)

lemma sync_loop_target:
  assumes "sync_loop env mode s sc (Some r) tc i po st = (Inr po', u)" and "row_ordering s (Some r) = Inr OGreater"
  obtains p v t d w where "emit_target_only env mode r i po st = (Inr p, v)" "next_row env tc v = (Inr (t, d), w)"
    "sync_loop env mode s sc t d (i + 1) p w = (Inr po', u)"
  using assms by (subst (asm) sync_loop.simps) (auto simp: run_simps)

lemma sync_loop_refines:
  assumes "aead_ok env"
  shows "stream env s sc ss \<Longrightarrow> stream env t tc ts \<Longrightarrow> po_writes env po steps rows \<Longrightarrow>
    sync_loop env mode s sc t tc i po st = (Inr po', u) \<Longrightarrow>
    po_writes env po' (steps @ sync_steps mode i ss ts) (rows @ sync_expected mode ss ts)"
proof (induction "length ss + length ts" arbitrary: ss ts s sc t tc i po steps rows st rule: less_induct)
  case less
  have ins: ?case if s: "ss = r # ss'" and o: "row_ordering (Some r) t = Inr OLess"
    and eq: "sync_steps mode i ss ts = (DiffInsert, r, U64_MAX) # sync_steps mode i ss' ts"
      "sync_expected mode ss ts = r # sync_expected mode ss' ts" for r ss'
  proof -
    have r: "s = Some r" "stored_row r" using less.prems(1) s by (auto simp: stream_def)
    obtain p v s' c' w where e: "emit_insert env r po st = (Inr p, v)" "next_row env sc v = (Inr (s', c'), w)"
      "sync_loop env mode s' c' t tc i p w = (Inr po', u)"
      using sync_loop_insert [OF less.prems(4) [unfolded r(1)] o] .
    have "po_writes env po' ((steps @ [(DiffInsert, r, U64_MAX)]) @ sync_steps mode i ss' ts)
        ((rows @ [r]) @ sync_expected mode ss' ts)"
      using less.hyps [OF _ stream_step less.prems(2) emit_insert_writes [OF assms r(2) less.prems(3) e(1)] e(3)]
        less.prems(1) e(2) s by simp
    then show ?thesis by (simp add: eq)
  qed
  have both: ?case if s: "ss = r # ss'" and t: "ts = old # ts'" and k: "key_of r = key_of old" for r ss' old ts'
  proof -
    have r: "s = Some r" "stored_row r" and old: "t = Some old" "stored_row old"
      using less.prems(1,2) s t by (auto simp: stream_def)
    have o: "row_ordering (Some r) (Some old) = Inr OEqual" using row_ordering_stored [OF r(2) old(2)] k by simp
    obtain p v s' c' w t' d' x where e: "emit_both env r old i po st = (Inr p, v)"
      "next_row env sc v = (Inr (s', c'), w)" "next_row env tc w = (Inr (t', d'), x)"
      "sync_loop env mode s' c' t' d' (i + 1) p x = (Inr po', u)"
      using sync_loop_both [OF less.prems(4) [unfolded r(1) old(1)] o] .
    have "po_writes env po' ((steps @ (if r = old then [] else [(DiffUpdate, r, i)])) @ sync_steps mode (i + 1) ss' ts')
        ((rows @ [r]) @ sync_expected mode ss' ts')"
      using less.hyps [OF _ stream_step stream_step emit_both_writes [OF assms r(2) old(2) less.prems(3) e(1)] e(4)]
        less.prems(1,2) e(2,3) s t by simp
    then show ?thesis by (simp add: s t k)
  qed
  have tgt: ?case if t: "ts = r # ts'" and o: "row_ordering s (Some r) = Inr OGreater"
    and eq: "sync_steps mode i ss ts = (if mode = Mirror then DiffDelete else DiffRetain, r, i) # sync_steps mode (i + 1) ss ts'"
      "sync_expected mode ss ts = (if mode = Mirror then [] else [r]) @ sync_expected mode ss ts'" for r ts'
  proof -
    have r: "t = Some r" "stored_row r" using less.prems(2) t by (auto simp: stream_def)
    obtain p v t' d' w where e: "emit_target_only env mode r i po st = (Inr p, v)" "next_row env tc v = (Inr (t', d'), w)"
      "sync_loop env mode s sc t' d' (i + 1) p w = (Inr po', u)"
      using sync_loop_target [OF less.prems(4) [unfolded r(1)] o] .
    have "po_writes env po' ((steps @ [(if mode = Mirror then DiffDelete else DiffRetain, r, i)]) @ sync_steps mode (i + 1) ss ts')
        ((rows @ (if mode = Mirror then [] else [r])) @ sync_expected mode ss ts')"
      using less.hyps [OF _ less.prems(1) stream_step emit_target_only_writes [OF assms r(2) less.prems(3) e(1)] e(3)]
        less.prems(2) e(2) t by simp
    then show ?thesis by (simp add: eq)
  qed
  show ?case
  proof (cases ss; cases ts)
    assume "ss = []" "ts = []"
    then show ?case using less.prems by (subst (asm) sync_loop.simps) (auto simp: stream_def)
  next
    fix r ts' assume n: "ss = []" "ts = r # ts'"
    then have "s = None" using less.prems(1) by (simp add: stream_def)
    then show ?case using tgt [OF n(2)] n by (simp add: row_ordering_def)
  next
    fix r ss' assume n: "ss = r # ss'" "ts = []"
    then have "t = None" using less.prems(2) by (simp add: stream_def)
    then show ?case using ins [OF n(1)] n by (simp add: row_ordering_def)
  next
    fix a ss' b ts' assume n: "ss = a # ss'" "ts = b # ts'"
    then have st: "s = Some a" "stored_row a" "t = Some b" "stored_row b"
      using less.prems(1,2) by (auto simp: stream_def)
    note o = row_ordering_stored [OF st(2,4)]
    consider "key_of a < key_of b" | "key_of a = key_of b" | "key_of b < key_of a"
      using less_linear by blast
    then show ?case
    proof cases
      case 1
      then show ?thesis using ins [OF n(1)] o st n by simp
    next
      case 2
      then show ?thesis using both [OF n] by blast
    next
      case 3
      then have o': "row_ordering s (Some b) = Inr OGreater"
        using o st(1) by (auto dest: less_imp_not_less)
      have "sync_steps mode i ss ts = (if mode = Mirror then DiffDelete else DiffRetain, b, i) # sync_steps mode (i + 1) ss ts'"
        "sync_expected mode ss ts = (if mode = Mirror then [] else [b]) @ sync_expected mode ss ts'"
        using 3 n by (auto dest: less_imp_not_less)
      then show ?thesis using tgt [OF n(2) o'] by blast
    qed
  qed
qed

lemma append_source_refines:
  assumes "aead_ok env"
  shows "delivers env c ss \<Longrightarrow> po_writes env po steps rows \<Longrightarrow> append_source env c po st = (Inr po', u) \<Longrightarrow>
    po_writes env po' (steps @ map (\<lambda>r. (DiffInsert, r, U64_MAX)) ss) (rows @ ss)"
proof (induction ss arbitrary: c po steps rows st)
  case Nil
  obtain x c' v where n: "next_row env c st = (Inr (x, c'), v)"
    using Nil(3) by (subst (asm) append_source.simps) (auto simp: run_simps)
  then have "x = None" using next_row_delivers [OF Nil(1) n] by simp
  then show ?case using Nil(2,3) n by (subst (asm) append_source.simps) (auto simp: run_simps)
next
  case (Cons r ss)
  obtain x c' v where n: "next_row env c st = (Inr (x, c'), v)"
    using Cons.prems(3) by (subst (asm) append_source.simps) (auto simp: run_simps)
  have x: "x = Some r" "delivers env c' ss" using next_row_delivers [OF Cons.prems(1) n] by simp_all
  obtain p w where e: "emit_insert env r po v = (Inr p, w)" "append_source env c' p w = (Inr po', u)"
    using Cons.prems(3) n x(1) by (subst (asm) append_source.simps) (auto simp: run_simps)
  have r: "stored_row r" using delivers_file [OF Cons.prems(1)] by simp
  from Cons.IH [OF x(2) emit_insert_writes [OF assms r Cons.prems(2) e(1)] e(2)] show ?case by simp
qed

fun kept_steps :: "data_task_mode \<Rightarrow> nat \<Rightarrow> canonical_row list \<Rightarrow> step list" where
  "kept_steps mode i [] = []"
| "kept_steps mode i (t # ts) = (if mode = Replace then [(DiffDelete, t, i)] else []) @ kept_steps mode (i + 1) ts"

lemma keep_target_refines:
  assumes "aead_ok env"
  shows "delivers env c ts \<Longrightarrow> po_writes env po steps rows \<Longrightarrow> keep_target env mode c i po st = (Inr po', u) \<Longrightarrow>
    po_writes env po' (steps @ kept_steps mode i ts) (rows @ (if mode = Replace then [] else ts))"
proof (induction ts arbitrary: c i po steps rows st)
  case Nil
  obtain x c' v where n: "next_row env c st = (Inr (x, c'), v)"
    using Nil(3) by (subst (asm) keep_target.simps) (auto simp: run_simps)
  then have "x = None" using next_row_delivers [OF Nil(1) n] by simp
  then show ?case using Nil(2,3) n by (subst (asm) keep_target.simps) (auto simp: run_simps)
next
  case (Cons r ts)
  obtain x c' v where n: "next_row env c st = (Inr (x, c'), v)"
    using Cons.prems(3) by (subst (asm) keep_target.simps) (auto simp: run_simps)
  have x: "x = Some r" "delivers env c' ts" using next_row_delivers [OF Cons.prems(1) n] by simp_all
  obtain p w where e: "emit_kept env mode r i po v = (Inr p, w)" "keep_target env mode c' (i + 1) p w = (Inr po', u)"
    using Cons.prems(3) n x(1) by (subst (asm) keep_target.simps) (auto simp: run_simps)
  have r: "stored_row r" using delivers_file [OF Cons.prems(1)] by simp
  from Cons.IH [OF x(2) emit_kept_writes [OF assms r Cons.prems(2) e(1)] e(2)] show ?case
    by (cases "mode = Replace") simp_all
qed

text \<open>Both kinds of task.\<close>

definition plan_steps :: "data_task_request \<Rightarrow> canonical_row list \<Rightarrow> canonical_row list \<Rightarrow> step list" where
  "plan_steps request ss ts =
     (if req_kind request = RowSync then sync_steps (req_mode request) 0 ss ts
      else map (\<lambda>r. (DiffInsert, r, U64_MAX)) ss @ kept_steps (req_mode request) 0 ts)"

definition plan_expected :: "data_task_request \<Rightarrow> canonical_row list \<Rightarrow> canonical_row list \<Rightarrow> canonical_row list" where
  "plan_expected request ss ts =
     (if req_kind request = RowSync then sync_expected (req_mode request) ss ts
      else ss @ (if req_mode request = Replace then [] else ts))"

lemma walk_refines:
  assumes "aead_ok env" and "delivers env sc ss" and "delivers env tc ts"
    and "po_writes env po [] []" and "walk env request sc tc po st = (Inr po', u)"
  shows "po_writes env po' (plan_steps request ss ts) (plan_expected request ss ts)"
proof (cases "req_kind request = RowSync")
  case True
  obtain s c v t d w where n: "next_row env sc st = (Inr (s, c), v)" "next_row env tc v = (Inr (t, d), w)"
    "sync_loop env (req_mode request) s c t d 0 po w = (Inr po', u)"
    using assms(5) True by (auto simp: walk_def run_simps)
  from sync_loop_refines [OF assms(1) next_row_stream [OF assms(2) n(1)] next_row_stream [OF assms(3) n(2)] assms(4) n(3)]
  show ?thesis using True by (simp add: plan_steps_def plan_expected_def)
next
  case False
  obtain p v where n: "append_source env sc po st = (Inr p, v)" "keep_target env (req_mode request) tc 0 p v = (Inr po', u)"
    using assms(5) False by (auto simp: walk_def run_simps)
  from keep_target_refines [OF assms(1,3) append_source_refines [OF assms(1,2,4) n(1)] n(2)]
  show ?thesis using False by (simp add: plan_steps_def plan_expected_def)
qed

lemma writer_with_overhead_writes: "writer_with_overhead env h n st = (Inr w, t) \<Longrightarrow> writes env w []"
  by (auto simp: writer_with_overhead_def run_simps Let_def intro: writer_new_writes)

lemma differences_refines:
  assumes "aead_ok env" and "holds env source ss" and "holds env target ts"
    and "differences env request mapping source target st = (Inr (counts, operations, expected), u)"
  shows "holds env operations (map step_row (plan_steps request ss ts))
    \<and> (\<exists>rows. holds env (so_spool expected) rows \<and> mset rows = mset (plan_expected request ss ts) \<and> rank_sorted rows)"
proof -
  obtain w1 s1 w2 s2 sc s3 tc s4 po s5 s6 ex s7 s8 where d: "writer_with_overhead env source 128 st = (Inr w1, s1)"
    "handle_writer env source s1 = (Inr w2, s2)" "open_cursor env source s2 = (Inr sc, s3)"
    "open_cursor env target s3 = (Inr tc, s4)"
    "walk env request sc tc \<lparr>po_counts = initial_counts mapping, po_operations = w1, po_expected = w2\<rparr> s4 = (Inr po, s5)"
    "finish_writer env (po_operations po) s5 = (Inr operations, s6)" "finish_writer env (po_expected po) s6 = (Inr ex, s7)"
    "external_sort env ex s7 = (Inr expected, s8)"
    using assms(4) by (auto simp: differences_def run_simps Let_def)
  have "writes env w1 []" using writer_with_overhead_writes d(1) .
  moreover have "writes env w2 []" using d(2) by (auto simp: handle_writer_def intro: writer_new_writes)
  ultimately have "po_writes env \<lparr>po_counts = initial_counts mapping, po_operations = w1, po_expected = w2\<rparr> [] []"
    by (simp add: po_writes_def)
  from walk_refines [OF assms(1) open_cursor_delivers [OF assms(2) d(3)] open_cursor_delivers [OF assms(3) d(4)] this d(5)]
  have po: "writes env (po_operations po) (map step_row (plan_steps request ss ts))"
    "writes env (po_expected po) (plan_expected request ss ts)" by (simp_all add: po_writes_def)
  then show ?thesis
    using finish_holds [OF po(1) d(6)] external_sort_holds [OF assms(1) finish_holds [OF po(2) d(7)] d(8)] by blast
qed

subsection \<open>What the checks of the snapshots give\<close>

lemma rank_sorted_keys:
  assumes "rank_sorted rows" and "\<forall>r \<in> set rows. stored_row r"
  shows "sorted (map key_of rows)"
proof -
  have "fst (rank_of r) = key_of r" if "r \<in> set rows" for r
    using that assms(2) stored_rank [of r] by (auto simp: row_rank_def key_of_def map_err_def rank_of_def split: sum.splits)
  then have keys: "map key_of rows = map (fst \<circ> rank_of) rows" by simp
  have "sorted (map (fst \<circ> rank_of) rows)"
    using assms(1) unfolding rank_sorted_def by (auto simp: sorted_wrt_map less_eq_prod_def elim: sorted_wrt_mono_rel [rotated])
  then show ?thesis by (simp only: keys)
qed

lemma check_row_unique:
  assumes "check_row mapping True previous r = Inr p" and "stored_row r"
  shows "p = Some (key_of r) \<and> previous \<noteq> Some (key_of r)"
  using assms by (auto simp: check_row_def stored_key split: if_splits)

lemma check_loop_keys:
  "delivers env c rows \<Longrightarrow> check_loop env mapping True c previous st = (Inr u, t) \<Longrightarrow>
    distinct_adj (map key_of rows) \<and> (rows \<noteq> [] \<longrightarrow> previous \<noteq> Some (key_of (hd rows)))"
proof (induction rows arbitrary: c previous st)
  case (Cons r rows)
  obtain x c' v where n: "next_row env c st = (Inr (x, c'), v)"
    using Cons.prems(2) by (subst (asm) check_loop.simps) (auto simp: run_simps)
  have x: "x = Some r" "delivers env c' rows" using next_row_delivers [OF Cons.prems(1) n] by simp_all
  obtain p where e: "check_row mapping True previous r = Inr p" "check_loop env mapping True c' p v = (Inr u, t)"
    using Cons.prems(2) n x(1) by (subst (asm) check_loop.simps) (auto simp: run_simps)
  have r: "stored_row r" using delivers_file [OF Cons.prems(1)] by simp
  from check_row_unique [OF e(1) r] Cons.IH [OF x(2) e(2)] show ?case
    by (cases rows) auto
qed simp

lemma sorted_adjacent:
  "sorted xs \<Longrightarrow> distinct_adj xs \<Longrightarrow> sorted_wrt (<) (xs :: 'a :: linorder list)"
proof (induction xs)
  case (Cons x xs)
  then have xs: "sorted_wrt (<) xs" by (cases xs) auto
  show ?case
  proof (cases xs)
    case ys: (Cons y ys)
    then have "x < y" using Cons.prems by auto
    then show ?thesis using xs ys by auto
  qed simp
qed simp

lemma check_rows_distinct:
  assumes "holds env h rows" and "rank_sorted rows" and "check_rows env h mapping True st = (Inr u, t)"
  shows "sorted_wrt (<) (map key_of rows)"
proof -
  obtain c v where "open_cursor env h st = (Inr c, v)" "check_loop env mapping True c None v = (Inr u, t)"
    using assms(3) by (auto simp: check_rows_def run_simps)
  then have "distinct_adj (map key_of rows)" using check_loop_keys open_cursor_delivers [OF assms(1)] by blast
  moreover have "sorted (map key_of rows)" using rank_sorted_keys [OF assms(2)] holds_stored [OF assms(1)] by blast
  ultimately show ?thesis by (rule sorted_adjacent [rotated])
qed

subsection \<open>What the operations do to the target\<close>

text \<open>
  The executor removes the rows of the deletions, then rewrites those of the updates, then adds
  the insertions. Rows are found by the table and the key.
\<close>

definition step_keys :: "data_diff_operation \<Rightarrow> step list \<Rightarrow> bytes set" where
  "step_keys kind steps = {key_of r | r i. (kind, r, i) \<in> set steps}"

definition rewritten :: "step list \<Rightarrow> canonical_row \<Rightarrow> canonical_row" where
  "rewritten steps row =
     (case List.find (\<lambda>(kind, r, _). kind = DiffUpdate \<and> key_of r = key_of row) steps of
        None \<Rightarrow> row | Some (_, r, _) \<Rightarrow> r)"

definition inserted_rows :: "step list \<Rightarrow> canonical_row list" where
  "inserted_rows steps = map (fst \<circ> snd) (filter (\<lambda>s. fst s = DiffInsert) steps)"

definition run_steps :: "step list \<Rightarrow> canonical_row list \<Rightarrow> canonical_row list" where
  "run_steps steps rows =
     map (rewritten steps) (filter (\<lambda>r. key_of r \<notin> step_keys DiffDelete steps) rows) @ inserted_rows steps"

lemma step_keys_Cons: "step_keys kind ((k, r, i) # steps) = (if k = kind then {key_of r} else {}) \<union> step_keys kind steps"
  by (auto simp: step_keys_def)

lemma rewritten_Cons:
  "rewritten ((k, r, i) # steps) row = (if k = DiffUpdate \<and> key_of r = key_of row then r else rewritten steps row)"
  by (simp add: rewritten_def)

lemma rewritten_Nil: "rewritten [] row = row"
  by (simp add: rewritten_def)

lemma rewritten_none: "key_of row \<notin> step_keys DiffUpdate steps \<Longrightarrow> rewritten steps row = row"
proof (induction steps)
  case (Cons s steps)
  then show ?case by (cases s) (auto simp: rewritten_Cons step_keys_Cons split: if_splits)
qed (simp add: rewritten_Nil)

lemma inserted_Cons: "inserted_rows ((k, r, i) # steps) = (if k = DiffInsert then [r] else []) @ inserted_rows steps"
  by (simp add: inserted_rows_def)

lemma run_skip:
  assumes "\<And>q. q \<in> set rows \<Longrightarrow> key_of q \<noteq> key_of r"
  shows "mset (run_steps ((k, r, i) # steps) rows)
    = (if k = DiffInsert then {#r#} else {#}) + mset (run_steps steps rows)"
proof -
  have "filter (\<lambda>q. key_of q \<notin> step_keys DiffDelete ((k, r, i) # steps)) rows
      = filter (\<lambda>q. key_of q \<notin> step_keys DiffDelete steps) rows"
    using assms by (intro filter_cong) (auto simp: step_keys_Cons)
  moreover have "map (rewritten ((k, r, i) # steps)) (filter P rows) = map (rewritten steps) (filter P rows)" for P
    by (rule map_cong [OF refl]) (use assms in \<open>auto simp: rewritten_Cons dest: sym\<close>)
  ultimately show ?thesis unfolding run_steps_def inserted_Cons by (simp only: mset_append) simp
qed

lemma run_insert: "mset (run_steps ((DiffInsert, r, i) # steps) rows) = add_mset r (mset (run_steps steps rows))"
proof -
  have "rewritten ((DiffInsert, r, i) # steps) = rewritten steps" by (simp add: fun_eq_iff rewritten_Cons)
  then show ?thesis by (simp add: run_steps_def step_keys_Cons inserted_Cons)
qed

lemma run_keep:
  assumes "key_of row \<notin> step_keys DiffDelete steps" and "key_of row \<notin> step_keys DiffUpdate steps"
  shows "run_steps steps (row # rows) = row # run_steps steps rows"
  using assms by (simp add: run_steps_def rewritten_none)

lemma sync_step_rows: "(k, r, j) \<in> set (sync_steps mode i ss ts) \<Longrightarrow> r \<in> set ss \<union> set ts"
  by (induction mode i ss ts rule: sync_steps.induct) (auto split: if_splits)

lemma sync_step_fresh:
  "(\<And>q. q \<in> set ss \<union> set ts \<Longrightarrow> key_of q \<noteq> key_of r) \<Longrightarrow> key_of r \<notin> step_keys k (sync_steps mode i ss ts)"
  unfolding step_keys_def using sync_step_rows by fastforce

text \<open>The smallest row, being in both lists or in the target only, is decided by the first step.\<close>

lemma run_both:
  assumes "\<And>q. q \<in> set ss \<union> set ts \<Longrightarrow> key_of q \<noteq> key_of t" and "key_of s = key_of t"
  shows "mset (run_steps ((if s = t then [] else [(DiffUpdate, s, i)]) @ sync_steps mode j ss ts) (t # ts))
    = add_mset s (mset (run_steps (sync_steps mode j ss ts) ts))"
proof -
  note fresh = sync_step_fresh [OF assms(1)]
  have keep: "run_steps (sync_steps mode j ss ts) (t # ts) = t # run_steps (sync_steps mode j ss ts) ts"
    by (rule run_keep) (rule fresh, assumption)+
  have other: "key_of q \<noteq> key_of s" if "q \<in> set ts" for q using assms that by auto
  have "run_steps ((DiffUpdate, s, i) # steps) (t # ts) = s # run_steps ((DiffUpdate, s, i) # steps) ts"
    if "key_of t \<notin> step_keys DiffDelete steps" for steps
    using that assms(2) by (simp add: run_steps_def step_keys_Cons rewritten_Cons)
  then show ?thesis using keep fresh run_skip [OF other, where k = DiffUpdate] by simp
qed

lemma run_target_only:
  assumes "\<And>q. q \<in> set ss \<union> set ts \<Longrightarrow> key_of q \<noteq> key_of t"
  shows "mset (run_steps ((if del then DiffDelete else DiffRetain, t, i) # sync_steps mode j ss ts) (t # ts))
    = (if del then {#} else {#t#}) + mset (run_steps (sync_steps mode j ss ts) ts)"
proof -
  note fresh = sync_step_fresh [OF assms]
  have other: "key_of q \<noteq> key_of t" if "q \<in> set ts" for q using assms that by auto
  show ?thesis
  proof (cases del)
    case True
    have "run_steps ((DiffDelete, t, i) # steps) (t # ts) = run_steps ((DiffDelete, t, i) # steps) ts" for steps
      by (simp add: run_steps_def step_keys_Cons)
    then show ?thesis using True run_skip [OF other, where k = DiffDelete] by simp
  next
    case False
    have "run_steps ((DiffRetain, t, i) # steps) (t # ts) = t # run_steps ((DiffRetain, t, i) # steps) ts"
      if "key_of t \<notin> step_keys DiffDelete steps" "key_of t \<notin> step_keys DiffUpdate steps" for steps
      by (rule run_keep) (use that in \<open>simp_all add: step_keys_Cons\<close>)
    then show ?thesis using False fresh run_skip [OF other, where k = DiffRetain] by simp
  qed
qed

lemma run_sync_steps:
  "sorted_wrt (<) (map key_of ss) \<Longrightarrow> sorted_wrt (<) (map key_of ts) \<Longrightarrow>
    mset (run_steps (sync_steps mode i ss ts) ts) = mset (sync_expected mode ss ts)"
proof (induction mode i ss ts rule: sync_steps.induct)
  case (1 mode i)
  then show ?case by (simp add: run_steps_def inserted_rows_def)
next
  case (2 mode i s ss)
  then show ?case by (simp add: run_insert)
next
  case (3 mode i t ts)
  have "key_of q \<noteq> key_of t" if "q \<in> set [] \<union> set ts" for q using 3(3) that by auto
  from run_target_only [OF this, where del = "mode = Mirror" and i = i and mode = mode and j = "i + 1" and ss = "[]" and ts = ts] 3
  show ?case by (cases "mode = Mirror") simp_all
next
  case (4 mode i s ss t ts)
  have tail: "sorted_wrt (<) (map key_of ss)" "sorted_wrt (<) (map key_of ts)" using 4(4,5) by simp_all
  consider "key_of s < key_of t" | "key_of s = key_of t" | "key_of t < key_of s" using less_linear by blast
  then show ?case
  proof cases
    case 1
    then show ?thesis using 4(1) [OF 1 tail(1) 4(5)] by (simp add: run_insert)
  next
    case 2
    have "key_of q \<noteq> key_of t" if "q \<in> set ss \<union> set ts" for q using 4(4,5) that 2 by auto
    from run_both [OF this 2, where i = i and mode = mode and j = "i + 1"] 4(2) [OF _ 2 tail] 2 show ?thesis by simp
  next
    case 3
    have "key_of q \<noteq> key_of t" if "q \<in> set (s # ss) \<union> set ts" for q using 4(4,5) that 3 by auto
    note step = run_target_only [OF this, where del = "mode = Mirror" and i = i and mode = mode and j = "i + 1"
        and ss = "s # ss" and ts = ts]
    have "\<not> key_of s < key_of t" "key_of s \<noteq> key_of t" using 3 by auto
    then have "sync_steps mode i (s # ss) (t # ts)
        = (if mode = Mirror then DiffDelete else DiffRetain, t, i) # sync_steps mode (i + 1) (s # ss) ts"
      "sync_expected mode (s # ss) (t # ts) = (if mode = Mirror then [] else [t]) @ sync_expected mode (s # ss) ts"
      by simp_all
    then show ?thesis using step 4(3) [OF \<open>\<not> key_of s < key_of t\<close> \<open>key_of s \<noteq> key_of t\<close> 4(4) tail(2)]
      by (cases "mode = Mirror") simp_all
  qed
qed

text \<open>A task without keys deletes all rows of the target or none.\<close>

lemma kept_member: "(k, r, j) \<in> set (kept_steps mode i ts) \<Longrightarrow> k = DiffDelete \<and> r \<in> set ts \<and> mode = Replace"
  by (induction mode i ts rule: kept_steps.induct) (auto split: if_splits)

lemma kept_all: "r \<in> set ts \<Longrightarrow> \<exists>j. (DiffDelete, r, j) \<in> set (kept_steps Replace i ts)"
proof (induction ts arbitrary: i)
  case (Cons t ts)
  then show ?case by (cases "r = t") fastforce+
qed simp

lemma run_transfer_steps:
  "mset (run_steps (map (\<lambda>r. (DiffInsert, r, U64_MAX)) ss @ kept_steps mode i ts) ts)
    = mset ss + (if mode = Replace then {#} else mset ts)"
proof -
  let ?steps = "map (\<lambda>r. (DiffInsert, r, U64_MAX)) ss @ kept_steps mode i ts"
  have "filter (\<lambda>s. fst s = DiffInsert) (kept_steps mode i ts) = []"
    by (auto simp: filter_empty_conv dest: kept_member)
  then have ins: "inserted_rows ?steps = ss" by (simp add: inserted_rows_def comp_def)
  have "step_keys DiffUpdate ?steps = {}" by (auto simp: step_keys_def dest: kept_member)
  then have "rewritten ?steps = (\<lambda>r. r)" by (intro ext rewritten_none) simp
  moreover have "filter (\<lambda>r. key_of r \<notin> step_keys DiffDelete ?steps) ts = (if mode = Replace then [] else ts)"
  proof (cases "mode = Replace")
    case True
    have "key_of r \<in> step_keys DiffDelete ?steps" if "r \<in> set ts" for r
      using kept_all [OF that, of i] True by (auto simp: step_keys_def)
    then show ?thesis using True by (simp add: filter_empty_conv)
  next
    case False
    have "step_keys DiffDelete ?steps = {}" using False by (auto simp: step_keys_def dest: kept_member)
    then show ?thesis using False by simp
  qed
  ultimately show ?thesis using ins by (simp add: run_steps_def)
qed

lemma run_plan_steps:
  assumes "req_kind request = RowSync \<Longrightarrow> sorted_wrt (<) (map key_of ss) \<and> sorted_wrt (<) (map key_of ts)"
  shows "mset (run_steps (plan_steps request ss ts) ts) = mset (plan_expected request ss ts)"
  using assms by (simp add: plan_steps_def plan_expected_def run_sync_steps run_transfer_steps)

text \<open>The expected rows, mode by mode.\<close>

lemma sync_expected_mirror: "sync_expected Mirror ss ts = ss"
  by (induction Mirror ss ts rule: sync_expected.induct) auto

lemma keep_others:
  assumes "k \<notin> key_of ` set rows"
  shows "filter_mset (\<lambda>q. key_of q \<noteq> k \<and> key_of q \<notin> K) (mset rows) = filter_mset (\<lambda>q. key_of q \<notin> K) (mset rows)"
  by (rule filter_mset_cong) (use assms in \<open>auto simp: image_iff\<close>)

lemma sync_expected_merge:
  "mode \<noteq> Mirror \<Longrightarrow> sorted_wrt (<) (map key_of ss) \<Longrightarrow> sorted_wrt (<) (map key_of ts) \<Longrightarrow>
    mset (sync_expected mode ss ts) = mset ss + filter_mset (\<lambda>t. key_of t \<notin> key_of ` set ss) (mset ts)"
proof (induction mode ss ts rule: sync_expected.induct)
  case (4 mode s ss t ts)
  consider "key_of s < key_of t" | "key_of s = key_of t" | "key_of t < key_of s" using less_linear by blast
  then show ?case
  proof cases
    case 1
    then have "key_of s \<notin> key_of ` set (t # ts)" using 4(6) by auto
    note others = keep_others [OF this]
    show ?thesis using 4(1) [OF 1 4(4) _ 4(6)] 4(5) 1 others by simp
  next
    case 2
    then have "key_of s \<notin> key_of ` set ts" using 4(6) by auto
    note others = keep_others [OF this]
    show ?thesis using 4(2) [OF _ 2 4(4)] 4(5,6) 2 others by simp
  next
    case 3
    then have "key_of t \<notin> key_of ` set (s # ss)" using 4(5) by auto
    moreover have "\<not> key_of s < key_of t" "key_of s \<noteq> key_of t" using 3 by auto
    moreover have "sorted_wrt (<) (map key_of ts)" using 4(6) by simp
    ultimately show ?thesis using 4(3) [OF _ _ 4(4,5)] 4(4) by simp
  qed
qed (auto simp: multiset_eq_iff)

definition mode_result :: "data_task_request \<Rightarrow> canonical_row multiset \<Rightarrow> canonical_row multiset \<Rightarrow> canonical_row multiset" where
  "mode_result request source target =
     source +
     (if req_kind request = RowSync
      then if req_mode request = Mirror then {#}
           else filter_mset (\<lambda>t. key_of t \<notin> key_of ` set_mset source) target
      else if req_mode request = Replace then {#} else target)"

lemma plan_expected_result:
  assumes "req_kind request = RowSync \<Longrightarrow> sorted_wrt (<) (map key_of ss) \<and> sorted_wrt (<) (map key_of ts)"
  shows "mset (plan_expected request ss ts) = mode_result request (mset ss) (mset ts)"
  using assms by (auto simp: plan_expected_def mode_result_def sync_expected_mirror sync_expected_merge)

text \<open>
  C30. An operation is read back as it was written: an insertion with its new row, a deletion or a
  retained row with its old row, an update with its new row and with the key of the old one.
\<close>

theorem operation_round_trip:
  "operation_from_row (operation_row kind r i) = Inr (case kind of
      DiffInsert \<Rightarrow> \<lparr>op_kind = kind, op_old = None, op_new = Some r\<rparr>
    | DiffUpdate \<Rightarrow> \<lparr>op_kind = kind, op_old = Some (r\<lparr>row_values := []\<rparr>), op_new = Some r\<rparr>
    | _ \<Rightarrow> \<lparr>op_kind = kind, op_old = Some r, op_new = None\<rparr>)"
  by (cases kind) (simp_all add: operation_from_row_def operation_kind_def operation_row_def operation_name_def)

subsection \<open>What a plan holds\<close>

lemma build_plan_parts:
  assumes "build_plan penv task_id request mapping source_md target_md source target target_full st = (Inr plan, t)"
  obtains verified ss s1 ts s2 tf s3 s4 s5 counts operations expected s6 where
    "validate_mapping request source_md target_md = Inr verified" "mapping_json penv verified = mapping_json penv mapping"
    "external_sort (pe_spool penv) source st = (Inr ss, s1)" "external_sort (pe_spool penv) target s1 = (Inr ts, s2)"
    "external_sort (pe_spool penv) target_full s2 = (Inr tf, s3)"
    "check_rows (pe_spool penv) (so_spool ss) mapping (req_kind request = RowSync) s3 = (Inr (), s4)"
    "check_rows (pe_spool penv) (so_spool ts) mapping (req_kind request = RowSync) s4 = (Inr (), s5)"
    "differences (pe_spool penv) request mapping (so_spool ss) (so_spool ts) s5 = (Inr (counts, operations, expected), s6)"
    "sp_request plan = request" "sp_mapping plan = mapping" "sp_source plan = ss" "sp_target plan = ts"
    "sp_target_full plan = tf" "sp_operations plan = operations" "sp_expected plan = expected"
proof -
  show thesis
    using assms unfolding build_plan_def Let_def
    by (clarsimp simp: run_simps) (rule that; (assumption | simp))
qed

lemma build_plan_refines:
  assumes "aead_ok (pe_spool penv)" and "holds (pe_spool penv) source rows" and "holds (pe_spool penv) target old"
    and "build_plan penv task_id request mapping source_md target_md source target target_full st = (Inr plan, t)"
  obtains ss ts es where
    "holds (pe_spool penv) (so_spool (sp_source plan)) ss" "mset ss = mset rows"
    "holds (pe_spool penv) (so_spool (sp_target plan)) ts" "mset ts = mset old"
    "holds (pe_spool penv) (sp_operations plan) (map step_row (plan_steps request ss ts))"
    "holds (pe_spool penv) (so_spool (sp_expected plan)) es" "mset es = mset (plan_expected request ss ts)" "rank_sorted es"
    "req_kind request = RowSync \<Longrightarrow> sorted_wrt (<) (map key_of ss) \<and> sorted_wrt (<) (map key_of ts)"
proof -
  let ?env = "pe_spool penv"
  obtain verified ss s1 ts s2 tf s3 s4 s5 counts operations expected s6 where
    b: "validate_mapping request source_md target_md = Inr verified" "mapping_json penv verified = mapping_json penv mapping"
    "external_sort ?env source st = (Inr ss, s1)" "external_sort ?env target s1 = (Inr ts, s2)"
    "external_sort ?env target_full s2 = (Inr tf, s3)"
    "check_rows ?env (so_spool ss) mapping (req_kind request = RowSync) s3 = (Inr (), s4)"
    "check_rows ?env (so_spool ts) mapping (req_kind request = RowSync) s4 = (Inr (), s5)"
    "differences ?env request mapping (so_spool ss) (so_spool ts) s5 = (Inr (counts, operations, expected), s6)"
    "sp_request plan = request" "sp_mapping plan = mapping" "sp_source plan = ss" "sp_target plan = ts"
    "sp_target_full plan = tf" "sp_operations plan = operations" "sp_expected plan = expected"
    using build_plan_parts [OF assms(4)] .
  obtain xs where xs: "holds ?env (so_spool ss) xs" "mset xs = mset rows" "rank_sorted xs"
    using external_sort_holds [OF assms(1,2) b(3)] by blast
  obtain ys where ys: "holds ?env (so_spool ts) ys" "mset ys = mset old" "rank_sorted ys"
    using external_sort_holds [OF assms(1,3) b(4)] by blast
  obtain es where "holds ?env operations (map step_row (plan_steps request xs ys))"
    "holds ?env (so_spool expected) es" "mset es = mset (plan_expected request xs ys)" "rank_sorted es"
    using differences_refines [OF assms(1) xs(1) ys(1) b(8)] by blast
  moreover have "req_kind request = RowSync \<Longrightarrow> sorted_wrt (<) (map key_of xs) \<and> sorted_wrt (<) (map key_of ys)"
    using check_rows_distinct [OF xs(1,3)] check_rows_distinct [OF ys(1,3)] b(6,7) by simp
  ultimately show thesis using that [of xs ys es] xs ys b by simp
qed

text \<open>A plan for one source row and an empty target, for the witnesses.\<close>

definition plain_plan_env :: plan_env where
  "plain_plan_env = \<lparr>pe_spool = plain_env, mapping_json = (\<lambda>_. Some []), fingerprint_json = (\<lambda>_. Some []),
     item_json = (\<lambda>_. Some []), new_uuid = (\<lambda>_. []), debug_strings = concat, float_text = (\<lambda>_. [])\<rparr>"

definition plan_row :: canonical_row where
  "plan_row = \<lparr>row_table = ''t'', row_key = [Bool True], row_values = [Bool True]\<rparr>"

definition plan_metadata :: metadata_snapshot where
  "plan_metadata = example_metadata\<lparr>md_tables :=
     [\<lparr>tab_name = ''t'', create_sql = [], tab_columns = [example_column ''i'' ''INTEGER'' 1],
       foreign_keys = [], enabled_user_triggers = False, physical = True\<rparr>]\<rparr>"

definition plan_request :: data_task_request where
  "plan_request = example_request\<lparr>mappings := [\<lparr>source_table = ''t'', target_table = ''t'',
     columns = [\<lparr>source_column = ''i'', target_column = ''i''\<rparr>]\<rparr>]\<rparr>"

definition plan_mapping :: validated_mapping where
  "plan_mapping = \<lparr>vm_tables = [\<lparr>vt_source = ''t'', vt_target = ''t'', vt_source_columns = [''i''],
     vt_target_columns = [''i''], key_indices = [0]\<rparr>], insert_order = [''t''], delete_order = [''t'']\<rparr>"

text \<open>For evaluation, see \<open>Actions\<close>.\<close>

lemmas plan_run [code] = put_operation_def [THEN fun_cong] check_rows_def [THEN fun_cong]
  po_count_def [THEN fun_cong] po_operation_def [THEN fun_cong] po_expect_def [THEN fun_cong]
  emit_insert_def [THEN fun_cong] emit_both_def [THEN fun_cong] emit_target_only_def [THEN fun_cong]
  emit_kept_def [THEN fun_cong] walk_def [THEN fun_cong] differences_def [THEN fun_cong]
  build_plan_def [THEN fun_cong] read_operation_def [THEN fun_cong] diff_page_def [THEN fun_cong]

definition plan_example :: "stored_plan task_action" where
  "plan_example = 
     abind (write_snapshot plain_env default_budget [plan_row]) (\<lambda>source.
     abind (write_snapshot plain_env default_budget []) (\<lambda>target.
       build_plan plain_plan_env [] plan_request plan_mapping plan_metadata plan_metadata source target target))"

lemma plan_example_runs: "wp plan_example (\<lambda>_ _. True) (\<lambda>_ _. False) (new_resources None)"
  by code_simp

lemma plan_example_built:
  obtains plan t source target s1 s2 where "plan_example (new_resources None) = (Inr plan, t)"
    "holds (pe_spool plain_plan_env) source [plan_row]" "holds (pe_spool plain_plan_env) target []"
    "build_plan plain_plan_env [] plan_request plan_mapping plan_metadata plan_metadata source target target s2 = (Inr plan, t)"
proof -
  obtain plan t source s1 target s2 where run: "plan_example (new_resources None) = (Inr plan, t)"
    "write_snapshot plain_env default_budget [plan_row] (new_resources None) = (Inr source, s1)"
    "write_snapshot plain_env default_budget [] s1 = (Inr target, s2)"
    "build_plan plain_plan_env [] plan_request plan_mapping plan_metadata plan_metadata source target target s2 = (Inr plan, t)"
    using wp_returns [OF plan_example_runs] unfolding plan_example_def by (auto simp: run_simps)
  have wf: "\<forall>r \<in> set [plan_row]. wf_row r" by code_simp
  have "norm_row plan_row = plan_row" by (simp add: norm_row_def plan_row_def)
  then show thesis
    using that [OF run(1) _ _ run(4)] write_snapshot_holds [OF plain_env_ok wf run(2)]
      write_snapshot_holds [OF plain_env_ok _ run(3)]
    by (simp add: plain_plan_env_def)
qed

text \<open>
  C28. A plan reaches what it promises: the stored operations, carried out on the rows the target
  snapshot holds in the order of the executor (deletions, updates, insertions), leave exactly the
  rows of the expected snapshot, which the executor compares with the target before it commits.
\<close>

theorem plan_reaches_expected:
  assumes "aead_ok (pe_spool penv)" and "holds (pe_spool penv) source rows" and "holds (pe_spool penv) target old"
    and "build_plan penv task_id request mapping source_md target_md source target target_full st = (Inr plan, t)"
  shows "\<exists>steps ts es. holds (pe_spool penv) (sp_operations plan) (map step_row steps)
    \<and> holds (pe_spool penv) (so_spool (sp_target plan)) ts \<and> mset ts = mset old
    \<and> holds (pe_spool penv) (so_spool (sp_expected plan)) es \<and> mset es = mset (run_steps steps ts)"
proof -
  obtain ss ts es where p: "holds (pe_spool penv) (so_spool (sp_target plan)) ts" "mset ts = mset old"
    "holds (pe_spool penv) (sp_operations plan) (map step_row (plan_steps request ss ts))"
    "holds (pe_spool penv) (so_spool (sp_expected plan)) es" "mset es = mset (plan_expected request ss ts)"
    "req_kind request = RowSync \<Longrightarrow> sorted_wrt (<) (map key_of ss) \<and> sorted_wrt (<) (map key_of ts)"
    by (rule build_plan_refines [OF assms]) blast
  then show ?thesis using run_plan_steps [OF p(6)] by metis
qed

theorem plan_reaches_expected_witness:
  "\<exists>plan t steps es. plan_example (new_resources None) = (Inr plan, t)
     \<and> holds plain_env (sp_operations plan) (map step_row steps)
     \<and> holds plain_env (so_spool (sp_expected plan)) es \<and> mset es = mset (run_steps steps [])"
proof -
  obtain plan t source target s1 s2 where p: "plan_example (new_resources None) = (Inr plan, t)"
    "holds (pe_spool plain_plan_env) source [plan_row]" "holds (pe_spool plain_plan_env) target []"
    "build_plan plain_plan_env [] plan_request plan_mapping plan_metadata plan_metadata source target target s2 = (Inr plan, t)"
    using plan_example_built .
  have "aead_ok (pe_spool plain_plan_env)" using plain_env_ok by (simp add: plain_plan_env_def)
  from plan_reaches_expected [OF this p(2-4)] p(1) show ?thesis by (auto simp: plain_plan_env_def)
qed

text \<open>
  C29. The expected rows are what the mode of the task asks for: a mirror leaves exactly the source
  rows, a merge adds the target rows whose key the source does not have, a replacement leaves the
  source rows and an append adds them to the target.
\<close>

theorem plan_mode_result:
  assumes "aead_ok (pe_spool penv)" and "holds (pe_spool penv) source rows" and "holds (pe_spool penv) target old"
    and "build_plan penv task_id request mapping source_md target_md source target target_full st = (Inr plan, t)"
  shows "\<exists>es. holds (pe_spool penv) (so_spool (sp_expected plan)) es \<and> rank_sorted es
    \<and> mset es = mode_result request (mset rows) (mset old)"
proof -
  obtain ss ts es where p: "mset ss = mset rows" "mset ts = mset old"
    "holds (pe_spool penv) (so_spool (sp_expected plan)) es" "mset es = mset (plan_expected request ss ts)" "rank_sorted es"
    "req_kind request = RowSync \<Longrightarrow> sorted_wrt (<) (map key_of ss) \<and> sorted_wrt (<) (map key_of ts)"
    by (rule build_plan_refines [OF assms]) blast
  then show ?thesis using plan_expected_result [OF p(6)] by metis
qed

theorem plan_mode_result_witness:
  "\<exists>plan t. plan_example (new_resources None) = (Inr plan, t)
     \<and> holds plain_env (so_spool (sp_expected plan)) [plan_row]"
proof -
  obtain plan t source target s1 s2 where p: "plan_example (new_resources None) = (Inr plan, t)"
    "holds (pe_spool plain_plan_env) source [plan_row]" "holds (pe_spool plain_plan_env) target []"
    "build_plan plain_plan_env [] plan_request plan_mapping plan_metadata plan_metadata source target target s2 = (Inr plan, t)"
    using plan_example_built .
  have "aead_ok (pe_spool plain_plan_env)" using plain_env_ok by (simp add: plain_plan_env_def)
  from plan_mode_result [OF this p(2-4)] p(1) show ?thesis
    by (auto simp: plain_plan_env_def mode_result_def plan_request_def example_request_def)
qed

end
