(* ===== verification/Connection.thy ===== *)
theory Connection
  imports Data_Models
begin

text \<open>
  Saved connections (\<open>src-tauri/src/models/types.rs\<close>, \<open>commands/temporary\_database.rs\<close>) and
  what a data task checks of them (\<open>commands/data\_tasks.rs\<close>, \<open>db/data\_tasks/executor.rs\<close>).
  The JSON encoder and SHA-256 are parameters.
\<close>

subsection \<open>Configurations\<close>

record ssh_config =
  ssh_host :: string
  ssh_port :: nat
  ssh_username :: string
  ssh_password :: "string option"
  ssh_private_key_path :: "string option"

record connection_config =
  cc_id :: "string option"
  cc_database_type :: database_type
  cc_name :: string
  cc_host :: string
  cc_port :: nat
  cc_username :: string
  cc_password :: "string option"
  cc_database :: "string option"
  cc_sqlite_path :: "string option"
  cc_ssh :: "ssh_config option"
  cc_ssl_mode :: "string option"
  cc_ssl_ca_path :: "string option"
  cc_ssl_pkcs12_path :: "string option"
  cc_ssl_pkcs12_password :: "string option"
  cc_ssl_tls_hostname :: "string option"
  cc_client_charset :: "string option"
  cc_session_init_commands :: "string list option"
  cc_read_only :: "bool option"
  cc_skip_dangerous_sql_confirm :: "bool option"
  cc_group_id :: "string option"

subsection \<open>Secrets\<close>

text \<open>Eight bullets, as UTF-8.\<close>

definition PASSWORD_REDACTED :: string where
  "PASSWORD_REDACTED = concat (replicate 8 (of_bytes [0xE2, 0x80, 0xA2]))"

definition redact_secret :: "string option \<Rightarrow> string option" where
  "redact_secret secret = (case secret of
     Some p \<Rightarrow> if p \<noteq> [] \<and> p \<noteq> PASSWORD_REDACTED then Some PASSWORD_REDACTED else None
   | None \<Rightarrow> None)"

definition redacted :: "string option \<Rightarrow> string option" where
  "redacted secret = (if redact_secret secret \<noteq> None then Some PASSWORD_REDACTED else secret)"

definition redact_connection_secrets :: "connection_config \<Rightarrow> connection_config" where
  "redact_connection_secrets c = c\<lparr>
     cc_password := redacted (cc_password c),
     cc_ssh := map_option (\<lambda>s. s\<lparr>ssh_password := redacted (ssh_password s)\<rparr>) (cc_ssh c),
     cc_ssl_pkcs12_password := redacted (cc_ssl_pkcs12_password c)\<rparr>"

text \<open>
  The two digests of a configuration: the one kept in memory covers the secrets, the one in the
  metadata of a plan is taken after they are replaced. A failed encoding counts as no bytes.
\<close>

definition configuration_digest ::
    "(connection_config \<Rightarrow> bytes option) \<Rightarrow> (bytes \<Rightarrow> bytes) \<Rightarrow> connection_config \<Rightarrow> bytes" where
  "configuration_digest json sha256 c = sha256 (unwrap_or [] (json c))"

definition config_fingerprint ::
    "(connection_config \<Rightarrow> bytes option) \<Rightarrow> (bytes \<Rightarrow> string) \<Rightarrow> connection_config \<Rightarrow> string" where
  "config_fingerprint json sha256_hex c = sha256_hex (unwrap_or [] (json (redact_connection_secrets c)))"

subsection \<open>Selecting the connections of a task\<close>

definition find_saved_connection :: "connection_config list \<Rightarrow> string \<Rightarrow> string \<Rightarrow> connection_config result" where
  "find_saved_connection saved connection_id side =
     ok_or (side @ '' saved connection does not exist or was deleted'')
       (List.find (\<lambda>c. cc_id c = Some connection_id) saved)"

definition selected_configs ::
    "connection_config list \<Rightarrow> data_task_request \<Rightarrow> data_task_error + connection_config \<times> connection_config" where
  "selected_configs saved request =
     (case validate request of
        Inl e \<Rightarrow> Inl e
      | Inr _ \<Rightarrow>
          (case find_saved_connection saved (ep_connection (req_source request)) ''source'' of
             Inl _ \<Rightarrow> Inl (task_error ''plan_stale'' ''the saved source connection was deleted'')
           | Inr source \<Rightarrow>
               (case find_saved_connection saved (ep_connection (req_target request)) ''target'' of
                  Inl _ \<Rightarrow> Inl (task_error ''plan_stale'' ''the saved target connection was deleted'')
                | Inr target \<Rightarrow>
                    if cc_read_only target = Some True
                    then Inl (task_error ''read_only_target'' ''the target connection is read only'')
                    else Inr (source, target))))"

definition check_configurations ::
    "(connection_config \<Rightarrow> bytes) \<Rightarrow> connection_config \<Rightarrow> connection_config \<Rightarrow> bytes \<Rightarrow> bytes
       \<Rightarrow> data_task_error + unit" where
  "check_configurations dig source target expected_source expected_target =
     (if dig source \<noteq> expected_source \<or> dig target \<noteq> expected_target
      then Inl (task_error ''plan_stale'' ''a saved connection was changed'')
      else Inr ())"

subsection \<open>Secrets stay out of the fingerprint\<close>

text \<open>A secret is kept as it is when there is none, so that its absence is not hidden.\<close>

definition same_secret :: "string option \<Rightarrow> string option \<Rightarrow> bool" where
  "same_secret p q \<longleftrightarrow> p = q \<or> (\<exists>x y. p = Some x \<and> q = Some y \<and> x \<noteq> [] \<and> y \<noteq> [])"

lemma redacted_simps [simp]:
  "redacted None = None" "redacted (Some []) = Some []"
  "p \<noteq> [] \<Longrightarrow> redacted (Some p) = Some PASSWORD_REDACTED"
  by (auto simp: redacted_def redact_secret_def)

lemma redacted_same: "same_secret p q \<Longrightarrow> redacted p = redacted q"
  by (auto simp: same_secret_def)

text \<open>Two configurations that differ in nothing but the secrets they hold.\<close>

definition same_but_secrets :: "connection_config \<Rightarrow> connection_config \<Rightarrow> bool" where
  "same_but_secrets c d \<longleftrightarrow>
     c\<lparr>cc_password := None, cc_ssh := None, cc_ssl_pkcs12_password := None\<rparr>
       = d\<lparr>cc_password := None, cc_ssh := None, cc_ssl_pkcs12_password := None\<rparr>
   \<and> same_secret (cc_password c) (cc_password d)
   \<and> same_secret (cc_ssl_pkcs12_password c) (cc_ssl_pkcs12_password d)
   \<and> rel_option (\<lambda>s t. s\<lparr>ssh_password := None\<rparr> = t\<lparr>ssh_password := None\<rparr>
        \<and> same_secret (ssh_password s) (ssh_password t)) (cc_ssh c) (cc_ssh d)"

text \<open>
  C31. The fingerprint of a configuration tells nothing about its secrets: it is the same for any
  two configurations that differ in non-empty passwords only, those of the database, of the SSH
  gate and of the certificate archive.
\<close>

theorem fingerprint_hides_secrets:
  assumes "same_but_secrets c d"
  shows "config_fingerprint json sha256_hex c = config_fingerprint json sha256_hex d"
proof -
  have ssh: "map_option (\<lambda>s. s\<lparr>ssh_password := redacted (ssh_password s)\<rparr>) (cc_ssh c)
      = map_option (\<lambda>s. s\<lparr>ssh_password := redacted (ssh_password s)\<rparr>) (cc_ssh d)"
  proof (cases "cc_ssh c"; cases "cc_ssh d")
    fix s t assume st: "cc_ssh c = Some s" "cc_ssh d = Some t"
    then have "s\<lparr>ssh_password := None\<rparr> = t\<lparr>ssh_password := None\<rparr>"
      "redacted (ssh_password s) = redacted (ssh_password t)"
      using assms redacted_same by (auto simp: same_but_secrets_def)
    then show ?thesis using st by (cases s; cases t) simp
  qed (use assms in \<open>auto simp: same_but_secrets_def\<close>)
  have "redacted (cc_password c) = redacted (cc_password d)"
    "redacted (cc_ssl_pkcs12_password c) = redacted (cc_ssl_pkcs12_password d)"
    using assms redacted_same by (auto simp: same_but_secrets_def)
  then have "redact_connection_secrets c = redact_connection_secrets d"
    using assms ssh by (cases c; cases d) (simp add: same_but_secrets_def redact_connection_secrets_def)
  then show ?thesis by (simp add: config_fingerprint_def)
qed

definition example_config :: "string \<Rightarrow> string \<Rightarrow> connection_config" where
  "example_config name password = \<lparr>cc_id = Some name, cc_database_type = Postgres, cc_name = name, cc_host = ''db'',
     cc_port = 5432, cc_username = ''u'', cc_password = Some password, cc_database = None, cc_sqlite_path = None,
     cc_ssh = Some \<lparr>ssh_host = ''gate'', ssh_port = 22, ssh_username = ''u'', ssh_password = Some password,
       ssh_private_key_path = None\<rparr>,
     cc_ssl_mode = None, cc_ssl_ca_path = None, cc_ssl_pkcs12_path = None, cc_ssl_pkcs12_password = None,
     cc_ssl_tls_hostname = None, cc_client_charset = None, cc_session_init_commands = None, cc_read_only = None,
     cc_skip_dangerous_sql_confirm = None, cc_group_id = None\<rparr>"

theorem fingerprint_hides_secrets_witness:
  "config_fingerprint (\<lambda>c. map_option (map byte_of) (cc_password c)) of_bytes (example_config ''a'' ''one'')
     = config_fingerprint (\<lambda>c. map_option (map byte_of) (cc_password c)) of_bytes (example_config ''a'' ''two'')"
  by (rule fingerprint_hides_secrets) (simp add: same_but_secrets_def example_config_def same_secret_def)

lemma find_saved_cases:
  "find_saved_connection saved i side = (case List.find (\<lambda>c. cc_id c = Some i) saved of
     None \<Rightarrow> Inl (side @ '' saved connection does not exist or was deleted'') | Some c \<Rightarrow> Inr c)"
  by (simp add: find_saved_connection_def split: option.splits)

lemma selected_configs_Inr:
  "selected_configs saved request = Inr (source, target) \<longleftrightarrow>
     validate request = Inr ()
   \<and> List.find (\<lambda>c. cc_id c = Some (ep_connection (req_source request))) saved = Some source
   \<and> List.find (\<lambda>c. cc_id c = Some (ep_connection (req_target request))) saved = Some target
   \<and> cc_read_only target \<noteq> Some True"
  by (auto simp: selected_configs_def find_saved_cases split: sum.splits option.splits)

end
