(* ===== verification/Session.thy ===== *)
theory Session
  imports Plan Batch Transfer_Row Registry Connection
begin

text \<open>
  What the execution of a data task works on (\<open>src-tauri/src/db/data\_tasks/executor.rs\<close>): the
  interface \<open>DataSession\<close> of \<open>adapters/mod.rs\<close>, the state of an execution, progress reports and
  projections.

  The executor holds its sessions as trait objects (\<open>Box<dyn DataSession>\<close>) and knows of them only
  the methods of the trait, so a session is a record of actions on a database \<open>'db\<close>, which stands
  for the database as the session of the task sees it: its durable content, the open transaction, the
  connection. The record is an argument of every definition here; the laws the executor relies on are
  the hypotheses of the theorems in \<open>Execute\<close>.
\<close>

subsection \<open>Sessions\<close>

record projection =
  pj_table :: string
  pj_output :: string
  pj_columns :: "string list"
  pj_key_indices :: "nat list"

text \<open>
  \<open>ss_stream\<close> gives the rows that were sent before the stream ended and its result;
  \<open>ss_answers\<close> tells whether a commit or rollback started now is answered within
  \<open>TRANSACTION\_COMPLETION\_TIMEOUT\<close>.
\<close>

record 'db session_ops =
  ss_dialect :: dialect
  supports_transaction :: bool
  ss_identity :: "'db \<Rightarrow> endpoint_identity option"
  ss_cleanup_errors :: "'db \<Rightarrow> string list \<times> 'db"
  ss_open :: "connection_config \<Rightarrow> data_endpoint \<Rightarrow> ('db, unit) action"
  ss_begin_read :: "('db, unit) action"
  ss_begin_protected_write :: "string list \<Rightarrow> ('db, unit) action"
  ss_load_metadata :: "('db, metadata_snapshot) action"
  ss_stream :: "projection list \<Rightarrow> 'db \<Rightarrow> (canonical_row list \<times> nat result) \<times> 'db"
  ss_write_batch :: "write_batch \<Rightarrow> ('db, nat) action"
  ss_delete_all :: "string \<Rightarrow> ('db, nat) action"
  ss_maintain_generators :: "validated_table list \<Rightarrow> ('db, unit) action"
  ss_commit :: "('db, unit) action"
  ss_rollback :: "('db, unit) action"
  ss_answers :: "'db \<Rightarrow> bool"

subsection \<open>The state of an execution\<close>

record exec_progress =
  pr_last :: nat
  pr_status :: data_task_status
  pr_read :: nat
  pr_written :: nat
  pr_verified :: nat
  pr_bytes :: nat

text \<open>The updates are the calls of the progress callback so far.\<close>

record 'db exec_state =
  xs_res :: resources
  xs_source :: 'db
  xs_target :: 'db
  xs_updates :: "progress_update list"

record 'db exec_env =
  ee_plan :: plan_env
  ee_source :: "'db session_ops"
  ee_target :: "'db session_ops"
  ee_fingerprint :: "connection_config \<Rightarrow> string"
  ee_calendar :: calendar
  ee_canonicalize :: "string \<Rightarrow> string option"
  ee_value_size :: nat
  ee_same_file :: "string \<Rightarrow> string \<Rightarrow> bool option"

abbreviation ee_spool :: "'db exec_env \<Rightarrow> spool_env" where
  "ee_spool env \<equiv> pe_spool (ee_plan env)"

type_synonym ('db, 'a) exec_action = "('db exec_state, 'a) action"

definition on_res :: "'a task_action \<Rightarrow> ('db, 'a) exec_action" where
  "on_res m s = (case m (xs_res s) of (r, t) \<Rightarrow> (r, s\<lparr>xs_res := t\<rparr>))"

definition on_source :: "('db, 'a) action \<Rightarrow> ('db, 'a) exec_action" where
  "on_source m s = (case m (xs_source s) of (r, t) \<Rightarrow> (r, s\<lparr>xs_source := t\<rparr>))"

definition on_target :: "('db, 'a) action \<Rightarrow> ('db, 'a) exec_action" where
  "on_target m s = (case m (xs_target s) of (r, t) \<Rightarrow> (r, s\<lparr>xs_target := t\<rparr>))"

text \<open>An action that cannot fail.\<close>

definition sure :: "('s \<Rightarrow> 'a \<times> 's) \<Rightarrow> ('s, 'a) action" where
  "sure f s = (case f s of (x, t) \<Rightarrow> (Inr x, t))"

text \<open>An error that is looked at instead of being passed on.\<close>

definition attempt :: "('s, 'a) action \<Rightarrow> ('s, 'a result) action" where
  "attempt m s = (case m s of (r, t) \<Rightarrow> (Inr r, t))"

text \<open>Owned spools and leases that are given back when the code after them returns early.\<close>

definition or_release :: "('s \<Rightarrow> 's) \<Rightarrow> ('s, 'a) action \<Rightarrow> ('s, 'a) action" where
  "or_release release m s = (case m s of (Inl e, t) \<Rightarrow> (Inl e, release t) | (Inr x, t) \<Rightarrow> (Inr x, t))"

lemma or_release_Inr [run_simps]: "or_release f m st = (Inr x, t) \<longleftrightarrow> m st = (Inr x, t)"
  by (auto simp: or_release_def split: prod.splits sum.splits)

definition drop_all :: "spool_inner list \<Rightarrow> 'db exec_state \<Rightarrow> 'db exec_state" where
  "drop_all inners s = s\<lparr>xs_res := fold drop_spool inners (xs_res s)\<rparr>"

definition drop_bytes :: "nat \<Rightarrow> 'db exec_state \<Rightarrow> 'db exec_state" where
  "drop_bytes n s = s\<lparr>xs_res := drop_lease n (xs_res s)\<rparr>"

subsection \<open>Cancellation and errors\<close>

text \<open>One read of the cancellation flag.\<close>

definition cancelled :: "(resources, bool) action" where
  "cancelled st = (Inr (case stop_at st of None \<Rightarrow> False | Some n \<Rightarrow> n \<le> polls st), st\<lparr>polls := polls st + 1\<rparr>)"

definition checked :: "(resources, unit) action" where
  "checked = abind cancelled (\<lambda>c. aguard (\<not> c) ''cancelled: the task was cancelled'')"

definition error_codes :: "string list" where
  "error_codes = [''plan_stale'', ''cancelled'', ''invalid_mapping'', ''unsupported_capability'', ''resource_limit'',
     ''read_only_target'', ''same_physical_target'', ''validation_failed'', ''constraint_conflict'', ''plan_expired'',
     ''lock_timeout'', ''outcome_unknown'']"

definition exec_error :: "err \<Rightarrow> data_task_error" where
  "exec_error message =
     (let (code, body) = (case split_once '': '' message of Some p \<Rightarrow> p | None \<Rightarrow> (''database_error'', message))
      in task_error (if code \<in> set error_codes then code else ''database_error'') body)"

subsection \<open>Progress\<close>

definition new_progress :: "spool_env \<Rightarrow> (resources, exec_progress) action" where
  "new_progress env = aget (\<lambda>st. \<lparr>pr_last = clock env (io_calls st) - 1000, pr_status = Created, pr_read = 0,
     pr_written = 0, pr_verified = 0, pr_bytes = 0\<rparr>)"

definition update_of :: "exec_progress \<Rightarrow> progress_update" where
  "update_of p = \<lparr>up_status = pr_status p, up_read_rows = pr_read p, up_written_rows = pr_written p,
     up_verified_rows = pr_verified p, up_bytes = pr_bytes p\<rparr>"

text \<open>A panic of the callback is caught, so a report always returns.\<close>

definition emit :: "spool_env \<Rightarrow> data_task_status \<Rightarrow> bool \<Rightarrow> exec_progress \<Rightarrow> ('db, exec_progress) exec_action" where
  "emit env phase_now force p s =
     (let now = clock env (io_calls (xs_res s)) in
      if force \<or> phase_now \<noteq> pr_status p \<or> 200 \<le> now - pr_last p
      then (let p = p\<lparr>pr_status := phase_now, pr_last := now\<rparr> in (Inr p, s\<lparr>xs_updates := xs_updates s @ [update_of p]\<rparr>))
      else (Inr p, s))"

subsection \<open>Projections\<close>

definition projections :: "validated_mapping \<Rightarrow> bool \<Rightarrow> projection list" where
  "projections mapping source = map (\<lambda>m. \<lparr>pj_table = if source then vt_source m else vt_target m,
     pj_output = vt_target m, pj_columns = if source then vt_source_columns m else vt_target_columns m,
     pj_key_indices = key_indices m\<rparr>) (vm_tables mapping)"

definition full_projections :: "validated_mapping \<Rightarrow> metadata_snapshot \<Rightarrow> projection list result" where
  "full_projections mapping md = collect_results (\<lambda>m.
     rbind (ok_or ''plan_stale: the target table is gone'' (List.find (\<lambda>t. tab_name t = vt_target m) (md_tables md)))
       (\<lambda>t. Inr \<lparr>pj_table = tab_name t, pj_output = tab_name t, pj_columns = map col_name (tab_columns t),
          pj_key_indices = []\<rparr>)) (vm_tables mapping)"

definition projected_value :: "canonical_row \<Rightarrow> projection \<Rightarrow> string \<Rightarrow> data_value result" where
  "projected_value row full name =
     ok_or ''plan_stale: the target column is gone''
       (case position (\<lambda>c. c = name) (pj_columns full) of
          Some i \<Rightarrow> if i < length (row_values row) then Some (row_values row ! i) else None
        | None \<Rightarrow> None)"

definition key_value_at :: "data_value list \<Rightarrow> nat \<Rightarrow> data_value result" where
  "key_value_at values i = (if i < length values then Inr (values ! i) else Inl ''panic: index out of bounds'')"

definition projected_row :: "canonical_row \<Rightarrow> projection \<Rightarrow> projection \<Rightarrow> canonical_row result" where
  "projected_row row full projected =
     rbind (collect_results (projected_value row full) (pj_columns projected)) (\<lambda>values.
     rbind (collect_results (key_value_at values) (pj_key_indices projected)) (\<lambda>key.
       new_row (pj_output projected) key values))"

subsection \<open>Snapshots of a session\<close>

record snapshot_input =
  si_full :: "projection list"
  si_projected :: "projection list option"
  si_seed :: "spool_handle option"
  si_budget :: budget
  si_status :: data_task_status
  si_conversion :: "(metadata_snapshot \<times> metadata_snapshot \<times> validated_mapping) option"

definition seed_writer :: "spool_env \<Rightarrow> snapshot_input \<Rightarrow> spool_writer task_action" where
  "seed_writer env inp = (case si_seed inp of Some h \<Rightarrow> handle_writer env h | None \<Rightarrow> writer_new env (si_budget inp))"

definition converted_row :: "'db exec_env \<Rightarrow> snapshot_input \<Rightarrow> canonical_row \<Rightarrow> canonical_row result" where
  "converted_row env inp row = (case si_conversion inp of
     Some (source, target, mapping) \<Rightarrow> normalize_transfer_row (ee_calendar env) row source target mapping
   | None \<Rightarrow> Inr row)"

definition project_row :: "snapshot_input \<Rightarrow> projection list \<Rightarrow> canonical_row \<Rightarrow> canonical_row result" where
  "project_row inp ps row =
     rbind (ok_or ''the table of the snapshot has no index'' (position (\<lambda>p. pj_output p = row_table row) (si_full inp)))
       (\<lambda>i. if i < length ps then projected_row row (si_full inp ! i) (ps ! i) else Inl ''panic: index out of bounds'')"

definition writer_inners :: "spool_writer option \<Rightarrow> spool_inner list" where
  "writer_inners w = (case w of None \<Rightarrow> [] | Some w \<Rightarrow> [w_inner w])"

text \<open>
  The writing side of a snapshot, for one row. The row travels through a channel of one place, so
  the two sides alternate; the rows are taken here in the order they were sent.
\<close>

definition push_projected ::
    "'db exec_env \<Rightarrow> snapshot_input \<Rightarrow> spool_writer \<Rightarrow> canonical_row \<Rightarrow> spool_writer option
       \<Rightarrow> ('db, spool_writer option) exec_action" where
  "push_projected env inp w row pw = (case (si_projected inp, pw) of
     (Some ps, Some pw) \<Rightarrow>
       abind (or_release (drop_all [w_inner w, w_inner pw]) (alift (project_row inp ps row))) (\<lambda>prow.
       abind (or_release (drop_all [w_inner w, w_inner pw])
         (on_res (reserve_memory (si_budget inp) (mem_size (ee_spool env) prow)))) (\<lambda>lease.
       afinally (abind (or_release (drop_all [w_inner w]) (on_res (put (ee_spool env) prow pw))) (\<lambda>pw. areturn (Some pw)))
         (drop_bytes lease)))
   | _ \<Rightarrow> areturn pw)"

definition snapshot_row ::
    "'db exec_env \<Rightarrow> snapshot_input \<Rightarrow> canonical_row \<Rightarrow> spool_writer \<times> spool_writer option \<times> exec_progress
       \<Rightarrow> ('db, spool_writer \<times> spool_writer option \<times> exec_progress) exec_action" where
  "snapshot_row env inp sent st = (case st of (w, pw, p) \<Rightarrow>
     abind (or_release (drop_all (w_inner w # writer_inners pw)) (on_res checked)) (\<lambda>_.
     abind (or_release (drop_all (w_inner w # writer_inners pw)) (alift (converted_row env inp sent))) (\<lambda>row.
     abind (push_projected env inp w row pw) (\<lambda>pw.
     abind (or_release (drop_all (writer_inners pw)) (on_res (put (ee_spool env) row w))) (\<lambda>w.
     abind (emit (ee_spool env) (si_status inp) False
       (p\<lparr>pr_read := pr_read p + 1, pr_bytes := saturating_add (pr_bytes p) (row_encoded_size row)\<rparr>)) (\<lambda>p.
       areturn (w, pw, p)))))))"

fun snapshot_rows ::
    "'db exec_env \<Rightarrow> snapshot_input \<Rightarrow> canonical_row list \<Rightarrow> spool_writer \<times> spool_writer option \<times> exec_progress
       \<Rightarrow> ('db, spool_writer \<times> spool_writer option \<times> exec_progress) exec_action" where
  "snapshot_rows env inp [] st = areturn st"
| "snapshot_rows env inp (r # rs) st = abind (snapshot_row env inp r st) (snapshot_rows env inp rs)"

definition finish_projected ::
    "spool_env \<Rightarrow> spool_handle \<Rightarrow> spool_writer option \<Rightarrow> (spool_handle \<times> spool_handle option) task_action" where
  "finish_projected env h pw = (case pw of
     None \<Rightarrow> areturn (h, None)
   | Some w \<Rightarrow> abind (or_drop [h_inner h] (finish_writer env w)) (\<lambda>p. areturn (h, Some p)))"

definition snapshot_worker ::
    "'db exec_env \<Rightarrow> snapshot_input \<Rightarrow> exec_progress \<Rightarrow> canonical_row list
       \<Rightarrow> ('db, spool_handle \<times> spool_handle option) exec_action" where
  "snapshot_worker env inp base rows =
     abind (on_res (seed_writer (ee_spool env) inp)) (\<lambda>w.
     abind (or_release (drop_all [w_inner w]) (if si_projected inp = None then areturn None
       else abind (on_res (seed_writer (ee_spool env) inp)) (\<lambda>pw. areturn (Some pw)))) (\<lambda>pw.
     abind (on_res (new_progress (ee_spool env))) (\<lambda>p.
     abind (snapshot_rows env inp rows (w, pw, p\<lparr>pr_read := pr_read base, pr_written := pr_written base,
       pr_verified := pr_verified base, pr_bytes := pr_bytes base\<rparr>)) (\<lambda>(w, pw, _).
     abind (or_release (drop_all (writer_inners pw)) (on_res (finish_writer (ee_spool env) w))) (\<lambda>h.
       on_res (finish_projected (ee_spool env) h pw))))))"

definition handle_inners :: "spool_handle \<times> spool_handle option \<Rightarrow> spool_inner list" where
  "handle_inners out = (case out of (h, None) \<Rightarrow> [h_inner h] | (h, Some p) \<Rightarrow> [h_inner h, h_inner p])"

definition session_stream ::
    "'db exec_env \<Rightarrow> bool \<Rightarrow> projection list \<Rightarrow> ('db, canonical_row list \<times> nat result) exec_action" where
  "session_stream env from_source ps =
     (if from_source then on_source (sure (ss_stream (ee_source env) ps)) else on_target (sure (ss_stream (ee_target env) ps)))"

text \<open>The error of the writing side comes first, then the one of the session.\<close>

definition network_snapshot ::
    "'db exec_env \<Rightarrow> bool \<Rightarrow> snapshot_input \<Rightarrow> exec_progress
       \<Rightarrow> ('db, (spool_handle \<times> spool_handle option) \<times> exec_progress) exec_action" where
  "network_snapshot env from_source inp p =
     abind (session_stream env from_source (si_full inp)) (\<lambda>(rows, read).
     abind (snapshot_worker env inp p rows) (\<lambda>out.
     or_release (drop_all (handle_inners out)) (
       abind (alift read) (\<lambda>count.
       abind (on_res checked) (\<lambda>_.
         areturn (out, p\<lparr>pr_read := pr_read p + count,
           pr_bytes := saturating_add (pr_bytes p) (sp_bytes (h_inner (fst out)))\<rparr>))))))"

subsection \<open>Comparing sorted snapshots\<close>

function equal_loop :: "spool_env \<Rightarrow> spool_cursor \<Rightarrow> spool_cursor \<Rightarrow> bool task_action" where
  "equal_loop env a b st =
     abind checked (\<lambda>_.
     abind (next_row env a) (\<lambda>p.
     abind (next_row env b) (\<lambda>q st.
       case (fst p, fst q) of
         (None, None) \<Rightarrow> (Inr True, st)
       | (Some x, Some y) \<Rightarrow>
           abind (alift (rbind (row_canonical_bytes x) (\<lambda>u. rbind (row_canonical_bytes y) (\<lambda>v. Inr (u = v)))))
             (\<lambda>same st. if same then equal_loop env (snd p) (snd q) st else (Inr False, st)) st
       | _ \<Rightarrow> (Inr False, st)))) st"
  by pat_completeness auto

termination
  by (relation "measure (\<lambda>(env, a, b, st). length (c_rest a))") (auto dest!: next_row_Inr)

declare equal_loop.simps [simp del]

definition equal_sorted :: "spool_env \<Rightarrow> sorted_spool \<Rightarrow> sorted_spool \<Rightarrow> bool task_action" where
  "equal_sorted env left right =
     (if so_digest left \<noteq> so_digest right
         \<or> sp_rows (h_inner (so_spool left)) \<noteq> sp_rows (h_inner (so_spool right))
      then areturn False
      else abind (open_cursor env (so_spool left)) (\<lambda>a. abind (open_cursor env (so_spool right)) (\<lambda>b. equal_loop env a b)))"

definition sort_compare :: "spool_env \<Rightarrow> spool_handle \<Rightarrow> sorted_spool \<Rightarrow> (bool \<times> nat) task_action" where
  "sort_compare env taken expected =
     afinally (abind (external_sort env taken) (\<lambda>sorted.
       afinally (abind (equal_sorted env sorted expected) (\<lambda>same. areturn (same, sp_rows (h_inner taken))))
         (drop_spool (h_inner (so_spool sorted))))) (drop_spool (h_inner taken))"

text \<open>For evaluation, see \<open>Actions\<close>.\<close>

declare or_release_def [code_unfold] attempt_def [code_unfold] on_res_def [code_unfold] on_source_def [code_unfold] on_target_def [code_unfold] sure_def [code_unfold]

lemmas session_run [code] = checked_def [THEN fun_cong] new_progress_def [THEN fun_cong]
  seed_writer_def [THEN fun_cong] push_projected_def [THEN fun_cong] snapshot_row_def [THEN fun_cong]
  snapshot_rows.simps [THEN fun_cong] finish_projected_def [THEN fun_cong] snapshot_worker_def [THEN fun_cong]
  session_stream_def [THEN fun_cong] network_snapshot_def [THEN fun_cong] equal_sorted_def [THEN fun_cong]
  sort_compare_def [THEN fun_cong]

end
