(* ===== verification/Batch_Reader.thy ===== *)
theory Batch_Reader
  imports Session
begin

text \<open>
  Reading the operations of a plan in batches (\<open>BatchReader\<close>, \<open>write\_network\_kind\<close> of
  \<open>src-tauri/src/db/data\_tasks/executor.rs\<close>).
\<close>

subsection \<open>The memory of bound parameters\<close>

definition value_memory :: "nat \<Rightarrow> data_value \<Rightarrow> nat" where
  "value_memory value_size v = saturating_add value_size (encoded_size v)"

definition key_memory :: "nat \<Rightarrow> data_value list \<Rightarrow> nat list \<Rightarrow> nat result" where
  "key_memory value_size row keys =
     rbind (collect_results (\<lambda>i. if i < length row then Inr (value_memory value_size (row ! i))
       else Inl ''panic: index out of bounds'') keys) (\<lambda>ns. Inr (sum_list ns))"

definition parameter_memory ::
    "nat \<Rightarrow> data_value list \<Rightarrow> validated_table \<Rightarrow> data_diff_operation \<Rightarrow> nat result" where
  "parameter_memory value_size row mapping kind =
     rbind (key_memory value_size row (key_indices mapping)) (\<lambda>keys.
       Inr (case kind of
         DiffInsert \<Rightarrow> sum_list (map (value_memory value_size) row)
       | DiffDelete \<Rightarrow> keys
       | DiffUpdate \<Rightarrow> saturating_add
           (sum_list (map (\<lambda>(i, v). saturating_add keys (value_memory value_size v))
             (filter (\<lambda>(i, v). i \<notin> set (key_indices mapping)) (enumerate 0 row)))) keys
       | DiffRetain \<Rightarrow> 0))"

subsection \<open>The reader\<close>

record prepared_batch =
  pb_batch :: write_batch
  pb_rows :: nat
  pb_memory :: nat

record batch_reader =
  br_kind :: data_diff_operation
  br_index :: nat
  br_cursor :: "spool_cursor option"
  br_pending :: "(canonical_row \<times> nat) option"

definition new_reader :: "data_diff_operation \<Rightarrow> batch_reader" where
  "new_reader kind = \<lparr>br_kind = kind, br_index = 0, br_cursor = None, br_pending = None\<rparr>"

definition pending_bytes :: "(canonical_row \<times> nat) option \<Rightarrow> nat" where
  "pending_bytes p = (case p of None \<Rightarrow> 0 | Some (_, n) \<Rightarrow> n)"

text \<open>The next row of the kind and the table, the old one for a deletion.\<close>

function next_data ::
    "spool_env \<Rightarrow> data_diff_operation \<Rightarrow> string \<Rightarrow> spool_cursor \<Rightarrow> (canonical_row option \<times> spool_cursor) task_action" where
  "next_data env kind table c st =
     abind (next_row env c) (\<lambda>(row, c) st.
       case row of
         None \<Rightarrow> (Inr (None, c), st)
       | Some r \<Rightarrow>
           if row_table r \<noteq> table then next_data env kind table c st
           else abind (alift (operation_from_row r)) (\<lambda>oper st.
             if op_kind oper \<noteq> kind then next_data env kind table c st
             else (Inr (if kind = DiffDelete then op_old oper else op_new oper, c), st)) st) st"
  by pat_completeness auto

termination
  by (relation "measure (\<lambda>(env, kind, table, c, st). length (c_rest c))") (auto dest!: next_row_Inr)

declare next_data.simps [simp del]

text \<open>What stays fixed while a batch of one table is filled.\<close>

record batch_limits =
  bl_env :: spool_env
  bl_value_size :: nat
  bl_kind :: data_diff_operation
  bl_mapping :: validated_table
  bl_rows :: nat
  bl_multiplier :: nat
  bl_budget :: budget

definition BATCH_BYTES :: nat where
  "BATCH_BYTES = 4 * 1024 * 1024"

definition or_free :: "nat \<Rightarrow> 'a task_action \<Rightarrow> 'a task_action" where
  "or_free n m st = (case m st of (Inl e, t) \<Rightarrow> (Inl e, drop_lease n t) | (Inr x, t) \<Rightarrow> (Inr x, t))"

lemma or_free_Inr [run_simps]: "or_free n m st = (Inr x, t) \<longleftrightarrow> m st = (Inr x, t)"
  by (auto simp: or_free_def split: prod.splits sum.splits)

text \<open>The pending row first, then the cursor; \<open>fetched\<close> is the row and its lease, if it has one.\<close>

definition fetch_data ::
    "batch_limits \<Rightarrow> spool_cursor \<Rightarrow> (canonical_row \<times> nat) option
       \<Rightarrow> (canonical_row option \<times> nat option \<times> spool_cursor) task_action" where
  "fetch_data bl c pending = (case pending of
     Some (row, lease) \<Rightarrow> areturn (Some row, Some lease, c)
   | None \<Rightarrow> abind (next_data (bl_env bl) (bl_kind bl) (vt_target (bl_mapping bl)) c) (\<lambda>(row, c). areturn (row, None, c)))"

definition row_lease :: "batch_limits \<Rightarrow> canonical_row \<Rightarrow> nat option \<Rightarrow> nat task_action" where
  "row_lease bl row lease = (case lease of
     Some n \<Rightarrow> areturn n
   | None \<Rightarrow> reserve_memory (bl_budget bl) (mem_size (bl_env bl) row))"

record batch_fill =
  bf_rows :: "data_value list list"
  bf_leases :: nat
  bf_bytes :: nat

definition fill_add :: "canonical_row \<Rightarrow> nat \<Rightarrow> nat \<Rightarrow> batch_fill \<Rightarrow> batch_fill" where
  "fill_add row lease n bf = \<lparr>bf_rows = bf_rows bf @ [row_values row], bf_leases = bf_leases bf + lease,
     bf_bytes = bf_bytes bf + n\<rparr>"

definition fill_full :: "batch_limits \<Rightarrow> batch_fill \<Rightarrow> nat \<Rightarrow> bool" where
  "fill_full bl bf n \<longleftrightarrow> bf_rows bf \<noteq> []
     \<and> (bl_rows bl \<le> length (bf_rows bf) \<or> BATCH_BYTES < saturating_add (bf_bytes bf) n)"

text \<open>One row of the loop: nothing left, the batch is full, or the row was added.\<close>

datatype fill_step =
    FillEnd spool_cursor
  | FillFull spool_cursor canonical_row nat
  | FillAdded spool_cursor batch_fill

definition fill_once ::
    "batch_limits \<Rightarrow> spool_cursor \<Rightarrow> (canonical_row \<times> nat) option \<Rightarrow> batch_fill \<Rightarrow> fill_step task_action" where
  "fill_once bl c pending bf =
     or_free (bf_leases bf + pending_bytes pending) (
       abind checked (\<lambda>_.
       abind (fetch_data bl c pending) (\<lambda>f.
       case fst f of
         None \<Rightarrow> areturn (FillEnd (snd (snd f)))
       | Some row \<Rightarrow>
           abind (alift (parameter_memory (bl_value_size bl) (row_values row) (bl_mapping bl) (bl_kind bl))) (\<lambda>n.
           if fill_full bl bf n
           then abind (row_lease bl row (fst (snd f))) (\<lambda>m. areturn (FillFull (snd (snd f)) row m))
           else
             abind (aguard (saturating_mul n (bl_multiplier bl) \<le> memory_bytes (bl_budget bl) div 2)
               ''resource_limit: the parameters of one row exceed the memory budget'') (\<lambda>_.
             abind (row_lease bl row (fst (snd f))) (\<lambda>m. areturn (FillAdded (snd (snd f)) (fill_add row m n bf))))))))"

lemma next_data_cases:
  assumes "next_data env kind table c st = (Inr (row, c'), t)"
  obtains d u where "next_row env c st = (Inr (None, d), u)" "row = None" "c' = d" "t = u"
  | r d u oper where "next_row env c st = (Inr (Some r, d), u)" "row_table r = table"
      "operation_from_row r = Inr oper" "op_kind oper = kind"
      "row = (if kind = DiffDelete then op_old oper else op_new oper)" "c' = d" "t = u"
  | r d u where "next_row env c st = (Inr (Some r, d), u)"
      "row_table r = table \<Longrightarrow> \<exists>oper. operation_from_row r = Inr oper \<and> op_kind oper \<noteq> kind"
      "next_data env kind table d u = (Inr (row, c'), t)"
proof -
  obtain r d u where n: "next_row env c st = (Inr (r, d), u)"
    using assms by (subst (asm) next_data.simps) (auto simp: run_simps)
  show thesis
  proof (cases r)
    case None
    then show thesis using that(1) [of d u] n assms by (subst (asm) next_data.simps) (auto simp: run_simps)
  next
    case (Some q)
    show thesis
    proof (cases "row_table q = table")
      case False
      then show thesis using that(3) [of q d u] n Some assms by (subst (asm) next_data.simps) (auto simp: run_simps)
    next
      case True
      then obtain oper where o: "operation_from_row q = Inr oper"
        using n Some assms by (subst (asm) next_data.simps) (auto simp: run_simps)
      show thesis
      proof (cases "op_kind oper = kind")
        case False
        then show thesis using that(3) [of q d u] o n Some True assms
          by (subst (asm) next_data.simps) (auto simp: run_simps)
      next
        case match: True
        then show thesis using that(2) [of q d u oper] o n Some True assms
          by (subst (asm) next_data.simps) (auto simp: run_simps)
      qed
    qed
  qed
qed

lemma next_row_shorter: "next_row env c st = (Inr (Some r, d), u) \<Longrightarrow> length (c_rest d) + 2 \<le> length (c_rest c)"
  by (auto dest!: next_row_Inr)

lemma next_data_rest:
  "next_data env kind table c st = (Inr (row, c'), t) \<Longrightarrow>
     length (c_rest c') + (case row of None \<Rightarrow> 0 | Some _ \<Rightarrow> 2) \<le> length (c_rest c)"
proof (induction "length (c_rest c)" arbitrary: c st rule: less_induct)
  case less
  from less.prems show ?case
  proof (cases rule: next_data_cases)
    case (1 d u)
    then show ?thesis by (auto dest!: next_row_Inr)
  next
    case (2 r d u oper)
    then show ?thesis using next_row_shorter [OF 2(1)] by (auto split: option.splits)
  next
    case (3 r d u)
    then show ?thesis using next_row_shorter [OF 3(1)] less.hyps [OF _ 3(3)] by simp
  qed
qed

definition unread :: "spool_cursor \<Rightarrow> (canonical_row \<times> nat) option \<Rightarrow> nat" where
  "unread c pending = length (c_rest c) + (if pending = None then 0 else 1)"

lemma fetch_data_rest:
  assumes "fetch_data bl c pending st = (Inr f, t)"
  shows "case fst f of None \<Rightarrow> length (c_rest (snd (snd f))) \<le> unread c pending
    | Some row \<Rightarrow> length (c_rest (snd (snd f))) + 1 \<le> unread c pending
      \<and> (pending = None \<longrightarrow> length (c_rest (snd (snd f))) + 2 \<le> unread c pending)"
  using assms next_data_rest [of "bl_env bl" "bl_kind bl" "vt_target (bl_mapping bl)" c st]
  by (force simp: fetch_data_def unread_def run_simps split: option.splits prod.splits)

lemma fill_once_rest:
  assumes "fill_once bl c pending bf st = (Inr step, t)"
  shows "case step of FillEnd c' \<Rightarrow> length (c_rest c') \<le> unread c pending
    | FillFull c' row m \<Rightarrow> unread c' (Some (row, m)) \<le> unread c pending \<and> bf_rows bf \<noteq> []
    | FillAdded c' bf' \<Rightarrow> unread c' None < unread c pending"
proof -
  obtain f u v where f: "fetch_data bl c pending u = (Inr f, v)"
    using assms by (auto simp: fill_once_def run_simps)
  show ?thesis
    using assms fetch_data_rest
    by (force simp: fill_once_def run_simps unread_def fill_full_def split: option.splits if_splits)
qed

function fill_batch ::
    "batch_limits \<Rightarrow> spool_cursor \<Rightarrow> (canonical_row \<times> nat) option \<Rightarrow> batch_fill
       \<Rightarrow> (batch_fill \<times> spool_cursor \<times> (canonical_row \<times> nat) option) task_action" where
  "fill_batch bl c pending bf st =
     abind (fill_once bl c pending bf) (\<lambda>step st.
       case step of
         FillEnd c \<Rightarrow> (Inr (bf, c, None), st)
       | FillFull c row m \<Rightarrow> (Inr (bf, c, Some (row, m)), st)
       | FillAdded c bf \<Rightarrow> fill_batch bl c None bf st) st"
  by pat_completeness auto

termination
  by (relation "measure (\<lambda>(bl, c, pending, bf, st). unread c pending)") (auto dest!: fill_once_rest)

declare fill_batch.simps [simp del]

subsection \<open>Batches of all tables\<close>

definition batch_order :: "validated_mapping \<Rightarrow> data_diff_operation \<Rightarrow> string list" where
  "batch_order mapping kind = (if kind = DiffDelete then delete_order mapping else insert_order mapping)"

definition encoded_multiplier :: "dialect \<Rightarrow> nat" where
  "encoded_multiplier d = (if d = DClickHouse then 8 else 2)"

text \<open>The limits for one table; a table whose rows bind no parameters has none.\<close>

definition table_limits ::
    "spool_env \<Rightarrow> nat \<Rightarrow> stored_plan \<Rightarrow> dialect \<Rightarrow> data_diff_operation \<Rightarrow> string \<Rightarrow> batch_limits option result" where
  "table_limits env value_size plan d kind table =
     rbind (ok_or ''no such table in the differences''
       (List.find (\<lambda>m. vt_target m = table) (vm_tables (sp_mapping plan)))) (\<lambda>mapping.
     let parameters = parameters_per_row (length (vt_target_columns mapping)) (length (key_indices mapping)) kind in
     if parameters = 0 then Inr None
     else if min 500 (parameter_limit d div parameters) = 0
     then Inl ''resource_limit: the parameters of one row exceed the budget of the database''
     else Inr (Some \<lparr>bl_env = env, bl_value_size = value_size, bl_kind = kind, bl_mapping = mapping,
       bl_rows = min 500 (parameter_limit d div parameters), bl_multiplier = encoded_multiplier d,
       bl_budget = sp_budget (h_inner (sp_operations plan))\<rparr>))"

definition no_fill :: batch_fill where
  "no_fill = \<lparr>bf_rows = [], bf_leases = 0, bf_bytes = 0\<rparr>"

definition fill_table ::
    "batch_limits \<Rightarrow> stored_plan \<Rightarrow> batch_reader
       \<Rightarrow> (batch_fill \<times> spool_cursor \<times> (canonical_row \<times> nat) option) task_action" where
  "fill_table bl plan reader =
     abind (case br_cursor reader of Some c \<Rightarrow> areturn c | None \<Rightarrow> open_cursor (bl_env bl) (sp_operations plan)) (\<lambda>c.
       fill_batch bl c (br_pending reader) no_fill)"

text \<open>The leases of the rows are given back when the batch is built, its own lease goes with it.\<close>

definition prepare_batch ::
    "batch_limits \<Rightarrow> dialect \<Rightarrow> string \<Rightarrow> batch_fill \<Rightarrow> nat \<Rightarrow> prepared_batch task_action" where
  "prepare_batch bl d schema bf pending =
     abind (or_free (bf_leases bf + pending) (reserve_memory (bl_budget bl)
       (saturating_add (saturating_mul (bf_bytes bf) (bl_multiplier bl)) (1024 * 1024)))) (\<lambda>memory.
     abind (or_free (memory + bf_leases bf + pending) (alift (build_batch d schema (vt_target (bl_mapping bl))
       (vt_target_columns (bl_mapping bl)) (key_indices (bl_mapping bl)) (bl_kind bl) (bf_rows bf)))) (\<lambda>batch.
     abind (amodify (drop_lease (bf_leases bf))) (\<lambda>_.
       areturn \<lparr>pb_batch = batch, pb_rows = length (bf_rows bf), pb_memory = memory\<rparr>)))"

function next_batch ::
    "spool_env \<Rightarrow> nat \<Rightarrow> stored_plan \<Rightarrow> dialect \<Rightarrow> string \<Rightarrow> batch_reader
       \<Rightarrow> (prepared_batch option \<times> batch_reader) task_action" where
  "next_batch env value_size plan d schema reader st =
     (if length (batch_order (sp_mapping plan) (br_kind reader)) \<le> br_index reader then (Inr (None, reader), st)
      else
        abind (alift (table_limits env value_size plan d (br_kind reader)
            (batch_order (sp_mapping plan) (br_kind reader) ! br_index reader))) (\<lambda>limits st.
          case limits of
            None \<Rightarrow> next_batch env value_size plan d schema (reader\<lparr>br_index := br_index reader + 1\<rparr>) st
          | Some bl \<Rightarrow>
              abind (fill_table bl plan reader) (\<lambda>f st.
                if bf_rows (fst f) = []
                then next_batch env value_size plan d schema
                  (reader\<lparr>br_index := br_index reader + 1, br_cursor := None, br_pending := None\<rparr>) st
                else abind (prepare_batch bl d schema (fst f) (pending_bytes (snd (snd f)))) (\<lambda>b.
                  areturn (Some b, reader\<lparr>br_cursor := Some (fst (snd f)), br_pending := snd (snd f)\<rparr>)) st) st) st)"
  by pat_completeness auto

termination
  by (relation "measure (\<lambda>(env, value_size, plan, d, schema, reader, st).
      length (batch_order (sp_mapping plan) (br_kind reader)) - br_index reader)") auto

declare next_batch.simps [simp del]

lemma fill_batch_rest:
  "fill_batch bl c pending bf st = (Inr (bf', c', p'), t) \<Longrightarrow>
     unread c' p' \<le> unread c pending \<and> (bf_rows bf = [] \<and> bf_rows bf' \<noteq> [] \<longrightarrow> unread c' p' < unread c pending)"
proof (induction bl c pending bf st rule: fill_batch.induct)
  case (1 bl c pending bf st)
  obtain step u where f: "fill_once bl c pending bf st = (Inr step, u)"
    using "1.prems" by (subst (asm) fill_batch.simps) (auto simp: run_simps)
  note rest = fill_once_rest [OF f]
  show ?case
  proof (cases step)
    case (FillEnd d)
    then show ?thesis using "1.prems" f rest by (subst (asm) fill_batch.simps) (auto simp: run_simps unread_def)
  next
    case (FillFull d row m)
    then show ?thesis using "1.prems" f rest by (subst (asm) fill_batch.simps) (auto simp: run_simps)
  next
    case (FillAdded d bf2)
    then have "fill_batch bl d None bf2 u = (Inr (bf', c', p'), t)"
      using "1.prems" f by (subst (asm) fill_batch.simps) (auto simp: run_simps)
    from "1.IH" [OF f FillAdded this] show ?thesis using rest FillAdded by auto
  qed
qed

definition cursor_left :: "stored_plan \<Rightarrow> batch_reader \<Rightarrow> nat" where
  "cursor_left plan reader = (case br_cursor reader of
     None \<Rightarrow> length (h_file (sp_operations plan)) + 2 | Some c \<Rightarrow> unread c (br_pending reader))"

definition tables_left :: "stored_plan \<Rightarrow> batch_reader \<Rightarrow> nat" where
  "tables_left plan reader = length (batch_order (sp_mapping plan) (br_kind reader)) - br_index reader"

lemma fill_table_rest:
  assumes "fill_table bl plan reader st = (Inr (bf, c, p), t)" and "bf_rows bf \<noteq> []"
  shows "unread c p < cursor_left plan reader"
proof (cases "br_cursor reader")
  case None
  then obtain d u where "open_cursor (bl_env bl) (sp_operations plan) st = (Inr d, u)"
    "fill_batch bl d (br_pending reader) no_fill u = (Inr (bf, c, p), t)"
    using assms(1) by (auto simp: fill_table_def run_simps)
  then show ?thesis
    using None fill_batch_rest [of bl d "br_pending reader" no_fill u bf c p t] assms(2)
    by (auto simp: cursor_left_def no_fill_def unread_def dest!: open_cursor_Inr split: if_splits)
next
  case (Some d)
  then have "fill_batch bl d (br_pending reader) no_fill st = (Inr (bf, c, p), t)"
    using assms(1) by (auto simp: fill_table_def run_simps)
  then show ?thesis
    using Some fill_batch_rest [of bl d "br_pending reader" no_fill st bf c p t] assms(2)
    by (auto simp: cursor_left_def no_fill_def)
qed

text \<open>A run of the reader, table by table.\<close>

lemma next_batch_cases:
  assumes "next_batch env value_size plan d schema reader st = (Inr x, t)"
  obtains (ended) "length (batch_order (sp_mapping plan) (br_kind reader)) \<le> br_index reader" "x = (None, reader)" "t = st"
  | (skipped) "br_index reader < length (batch_order (sp_mapping plan) (br_kind reader))"
      "table_limits env value_size plan d (br_kind reader)
        (batch_order (sp_mapping plan) (br_kind reader) ! br_index reader) = Inr None"
      "next_batch env value_size plan d schema (reader\<lparr>br_index := br_index reader + 1\<rparr>) st = (Inr x, t)"
  | (exhausted) bl bf c p u where "br_index reader < length (batch_order (sp_mapping plan) (br_kind reader))"
      "table_limits env value_size plan d (br_kind reader)
        (batch_order (sp_mapping plan) (br_kind reader) ! br_index reader) = Inr (Some bl)"
      "fill_table bl plan reader st = (Inr (bf, c, p), u)" "bf_rows bf = []"
      "next_batch env value_size plan d schema
        (reader\<lparr>br_index := br_index reader + 1, br_cursor := None, br_pending := None\<rparr>) u = (Inr x, t)"
  | (filled) bl bf c p u b where "br_index reader < length (batch_order (sp_mapping plan) (br_kind reader))"
      "table_limits env value_size plan d (br_kind reader)
        (batch_order (sp_mapping plan) (br_kind reader) ! br_index reader) = Inr (Some bl)"
      "fill_table bl plan reader st = (Inr (bf, c, p), u)" "bf_rows bf \<noteq> []"
      "prepare_batch bl d schema bf (pending_bytes p) u = (Inr b, t)"
      "x = (Some b, reader\<lparr>br_cursor := Some c, br_pending := p\<rparr>)"
proof (cases "length (batch_order (sp_mapping plan) (br_kind reader)) \<le> br_index reader")
  case True
  then show thesis using that(1) assms by (subst (asm) next_batch.simps) auto
next
  case False
  then obtain limits where l: "table_limits env value_size plan d (br_kind reader)
      (batch_order (sp_mapping plan) (br_kind reader) ! br_index reader) = Inr limits"
    using assms by (subst (asm) next_batch.simps) (auto simp: run_simps)
  show thesis
  proof (cases limits)
    case None
    then show thesis using that(2) False l assms by (subst (asm) next_batch.simps) (auto simp: run_simps)
  next
    case (Some bl)
    then obtain bf c p u where f: "fill_table bl plan reader st = (Inr (bf, c, p), u)"
      using False l assms by (subst (asm) next_batch.simps) (auto simp: run_simps)
    show thesis
    proof (cases "bf_rows bf = []")
      case True
      then show thesis using that(3) False l Some f assms by (subst (asm) next_batch.simps) (auto simp: run_simps)
    next
      case ne: False
      then show thesis using that(4) False l Some f assms by (subst (asm) next_batch.simps) (auto simp: run_simps)
    qed
  qed
qed

text \<open>Each batch brings the reader closer to the end.\<close>

lemma next_batch_progress:
  "next_batch env value_size plan d schema reader st = (Inr (Some b, reader'), t) \<Longrightarrow>
     br_kind reader' = br_kind reader
   \<and> (tables_left plan reader' < tables_left plan reader
      \<or> tables_left plan reader' = tables_left plan reader \<and> cursor_left plan reader' < cursor_left plan reader)"
proof (induction "tables_left plan reader" arbitrary: reader st rule: less_induct)
  case less
  from less.prems show ?case
  proof (cases rule: next_batch_cases)
    case skipped
    have "tables_left plan (reader\<lparr>br_index := br_index reader + 1\<rparr>) < tables_left plan reader"
      using skipped(1) by (simp add: tables_left_def)
    from less.hyps [OF this skipped(3)] this show ?thesis by auto
  next
    case (exhausted bl bf c p u)
    have "tables_left plan (reader\<lparr>br_index := br_index reader + 1, br_cursor := None, br_pending := None\<rparr>)
        < tables_left plan reader"
      using exhausted(1) by (simp add: tables_left_def)
    from less.hyps [OF this exhausted(5)] this show ?thesis by auto
  next
    case (filled bl bf c p u b)
    then show ?thesis
      using fill_table_rest [OF filled(3,4)] by (auto simp: tables_left_def cursor_left_def)
  qed simp
qed

subsection \<open>Writing the batches\<close>

definition send_batch :: "'db exec_env \<Rightarrow> prepared_batch \<Rightarrow> exec_progress \<Rightarrow> ('db, exec_progress) exec_action" where
  "send_batch env b p =
     afinally (
       abind (on_res checked) (\<lambda>_.
       abind (on_target (ss_write_batch (ee_target env) (pb_batch b))) (\<lambda>affected.
       abind (aguard (affected = pb_rows b) ''validation_failed: the number of written rows differs from the plan'') (\<lambda>_.
       abind (emit (ee_spool env) Executing False (p\<lparr>pr_written := pr_written p + affected\<rparr>)) (\<lambda>p.
       abind (on_res checked) (\<lambda>_. areturn p))))))
     (drop_bytes (pb_memory b))"

lemma on_res_Inr [run_simps]:
  "on_res m s = (Inr x, t) \<longleftrightarrow> (\<exists>u. m (xs_res s) = (Inr x, u) \<and> t = s\<lparr>xs_res := u\<rparr>)"
  by (auto simp: on_res_def split: prod.splits)

function write_loop ::
    "'db exec_env \<Rightarrow> stored_plan \<Rightarrow> batch_reader \<Rightarrow> exec_progress \<Rightarrow> ('db, exec_progress) exec_action" where
  "write_loop env plan reader p s =
     abind (on_res (next_batch (ee_spool env) (ee_value_size env) plan (ss_dialect (ee_target env))
         (ep_database (req_target (sp_request plan))) reader)) (\<lambda>x s.
       case fst x of
         None \<Rightarrow> (Inr p, s)
       | Some b \<Rightarrow>
           abind (or_release (drop_bytes (pending_bytes (br_pending (snd x)))) (send_batch env b p))
             (\<lambda>p s. write_loop env plan (snd x) p s) s) s"
  by pat_completeness auto

termination
  by (relation "(\<lambda>(env, plan, reader, p, s). tables_left plan reader) <*mlex*>
      (\<lambda>(env, plan, reader, p, s). cursor_left plan reader) <*mlex*> {}")
    (auto simp: wf_mlex mlex_iff run_simps dest!: next_batch_progress)

declare write_loop.simps [simp del]

definition write_network_kind ::
    "'db exec_env \<Rightarrow> stored_plan \<Rightarrow> data_diff_operation \<Rightarrow> exec_progress \<Rightarrow> ('db, exec_progress) exec_action" where
  "write_network_kind env plan kind p = write_loop env plan (new_reader kind) p"

text \<open>For evaluation, see \<open>Actions\<close>.\<close>

lemmas batch_reader_run [code] = fetch_data_def [THEN fun_cong] row_lease_def [THEN fun_cong]
  fill_once_def [THEN fun_cong] fill_table_def [THEN fun_cong] prepare_batch_def [THEN fun_cong]
  send_batch_def [THEN fun_cong] write_network_kind_def [THEN fun_cong]

end
