(* ===== verification/Batch_Content.thy ===== *)
theory Batch_Content
  imports Batch_Reader
begin

text \<open>
  What the batches of a kind contain (\<open>BatchReader\<close> of \<open>src-tauri/src/db/data\_tasks/executor.rs\<close>, modelled
  in \<open>Batch\_Reader\<close>): the operations of the plan that are of the kind, table by table in the order of
  the plan, none left out and none twice, however the row and memory limits cut them.
\<close>

subsection \<open>What the batches contain\<close>

text \<open>The row of an operation that a batch of the kind and the table takes.\<close>

definition data_of :: "data_diff_operation \<Rightarrow> string \<Rightarrow> canonical_row \<Rightarrow> canonical_row option" where
  "data_of kind table r = (if row_table r \<noteq> table then None else
     case operation_from_row r of
       Inl _ \<Rightarrow> None
     | Inr oper \<Rightarrow> if op_kind oper \<noteq> kind then None else if kind = DiffDelete then op_old oper else op_new oper)"

definition table_data :: "data_diff_operation \<Rightarrow> string \<Rightarrow> canonical_row list \<Rightarrow> canonical_row list" where
  "table_data kind table ops = List.map_filter (data_of kind table) ops"

lemma table_data_simps [simp]:
  "table_data kind table [] = []"
  "table_data kind table (r # ops) = (case data_of kind table r of None \<Rightarrow> [] | Some d \<Rightarrow> [d]) @ table_data kind table ops"
  by (simp_all add: table_data_def List.map_filter_def split: option.splits)

lemma operation_data:
  assumes "operation_from_row r = Inr oper" and "kind \<noteq> DiffRetain" and "op_kind oper = kind"
  shows "(if kind = DiffDelete then op_old oper else op_new oper) \<noteq> None"
proof -
  obtain k payload where "oper = (case k of
      DiffInsert \<Rightarrow> \<lparr>op_kind = k, op_old = None, op_new = Some payload\<rparr>
    | DiffUpdate \<Rightarrow> \<lparr>op_kind = k, op_old = Some (payload\<lparr>row_values := []\<rparr>), op_new = Some payload\<rparr>
    | _ \<Rightarrow> \<lparr>op_kind = k, op_old = Some payload, op_new = None\<rparr>)"
    using assms(1) unfolding operation_from_row_def Let_def rbind_eq_Inr by (auto split: if_splits)
  then show ?thesis using assms(2,3) by (cases k) auto
qed

lemma next_data_spec:
  "kind \<noteq> DiffRetain \<Longrightarrow> delivers env c xs \<Longrightarrow> next_data env kind table c st = (Inr (row, c'), t) \<Longrightarrow>
     case row of
       None \<Rightarrow> table_data kind table xs = [] \<and> delivers env c' []
     | Some d \<Rightarrow> \<exists>xs'. delivers env c' xs' \<and> table_data kind table xs = d # table_data kind table xs'"
proof (induction xs arbitrary: c st)
  case Nil
  from Nil(3) show ?case
  proof (cases rule: next_data_cases)
    case (1 d u)
    then have "c' = c" using next_row_Inr [OF 1(1)] by simp
    then show ?thesis using 1 Nil(2) by simp
  next
    case (2 r d u oper)
    then show ?thesis using next_row_delivers [OF Nil(2) 2(1)] by simp
  next
    case (3 r d u)
    then show ?thesis using next_row_delivers [OF Nil(2) 3(1)] by simp
  qed
next
  case (Cons x xs)
  from Cons.prems(3) show ?case
  proof (cases rule: next_data_cases)
    case (1 d u)
    then show ?thesis using next_row_delivers [OF Cons.prems(2) 1(1)] by simp
  next
    case (2 r d u oper)
    have x: "r = x" "delivers env d xs" using next_row_delivers [OF Cons.prems(2) 2(1)] by simp_all
    have "data_of kind table x = row" using 2 x by (simp add: data_of_def)
    then show ?thesis using operation_data [OF 2(3) Cons.prems(1) 2(4)] 2(5,6) x(2) by (auto split: option.splits)
  next
    case (3 r d u)
    have x: "r = x" "delivers env d xs" using next_row_delivers [OF Cons.prems(2) 3(1)] by simp_all
    have "data_of kind table x = None" using 3(2) x(1) by (auto simp: data_of_def)
    then show ?thesis using Cons.IH [OF Cons.prems(1) x(2) 3(3)] by (cases row) simp_all
  qed
qed

text \<open>What is still to be read of the current table.\<close>

definition still :: "batch_limits \<Rightarrow> (canonical_row \<times> nat) option \<Rightarrow> canonical_row list \<Rightarrow> canonical_row list" where
  "still bl pending xs = (case pending of None \<Rightarrow> [] | Some (r, _) \<Rightarrow> [r]) @ table_data (bl_kind bl) (vt_target (bl_mapping bl)) xs"

lemma fetch_data_spec:
  assumes "bl_kind bl \<noteq> DiffRetain" and "delivers (bl_env bl) c xs" and "fetch_data bl c pending st = (Inr f, t)"
  shows "case fst f of
      None \<Rightarrow> still bl pending xs = [] \<and> delivers (bl_env bl) (snd (snd f)) []
    | Some d \<Rightarrow> \<exists>xs'. delivers (bl_env bl) (snd (snd f)) xs' \<and> still bl pending xs = d # still bl None xs'"
proof (cases pending)
  case None
  then obtain row c' where f: "next_data (bl_env bl) (bl_kind bl) (vt_target (bl_mapping bl)) c st = (Inr (row, c'), t)"
    "f = (row, None, c')"
    using assms(3) by (auto simp: fetch_data_def run_simps)
  show ?thesis using next_data_spec [OF assms(1,2) f(1)] f(2) None by (simp add: still_def split: option.splits)
next
  case (Some p)
  then show ?thesis using assms(2,3) by (cases p) (auto simp: fetch_data_def still_def run_simps)
qed

lemma fill_once_spec:
  assumes "bl_kind bl \<noteq> DiffRetain" and "delivers (bl_env bl) c xs" and "fill_once bl c pending bf st = (Inr step, t)"
  shows "case step of
      FillEnd c' \<Rightarrow> still bl pending xs = [] \<and> delivers (bl_env bl) c' []
    | FillFull c' row m \<Rightarrow> \<exists>xs'. delivers (bl_env bl) c' xs' \<and> still bl pending xs = still bl (Some (row, m)) xs' \<and> bf_rows bf \<noteq> []
    | FillAdded c' bf' \<Rightarrow> \<exists>d xs'. delivers (bl_env bl) c' xs' \<and> still bl pending xs = d # still bl None xs'
        \<and> bf_rows bf' = bf_rows bf @ [row_values d] \<and> (bf_rows bf = [] \<or> length (bf_rows bf) < bl_rows bl)"
proof -
  obtain f u v where f: "fetch_data bl c pending u = (Inr f, v)"
    "(case fst f of None \<Rightarrow> areturn (FillEnd (snd (snd f)))
       | Some row \<Rightarrow>
           abind (alift (parameter_memory (bl_value_size bl) (row_values row) (bl_mapping bl) (bl_kind bl))) (\<lambda>n.
           if fill_full bl bf n
           then abind (row_lease bl row (fst (snd f))) (\<lambda>m. areturn (FillFull (snd (snd f)) row m))
           else
             abind (aguard (saturating_mul n (bl_multiplier bl) \<le> memory_bytes (bl_budget bl) div 2)
               ''resource_limit: the parameters of one row exceed the memory budget'') (\<lambda>_.
             abind (row_lease bl row (fst (snd f))) (\<lambda>m. areturn (FillAdded (snd (snd f)) (fill_add row m n bf)))))) v
       = (Inr step, t)"
    using assms(3) unfolding fill_once_def or_free_Inr abind_Inr by blast
  note spec = fetch_data_spec [OF assms(1,2) f(1)]
  show ?thesis
  proof (cases "fst f")
    case None
    then show ?thesis using f(2) spec by (auto simp: run_simps)
  next
    case (Some row)
    obtain xs' where xs': "delivers (bl_env bl) (snd (snd f)) xs'" "still bl pending xs = row # still bl None xs'"
      using spec Some by auto
    obtain n where n: "(if fill_full bl bf n
           then abind (row_lease bl row (fst (snd f))) (\<lambda>m. areturn (FillFull (snd (snd f)) row m))
           else
             abind (aguard (saturating_mul n (bl_multiplier bl) \<le> memory_bytes (bl_budget bl) div 2)
               ''resource_limit: the parameters of one row exceed the memory budget'') (\<lambda>_.
             abind (row_lease bl row (fst (snd f))) (\<lambda>m. areturn (FillAdded (snd (snd f)) (fill_add row m n bf))))) v
       = (Inr step, t)"
      using f(2) Some by (auto simp: abind_Inr alift_run)
    show ?thesis
    proof (cases "fill_full bl bf n")
      case True
      then show ?thesis using n xs' by (auto simp: run_simps still_def fill_full_def)
    next
      case False
      then show ?thesis using n xs' by (force simp: run_simps fill_add_def fill_full_def)
    qed
  qed
qed

lemma fill_batch_spec:
  "bl_kind bl \<noteq> DiffRetain \<Longrightarrow> delivers (bl_env bl) c xs \<Longrightarrow> fill_batch bl c pending bf st = (Inr (bf', c', p'), t) \<Longrightarrow>
     \<exists>done_rows xs'. bf_rows bf' = bf_rows bf @ map row_values done_rows
       \<and> still bl pending xs = done_rows @ still bl p' xs' \<and> delivers (bl_env bl) c' xs'
       \<and> (length (bf_rows bf) \<le> max 1 (bl_rows bl) \<longrightarrow> length (bf_rows bf') \<le> max 1 (bl_rows bl))
       \<and> (bf_rows bf' = [] \<longrightarrow> still bl p' xs' = [])"
proof (induction bl c pending bf st arbitrary: xs rule: fill_batch.induct)
  case (1 bl c pending bf st)
  obtain step u where f: "fill_once bl c pending bf st = (Inr step, u)"
    using "1.prems"(3) by (subst (asm) fill_batch.simps) (auto simp: run_simps)
  note spec = fill_once_spec [OF "1.prems"(1,2) f]
  show ?case
  proof (cases step)
    case (FillEnd d)
    then have "bf' = bf" "c' = d" "p' = None"
      using "1.prems"(3) f by (subst (asm) fill_batch.simps; auto simp: run_simps)+
    then show ?thesis using spec FillEnd by (intro exI [of _ "[]"] exI [of _ "[] :: canonical_row list"]) (auto simp: still_def)
  next
    case (FillFull d row m)
    then have "bf' = bf" "c' = d" "p' = Some (row, m)"
      using "1.prems"(3) f by (subst (asm) fill_batch.simps; auto simp: run_simps)+
    moreover obtain xs2 where "delivers (bl_env bl) d xs2" "still bl pending xs = still bl (Some (row, m)) xs2" "bf_rows bf \<noteq> []"
      using spec FillFull by auto
    ultimately show ?thesis by (intro exI [of _ "[] :: canonical_row list"] exI [of _ xs2]) simp
  next
    case (FillAdded d bf2)
    then have rest: "fill_batch bl d None bf2 u = (Inr (bf', c', p'), t)"
      using "1.prems"(3) f by (subst (asm) fill_batch.simps) (auto simp: run_simps)
    obtain r xs2 where r: "delivers (bl_env bl) d xs2" "still bl pending xs = r # still bl None xs2"
      "bf_rows bf2 = bf_rows bf @ [row_values r]" "bf_rows bf = [] \<or> length (bf_rows bf) < bl_rows bl"
      using spec FillAdded by auto
    from "1.IH" [OF f FillAdded "1.prems"(1) r(1) rest]
    obtain ds xs3 where ds: "bf_rows bf' = bf_rows bf2 @ map row_values ds" "still bl None xs2 = ds @ still bl p' xs3"
      "delivers (bl_env bl) c' xs3"
      "length (bf_rows bf2) \<le> max 1 (bl_rows bl) \<longrightarrow> length (bf_rows bf') \<le> max 1 (bl_rows bl)"
      by blast
    have "length (bf_rows bf2) \<le> max 1 (bl_rows bl)" using r(3,4) by auto
    then show ?thesis using ds r by (intro exI [of _ "r # ds"] exI [of _ xs3]) auto
  qed
qed

text \<open>The rows of a kind, table by table in the order of the writes.\<close>

definition has_parameters :: "stored_plan \<Rightarrow> data_diff_operation \<Rightarrow> string \<Rightarrow> bool" where
  "has_parameters plan kind table \<longleftrightarrow> (\<exists>m. List.find (\<lambda>m. vt_target m = table) (vm_tables (sp_mapping plan)) = Some m
     \<and> parameters_per_row (length (vt_target_columns m)) (length (key_indices m)) kind \<noteq> 0)"

definition rows_of_table :: "stored_plan \<Rightarrow> data_diff_operation \<Rightarrow> canonical_row list \<Rightarrow> string \<Rightarrow> (string \<times> data_value list) list" where
  "rows_of_table plan kind ops table =
     (if has_parameters plan kind table then map (\<lambda>r. (table, row_values r)) (table_data kind table ops) else [])"

definition rows_from :: "stored_plan \<Rightarrow> data_diff_operation \<Rightarrow> canonical_row list \<Rightarrow> nat \<Rightarrow> (string \<times> data_value list) list" where
  "rows_from plan kind ops i = concat (map (rows_of_table plan kind ops) (drop i (batch_order (sp_mapping plan) kind)))"

lemma rows_from_step:
  "i < length (batch_order (sp_mapping plan) kind) \<Longrightarrow>
     rows_from plan kind ops i
       = rows_of_table plan kind ops (batch_order (sp_mapping plan) kind ! i) @ rows_from plan kind ops (Suc i)"
  by (simp add: rows_from_def Cons_nth_drop_Suc [symmetric])

lemma rows_from_end: "length (batch_order (sp_mapping plan) kind) \<le> i \<Longrightarrow> rows_from plan kind ops i = []"
  by (simp add: rows_from_def)

definition reads_at :: "spool_env \<Rightarrow> stored_plan \<Rightarrow> canonical_row list \<Rightarrow> batch_reader \<Rightarrow> (string \<times> data_value list) list \<Rightarrow> bool" where
  "reads_at env plan ops reader todo \<longleftrightarrow> (let kind = br_kind reader; order = batch_order (sp_mapping plan) kind in
     case br_cursor reader of
       None \<Rightarrow> br_pending reader = None \<and> todo = rows_from plan kind ops (br_index reader)
     | Some c \<Rightarrow> br_index reader < length order \<and> has_parameters plan kind (order ! br_index reader)
         \<and> (\<exists>xs. delivers env c xs \<and> todo = map (\<lambda>r. (order ! br_index reader, row_values r))
              ((case br_pending reader of None \<Rightarrow> [] | Some (r, _) \<Rightarrow> [r]) @ table_data kind (order ! br_index reader) xs)
              @ rows_from plan kind ops (Suc (br_index reader))))"

text \<open>A batch and the rows it was built from.\<close>

definition batch_of ::
    "stored_plan \<Rightarrow> dialect \<Rightarrow> string \<Rightarrow> data_diff_operation \<Rightarrow> prepared_batch \<Rightarrow> string \<times> data_value list list \<Rightarrow> bool" where
  "batch_of plan d schema kind b chunk \<longleftrightarrow> (case chunk of (table, rows) \<Rightarrow>
     \<exists>m. List.find (\<lambda>m. vt_target m = table) (vm_tables (sp_mapping plan)) = Some m
       \<and> build_batch d schema table (vt_target_columns m) (key_indices m) kind rows = Inr (pb_batch b)
       \<and> pb_rows b = length rows \<and> rows \<noteq> [] \<and> length rows \<le> 500
       \<and> length rows * parameters_per_row (length (vt_target_columns m)) (length (key_indices m)) kind \<le> parameter_limit d)"

lemma table_limits_None:
  "table_limits env value_size plan d kind table = Inr None \<Longrightarrow> \<not> has_parameters plan kind table"
  by (auto simp: table_limits_def has_parameters_def rbind_eq_Inr ok_or_Inr Let_def split: if_splits)

lemma table_limits_Some:
  assumes "table_limits env value_size plan d kind table = Inr (Some bl)"
  shows "has_parameters plan kind table \<and> bl_env bl = env \<and> bl_kind bl = kind \<and> vt_target (bl_mapping bl) = table
    \<and> List.find (\<lambda>m. vt_target m = table) (vm_tables (sp_mapping plan)) = Some (bl_mapping bl)
    \<and> 0 < bl_rows bl \<and> bl_rows bl \<le> 500
    \<and> bl_rows bl * parameters_per_row (length (vt_target_columns (bl_mapping bl))) (length (key_indices (bl_mapping bl))) kind
        \<le> parameter_limit d"
proof -
  obtain m where m: "List.find (\<lambda>m. vt_target m = table) (vm_tables (sp_mapping plan)) = Some m"
    "parameters_per_row (length (vt_target_columns m)) (length (key_indices m)) kind \<noteq> 0"
    "bl = \<lparr>bl_env = env, bl_value_size = value_size, bl_kind = kind, bl_mapping = m,
       bl_rows = min 500 (parameter_limit d div parameters_per_row (length (vt_target_columns m)) (length (key_indices m)) kind),
       bl_multiplier = encoded_multiplier d, bl_budget = sp_budget (h_inner (sp_operations plan))\<rparr>"
    "bl_rows bl \<noteq> 0"
    using assms by (auto simp: table_limits_def rbind_eq_Inr ok_or_Inr Let_def split: if_splits)
  moreover have "vt_target m = table" using m(1) by (auto simp: find_Some_iff)
  moreover have "min 500 (l div n) * n \<le> l" for l n :: nat
    by (meson div_times_less_eq_dividend le_trans min.cobounded2 mult_le_mono1)
  ultimately show ?thesis by (auto simp: has_parameters_def)
qed

lemma prepare_batch_Inr:
  assumes "prepare_batch bl d schema bf pending st = (Inr b, t)"
  shows "build_batch d schema (vt_target (bl_mapping bl)) (vt_target_columns (bl_mapping bl)) (key_indices (bl_mapping bl))
      (bl_kind bl) (bf_rows bf) = Inr (pb_batch b) \<and> pb_rows b = length (bf_rows bf)"
  using assms by (auto simp: prepare_batch_def run_simps)

lemma fill_table_spec:
  assumes "kind \<noteq> DiffRetain" and "br_kind reader = kind" and "holds env (sp_operations plan) ops"
    and "reads_at env plan ops reader todo" and "br_index reader < length (batch_order (sp_mapping plan) kind)"
    and "table_limits env value_size plan d kind (batch_order (sp_mapping plan) kind ! br_index reader) = Inr (Some bl)"
    and "fill_table bl plan reader st = (Inr (bf, c, p), t)"
  obtains taken xs where "bf_rows bf = map row_values taken" "length (bf_rows bf) \<le> bl_rows bl" "delivers env c xs"
    "todo = map (\<lambda>r. (batch_order (sp_mapping plan) kind ! br_index reader, row_values r)) (taken @ still bl p xs)
       @ rows_from plan kind ops (Suc (br_index reader))"
    "bf_rows bf = [] \<Longrightarrow> still bl p xs = []"
proof -
  let ?table = "batch_order (sp_mapping plan) kind ! br_index reader"
  note bl = table_limits_Some [OF assms(6)]
  obtain c0 u xs0 where start: "fill_batch bl c0 (br_pending reader) no_fill u = (Inr (bf, c, p), t)"
    "delivers env c0 xs0"
    "todo = map (\<lambda>r. (?table, row_values r)) (still bl (br_pending reader) xs0) @ rows_from plan kind ops (Suc (br_index reader))"
  proof (cases "br_cursor reader")
    case None
    then obtain c0 u where o: "open_cursor env (sp_operations plan) st = (Inr c0, u)"
      "fill_batch bl c0 (br_pending reader) no_fill u = (Inr (bf, c, p), t)"
      using assms(7) bl by (auto simp: fill_table_def run_simps)
    have "todo = rows_from plan kind ops (br_index reader)" "br_pending reader = None"
      using assms(2,4) None by (simp_all add: reads_at_def Let_def)
    then show thesis using that [OF o(2) open_cursor_delivers [OF assms(3) o(1)]] rows_from_step [OF assms(5)] bl
      by (simp add: still_def rows_of_table_def)
  next
    case (Some c0)
    then have "fill_batch bl c0 (br_pending reader) no_fill st = (Inr (bf, c, p), t)"
      using assms(7) by (auto simp: fill_table_def run_simps)
    then show thesis using that assms(2,4) Some bl by (auto simp: reads_at_def Let_def still_def)
  qed
  obtain ds xs where "bf_rows bf = map row_values ds" "still bl (br_pending reader) xs0 = ds @ still bl p xs"
    "delivers env c xs" "length (bf_rows bf) \<le> max 1 (bl_rows bl)" "bf_rows bf = [] \<longrightarrow> still bl p xs = []"
    using fill_batch_spec [OF _ _ start(1), of xs0] start(2) bl assms(1) by (auto simp: no_fill_def)
  moreover have "max 1 (bl_rows bl) = bl_rows bl" using bl by simp
  ultimately show thesis using that [of ds xs] start(3) by simp
qed

lemma next_batch_spec:
  "kind \<noteq> DiffRetain \<Longrightarrow> br_kind reader = kind \<Longrightarrow> holds env (sp_operations plan) ops \<Longrightarrow> reads_at env plan ops reader todo \<Longrightarrow>
     next_batch env value_size plan d schema reader st = (Inr (x, reader'), t) \<Longrightarrow>
     br_kind reader' = kind \<and>
     (case x of
        None \<Rightarrow> todo = []
      | Some b \<Rightarrow> \<exists>table rows rest. todo = map (Pair table) rows @ rest \<and> batch_of plan d schema kind b (table, rows)
          \<and> reads_at env plan ops reader' rest)"
proof (induction "tables_left plan reader" arbitrary: reader todo st rule: less_induct)
  case less
  let ?order = "batch_order (sp_mapping plan) kind"
  note kind = less.prems(2)
  from less.prems(5) show ?case
  proof (cases rule: next_batch_cases)
    case ended
    then have "br_cursor reader = None" using less.prems(2,4) by (auto simp: reads_at_def Let_def split: option.splits)
    then show ?thesis using ended less.prems(2,4) by (simp add: reads_at_def Let_def rows_from_end)
  next
    case skipped
    let ?next = "reader\<lparr>br_index := br_index reader + 1\<rparr>"
    have no: "\<not> has_parameters plan kind (?order ! br_index reader)" using table_limits_None [OF skipped(2)] kind by simp
    then have "br_cursor reader = None" using less.prems(2,4) by (auto simp: reads_at_def Let_def split: option.splits)
    then have "reads_at env plan ops ?next todo"
      using less.prems(2,4) no rows_from_step [of "br_index reader" plan kind ops] skipped(1)
      by (simp add: reads_at_def Let_def rows_of_table_def)
    moreover have "tables_left plan ?next < tables_left plan reader" using skipped(1) by (simp add: tables_left_def)
    ultimately show ?thesis using less.hyps [OF _ less.prems(1) _ less.prems(3) _ skipped(3)] kind by simp
  next
    case (exhausted bl bf c p u)
    let ?next = "reader\<lparr>br_index := br_index reader + 1, br_cursor := None, br_pending := None\<rparr>"
    obtain taken xs where f: "bf_rows bf = map row_values taken"
      "todo = map (\<lambda>r. (?order ! br_index reader, row_values r)) (taken @ still bl p xs) @ rows_from plan kind ops (Suc (br_index reader))"
      "bf_rows bf = [] \<Longrightarrow> still bl p xs = []"
      using fill_table_spec [OF less.prems(1,2,3,4) exhausted(1,2,3) [unfolded kind]] by metis
    then have "reads_at env plan ops ?next todo"
      using exhausted(4) kind by (simp add: reads_at_def Let_def)
    moreover have "tables_left plan ?next < tables_left plan reader" using exhausted(1) by (simp add: tables_left_def)
    ultimately show ?thesis using less.hyps [OF _ less.prems(1) _ less.prems(3) _ exhausted(5)] kind by simp
  next
    case (filled bl bf c p u b)
    note bl = table_limits_Some [OF filled(2) [unfolded kind]]
    obtain taken xs where f: "bf_rows bf = map row_values taken" "length (bf_rows bf) \<le> bl_rows bl" "delivers env c xs"
      "todo = map (\<lambda>r. (?order ! br_index reader, row_values r)) (taken @ still bl p xs) @ rows_from plan kind ops (Suc (br_index reader))"
      using fill_table_spec [OF less.prems(1,2,3,4) filled(1,2,3) [unfolded kind]] by metis
    have "length (bf_rows bf) * parameters_per_row (length (vt_target_columns (bl_mapping bl)))
        (length (key_indices (bl_mapping bl))) kind \<le> parameter_limit d"
      using bl f(2) by (meson le_trans mult_le_mono1)
    then have "batch_of plan d schema kind b (?order ! br_index reader, bf_rows bf)"
      using prepare_batch_Inr [OF filled(5)] bl f(2) filled(4) by (auto simp: batch_of_def)
    moreover have "reads_at env plan ops reader' (map (\<lambda>r. (?order ! br_index reader, row_values r)) (still bl p xs)
        @ rows_from plan kind ops (Suc (br_index reader)))"
      using filled(1,6) bl f(3) kind by (auto simp: reads_at_def Let_def still_def)
    moreover have "todo = map (Pair (?order ! br_index reader)) (bf_rows bf) @ (map (\<lambda>r. (?order ! br_index reader, row_values r)) (still bl p xs)
        @ rows_from plan kind ops (Suc (br_index reader)))"
      using f(1,4) by simp
    ultimately show ?thesis using filled(6) kind by auto
  qed
qed

text \<open>Reading until there are no more batches, with anything happening in between.\<close>

inductive reads_batches ::
    "spool_env \<Rightarrow> nat \<Rightarrow> stored_plan \<Rightarrow> dialect \<Rightarrow> string \<Rightarrow> batch_reader \<Rightarrow> prepared_batch list \<Rightarrow> bool"
  for env value_size plan d schema where
  no_more: "next_batch env value_size plan d schema reader st = (Inr (None, reader'), t) \<Longrightarrow>
     reads_batches env value_size plan d schema reader []"
| one_more: "next_batch env value_size plan d schema reader st = (Inr (Some b, reader'), t) \<Longrightarrow>
     reads_batches env value_size plan d schema reader' bs \<Longrightarrow> reads_batches env value_size plan d schema reader (b # bs)"

lemma reads_batches_spec:
  assumes "kind \<noteq> DiffRetain" and "holds env (sp_operations plan) ops"
    and "reads_batches env value_size plan d schema reader bs"
  shows "br_kind reader = kind \<Longrightarrow> reads_at env plan ops reader todo \<Longrightarrow>
    \<exists>chunks. list_all2 (batch_of plan d schema kind) bs chunks \<and> todo = concat (map (\<lambda>(table, rows). map (Pair table) rows) chunks)"
  using assms(3)
proof (induction arbitrary: todo)
  case (no_more reader st reader' t)
  then show ?case using next_batch_spec [OF assms(1) no_more(2) assms(2) no_more(3) no_more(1)] by simp
next
  case (one_more reader st b reader' t bs)
  from next_batch_spec [OF assms(1) one_more(4) assms(2) one_more(5) one_more(1)]
  obtain table rows rest where n: "br_kind reader' = kind" "todo = map (Pair table) rows @ rest"
    "batch_of plan d schema kind b (table, rows)" "reads_at env plan ops reader' rest"
    by auto
  obtain chunks where "list_all2 (batch_of plan d schema kind) bs chunks"
    "rest = concat (map (\<lambda>(table, rows). map (Pair table) rows) chunks)"
    using one_more.IH [OF n(1,4)] by blast
  then show ?case using n(2,3) by (intro exI [of _ "(table, rows) # chunks"]) simp
qed

text \<open>The rows the steps of a kind write to a table.\<close>

definition step_data :: "data_diff_operation \<Rightarrow> string \<Rightarrow> step \<Rightarrow> data_value list option" where
  "step_data kind table s = (case s of (k, r, i) \<Rightarrow> if k = kind \<and> row_table r = table then Some (row_values r) else None)"

definition rows_to_write :: "stored_plan \<Rightarrow> data_diff_operation \<Rightarrow> step list \<Rightarrow> (string \<times> data_value list) list" where
  "rows_to_write plan kind steps = concat (map (\<lambda>table.
     if has_parameters plan kind table then map (Pair table) (List.map_filter (step_data kind table) steps) else [])
     (batch_order (sp_mapping plan) kind))"

lemma data_of_step:
  "kind \<noteq> DiffRetain \<Longrightarrow> map_option row_values (data_of kind table (step_row s)) = step_data kind table s"
  by (cases s; cases "fst s")
    (auto simp: step_row_def step_data_def data_of_def operation_from_row_def operation_kind_def operation_row_def operation_name_def)

lemma table_data_steps:
  assumes "kind \<noteq> DiffRetain"
  shows "map row_values (table_data kind table (map step_row steps)) = List.map_filter (step_data kind table) steps"
  by (induction steps) (simp_all add: List.map_filter_simps data_of_step [OF assms, symmetric] split: option.splits)

lemma rows_from_steps:
  assumes "kind \<noteq> DiffRetain"
  shows "rows_from plan kind (map step_row steps) 0 = rows_to_write plan kind steps"
proof -
  have "rows_of_table plan kind (map step_row steps) table
      = (if has_parameters plan kind table then map (Pair table) (List.map_filter (step_data kind table) steps) else [])" for table
    by (simp add: rows_of_table_def table_data_steps [OF assms, symmetric] comp_def)
  then show ?thesis unfolding rows_from_def rows_to_write_def drop_0 by presburger
qed

lemma new_reader_at: "reads_at env plan ops (new_reader kind) (rows_from plan kind ops 0)"
  by (simp add: reads_at_def new_reader_def Let_def)

definition insert_plan :: "spool_handle \<Rightarrow> stored_plan" where
  "insert_plan h = \<lparr>sp_request = plan_request, sp_mapping = plan_mapping,
     sp_preview = plan_preview [] [] 0 plan_request [] [] h h, sp_source = \<lparr>so_spool = h, so_digest = []\<rparr>,
     sp_target = \<lparr>so_spool = h, so_digest = []\<rparr>, sp_target_full = \<lparr>so_spool = h, so_digest = []\<rparr>,
     sp_operations = h, sp_expected = \<lparr>so_spool = h, so_digest = []\<rparr>, sp_source_metadata = plan_metadata,
     sp_target_metadata = plan_metadata\<rparr>"

definition insert_step :: step where
  "insert_step = (DiffInsert, plan_row, 0)"

lemma insert_plan_run:
  "wp (write_snapshot plain_env default_budget [step_row insert_step])
    (\<lambda>h t. wp (next_batch plain_env 48 (insert_plan h) DPostgres ''s'' (new_reader DiffInsert))
      (\<lambda>(x, reader) u. x \<noteq> None \<and> wp (next_batch plain_env 48 (insert_plan h) DPostgres ''s'' reader)
        (\<lambda>(y, _) _. y = None) (\<lambda>_ _. False) u) (\<lambda>_ _. False) t) (\<lambda>_ _. False) (new_resources None)"
  by code_simp

text \<open>
  C33. The batches of a kind are complete and in order: read until there are no more, they contain
  the rows of the operations of that kind and no others, table by table in the order of the foreign
  keys (backwards for deletions) and within a table in the order of the plan; no batch is empty, none
  mixes tables, has more than 500 rows or binds more parameters than the database takes.
\<close>

theorem batches_complete:
  assumes "kind \<noteq> DiffRetain" and "holds env (sp_operations plan) (map step_row steps)"
    and "reads_batches env value_size plan d schema (new_reader kind) bs"
  shows "\<exists>chunks. list_all2 (batch_of plan d schema kind) bs chunks
    \<and> concat (map (\<lambda>(table, rows). map (Pair table) rows) chunks) = rows_to_write plan kind steps"
  using reads_batches_spec [OF assms _ new_reader_at] rows_from_steps [OF assms(1)] by (auto simp: new_reader_def)

theorem batches_complete_witness:
  "\<exists>h b chunk. reads_batches plain_env 48 (insert_plan h) DPostgres ''s'' (new_reader DiffInsert) [b]
     \<and> batch_of (insert_plan h) DPostgres ''s'' DiffInsert b (''t'', [[Bool True]])"
proof -
  obtain h t b reader u reader' v where run:
    "write_snapshot plain_env default_budget [step_row insert_step] (new_resources None) = (Inr h, t)"
    "next_batch plain_env 48 (insert_plan h) DPostgres ''s'' (new_reader DiffInsert) t = (Inr (Some b, reader), u)"
    "next_batch plain_env 48 (insert_plan h) DPostgres ''s'' reader u = (Inr (None, reader'), v)"
    using insert_plan_run by (fastforce dest!: wp_returns)
  have "\<forall>r \<in> set [step_row insert_step]. wf_row r" by code_simp
  moreover have "norm_row (step_row insert_step) = step_row insert_step" by code_simp
  ultimately have h: "holds plain_env (sp_operations (insert_plan h)) (map step_row [insert_step])"
    using write_snapshot_holds [OF plain_env_ok _ run(1)] by (simp add: insert_plan_def)
  have reads: "reads_batches plain_env 48 (insert_plan h) DPostgres ''s'' (new_reader DiffInsert) [b]"
    using one_more [OF run(2) no_more [OF run(3)]] .
  have "rows_to_write (insert_plan h) DiffInsert [insert_step] = [(''t'', [Bool True])]"
    by (simp add: rows_to_write_def insert_plan_def plan_mapping_def batch_order_def has_parameters_def
        parameters_per_row_def step_data_def insert_step_def plan_row_def List.map_filter_simps)
  then obtain chunks where c: "list_all2 (batch_of (insert_plan h) DPostgres ''s'' DiffInsert) [b] chunks"
    "concat (map (\<lambda>(table, rows). map (Pair table) rows) chunks) = [(''t'', [Bool True])]"
    using batches_complete [OF _ h reads] by auto
  then obtain table rows where "chunks = [(table, rows)]" by (auto simp: list_all2_Cons1)
  then have "chunks = [(''t'', [[Bool True]])]" using c(2) by (auto simp: map_eq_Cons_conv)
  then show ?thesis using c(1) reads by auto
qed

end
