(* ===== verification/Execute.thy ===== *)
theory Execute
  imports Batch_Reader
begin

text \<open>
  The execution of a plan over network sessions (\<open>execute\_network\<close> and what it calls in
  \<open>src-tauri/src/db/data\_tasks/executor.rs\<close>): preflight, transaction, verification, commit or
  rollback, and the result that is reported.
\<close>

subsection \<open>The transaction\<close>

definition seeded_input :: "projection list \<Rightarrow> spool_handle \<Rightarrow> budget \<Rightarrow> data_task_status \<Rightarrow> snapshot_input" where
  "seeded_input ps seed b phase_now = \<lparr>si_full = ps, si_projected = None, si_seed = Some seed, si_budget = b,
     si_status = phase_now, si_conversion = None\<rparr>"

fun delete_tables :: "'db exec_env \<Rightarrow> string list \<Rightarrow> exec_progress \<Rightarrow> ('db, exec_progress) exec_action" where
  "delete_tables env [] p = areturn p"
| "delete_tables env (t # ts) p =
     abind (on_res checked) (\<lambda>_.
     abind (on_target (ss_delete_all (ee_target env) t)) (\<lambda>n.
       delete_tables env ts (p\<lparr>pr_written := pr_written p + n\<rparr>)))"

text \<open>The target is read again and must be what the plan was made from.\<close>

definition target_unchanged :: "'db exec_env \<Rightarrow> stored_plan \<Rightarrow> metadata_snapshot \<Rightarrow> exec_progress
    \<Rightarrow> ('db, exec_progress) exec_action" where
  "target_unchanged env plan current p =
     abind (alift (full_projections (sp_mapping plan) current)) (\<lambda>full.
     abind (network_snapshot env False (seeded_input full (so_spool (sp_target_full plan))
       (sp_budget (h_inner (so_spool (sp_target_full plan)))) Executing) p) (\<lambda>reread.
     abind (on_res (sort_compare (ee_spool env) (fst (fst reread)) (sp_target_full plan))) (\<lambda>same.
     abind (aguard (fst same) ''plan_stale: the target rows have changed'') (\<lambda>_.
       areturn (snd reread)))))"

definition write_changes :: "'db exec_env \<Rightarrow> stored_plan \<Rightarrow> exec_progress \<Rightarrow> ('db, exec_progress) exec_action" where
  "write_changes env plan p =
     abind (if req_mode (sp_request plan) = Replace
       then delete_tables env (delete_order (sp_mapping plan)) p
       else write_network_kind env plan DiffDelete p) (\<lambda>p.
     abind (write_network_kind env plan DiffUpdate p) (\<lambda>p.
     abind (write_network_kind env plan DiffInsert p) (\<lambda>p.
     abind (on_target (ss_maintain_generators (ee_target env) (vm_tables (sp_mapping plan)))) (\<lambda>_.
       areturn p))))"

text \<open>What is in the target now is compared with the expected rows of the plan.\<close>

definition verify_target :: "'db exec_env \<Rightarrow> stored_plan \<Rightarrow> exec_progress \<Rightarrow> ('db, exec_progress) exec_action" where
  "verify_target env plan p =
     abind (emit (ee_spool env) Verifying True p) (\<lambda>p.
     abind (on_res checked) (\<lambda>_.
     abind (network_snapshot env False (seeded_input (projections (sp_mapping plan) False)
       (so_spool (sp_expected plan)) (sp_budget (h_inner (so_spool (sp_target_full plan)))) Verifying) p) (\<lambda>final.
     abind (on_res (sort_compare (ee_spool env) (fst (fst final)) (sp_expected plan))) (\<lambda>same.
     abind (aguard (fst same) ''validation_failed: the final rows are not the expected ones'') (\<lambda>_.
     abind (on_res checked) (\<lambda>_.
       areturn ((snd final)\<lparr>pr_verified := snd same\<rparr>)))))))"

definition execute_network_transaction ::
    "'db exec_env \<Rightarrow> endpoint_identity \<Rightarrow> stored_plan \<Rightarrow> exec_progress \<Rightarrow> ('db, exec_progress) exec_action" where
  "execute_network_transaction env source_identity plan p =
     abind (on_res checked) (\<lambda>_.
     abind (on_target (ss_load_metadata (ee_target env))) (\<lambda>current.
     abind (aguard (schema_fingerprint current = schema_fingerprint (sp_target_metadata plan))
       ''plan_stale: the structure of the target has changed'') (\<lambda>_.
     abind (on_target (aget (ss_identity (ee_target env)))) (\<lambda>identity.
     abind (alift (ok_or ''same_physical_target: the target cannot be identified'' identity)) (\<lambda>target_identity.
     abind (alift (resolve_endpoints (ee_canonicalize env) (ee_same_file env) (sp_request plan)
       source_identity target_identity)) (\<lambda>_.
     abind (alift (validate_mapping (sp_request plan) (sp_source_metadata plan) current)) (\<lambda>_.
     abind (target_unchanged env plan current p) (\<lambda>p.
     abind (emit (ee_spool env) Executing True p) (\<lambda>p.
     abind (write_changes env plan p) (\<lambda>p.
       verify_target env plan p))))))))))"

subsection \<open>Commit, rollback and the result\<close>

text \<open>An answer that does not come in time is as good as an error.\<close>

definition answered :: "'db session_ops \<Rightarrow> ('db, unit) action \<Rightarrow> ('db, bool) exec_action" where
  "answered ops m = on_target (\<lambda>db. (Inr (ss_answers ops db \<and> is_ok (fst (m db))), snd (m db)))"

definition first_result :: "stored_plan \<Rightarrow> data_task_result" where
  "first_result plan = \<lparr>res_status = Failed, res_commit_state = CommitNone, res_tables = pv_tables (sp_preview plan),
     res_error = None, cleanup_errors = [], requires_target_refresh = False\<rparr>"

definition rollback_network_failure ::
    "'db exec_env \<Rightarrow> err \<Rightarrow> data_task_result \<Rightarrow> ('db, data_task_result) exec_action" where
  "rollback_network_failure env message result =
     abind (on_res cancelled) (\<lambda>stopped.
     let result = result\<lparr>res_error := Some (if stopped then task_error ''cancelled'' ''the task was cancelled''
       else exec_error message)\<rparr> in
     abind (answered (ee_target env) (ss_rollback (ee_target env))) (\<lambda>ok.
     if ok then abind (on_res cancelled) (\<lambda>stopped. areturn (result\<lparr>res_commit_state := RolledBack,
       res_status := if stopped then Cancelled else Failed\<rparr>))
     else areturn (result\<lparr>res_commit_state := CommitUnknown, res_status := OutcomeUnknown,
       requires_target_refresh := True,
       cleanup_errors := cleanup_errors result @ [''the rollback of the target is not confirmed'']\<rparr>)))"

definition take_cleanup_errors :: "'db exec_env \<Rightarrow> data_task_result \<Rightarrow> ('db, data_task_result) exec_action" where
  "take_cleanup_errors env result =
     abind (on_target (sure (ss_cleanup_errors (ee_target env)))) (\<lambda>es.
       areturn (result\<lparr>cleanup_errors := cleanup_errors result @ es\<rparr>))"

definition plan_fresh :: "spool_env \<Rightarrow> stored_plan \<Rightarrow> (resources, unit) action" where
  "plan_fresh env plan = abind (aget (\<lambda>st. clock env (io_calls st))) (\<lambda>now.
     aguard (case parse_uint U64_MAX (pv_expires_at (sp_preview plan)) of None \<Rightarrow> False | Some e \<Rightarrow> now < e)
       ''plan_expired: the preview has expired'')"

definition network_preflight ::
    "'db exec_env \<Rightarrow> stored_plan \<Rightarrow> connection_config \<Rightarrow> connection_config \<Rightarrow> ('db, unit) exec_action" where
  "network_preflight env plan source target =
     abind (on_res checked) (\<lambda>_.
     abind (aguard (cc_database_type target \<noteq> ClickHouse) (''unsupported_capability: '' @ CLICKHOUSE_TARGET_BLOCKER)) (\<lambda>_.
     abind (on_res (plan_fresh (ee_spool env) plan)) (\<lambda>_.
     abind (aguard (ee_fingerprint env source = configuration_fingerprint (sp_source_metadata plan)
         \<and> ee_fingerprint env target = configuration_fingerprint (sp_target_metadata plan))
       ''plan_stale: a saved connection was changed'') (\<lambda>_.
     abind (on_source (ss_open (ee_source env) source (req_source (sp_request plan)))) (\<lambda>_.
     abind (on_source (ss_begin_read (ee_source env))) (\<lambda>_.
     abind (on_source (ss_load_metadata (ee_source env))) (\<lambda>md.
     abind (aguard (schema_fingerprint md = schema_fingerprint (sp_source_metadata plan))
       ''plan_stale: the structure of the source has changed'') (\<lambda>_.
     abind (on_source (ss_rollback (ee_source env))) (\<lambda>_.
     abind (on_target (ss_open (ee_target env) target (req_target (sp_request plan)))) (\<lambda>_.
       aguard (supports_transaction (ee_target env))
         ''unsupported_capability: the target session has no transaction for a whole task''))))))))))"

definition commit_network :: "'db exec_env \<Rightarrow> exec_progress \<Rightarrow> data_task_result \<Rightarrow> ('db, data_task_result) exec_action" where
  "commit_network env p result =
     abind (answered (ee_target env) (ss_commit (ee_target env))) (\<lambda>ok.
     if ok then abind (emit (ee_spool env) Succeeded True p) (\<lambda>_. areturn (result\<lparr>res_status := Succeeded,
       res_commit_state := Committed, requires_target_refresh := True\<rparr>))
     else areturn (result\<lparr>res_status := OutcomeUnknown, res_commit_state := CommitUnknown,
       res_error := Some (task_error ''outcome_unknown'' ''the commit is not confirmed and will not be repeated''),
       requires_target_refresh := True\<rparr>))"

definition network_work ::
    "'db exec_env \<Rightarrow> endpoint_identity \<Rightarrow> stored_plan \<Rightarrow> exec_progress \<Rightarrow> ('db, exec_progress) exec_action" where
  "network_work env source_identity plan p =
     abind (execute_network_transaction env source_identity plan p) (\<lambda>p.
     abind (emit (ee_spool env) Committing True p) (\<lambda>p.
     abind (on_res checked) (\<lambda>_. areturn p)))"

definition network_protected ::
    "'db exec_env \<Rightarrow> stored_plan \<Rightarrow> exec_progress \<Rightarrow> ('db, data_task_result) exec_action" where
  "network_protected env plan p =
     abind (attempt (on_target (ss_begin_protected_write (ee_target env) (insert_order (sp_mapping plan))))) (\<lambda>began.
     case began of
       Inl message \<Rightarrow> abind (rollback_network_failure env message (first_result plan)) (take_cleanup_errors env)
     | Inr _ \<Rightarrow>
         abind (on_source (aget (ss_identity (ee_source env)))) (\<lambda>identity.
         case identity of
           None \<Rightarrow> abind (attempt (on_target (ss_rollback (ee_target env)))) (\<lambda>_.
             areturn ((first_result plan)\<lparr>res_error := Some (task_error ''same_physical_target''
               ''the source cannot be identified'')\<rparr>))
         | Some source_identity \<Rightarrow>
             abind (attempt (network_work env source_identity plan p)) (\<lambda>work.
             abind (case work of
                 Inl message \<Rightarrow> rollback_network_failure env message (first_result plan)
               | Inr p \<Rightarrow> commit_network env p (first_result plan)) (take_cleanup_errors env))))"

definition execute_network ::
    "'db exec_env \<Rightarrow> stored_plan \<Rightarrow> connection_config \<Rightarrow> connection_config \<Rightarrow> ('db, data_task_result) exec_action" where
  "execute_network env plan source target =
     abind (on_res (new_progress (ee_spool env))) (\<lambda>p.
     abind (attempt (network_preflight env plan source target)) (\<lambda>preflight.
     case preflight of
       Inl message \<Rightarrow> abind (on_res cancelled) (\<lambda>stopped. areturn ((first_result plan)\<lparr>
         res_status := if stopped then Cancelled else Failed, res_error := Some (exec_error message)\<rparr>))
     | Inr _ \<Rightarrow> network_protected env plan p))"

subsection \<open>What a session promises\<close>

text \<open>
  The documented behaviour of a database that runs the task in one transaction. \<open>durable\<close> is what
  every other session sees and what is left when the connection is lost, \<open>visible\<close> what this
  session sees, \<open>opened\<close> tells whether the protected transaction is open. Inside it, no call changes
  the durable content, and one that succeeds leaves it open; a confirmed commit makes the visible
  content durable. A stream that ends without an error has delivered the visible rows. \<open>Sqlite\_Session\<close>
  shows that the adapter for SQLite is such a session.
\<close>

definition inside_tx :: "('db \<Rightarrow> 'c) \<Rightarrow> ('db \<Rightarrow> bool) \<Rightarrow> ('db, 'a) action \<Rightarrow> bool" where
  "inside_tx durable opened m \<longleftrightarrow> (\<forall>db. opened db \<longrightarrow>
     durable (snd (m db)) = durable db \<and> (is_ok (fst (m db)) \<longrightarrow> opened (snd (m db))))"

locale data_session =
  fixes ops :: "'db session_ops" and durable visible :: "'db \<Rightarrow> 'c" and opened :: "'db \<Rightarrow> bool"
    and rows_of :: "projection list \<Rightarrow> 'c \<Rightarrow> canonical_row multiset"
  assumes cleanup_durable: "durable (snd (ss_cleanup_errors ops db)) = durable db"
    and open_durable: "durable (snd (ss_open ops c e db)) = durable db"
    and protected_durable: "durable (snd (ss_begin_protected_write ops tables db)) = durable db"
    and rollback_durable: "durable (snd (ss_rollback ops db)) = durable db"
    and protected_open: "ss_begin_protected_write ops tables db = (Inr x, db') \<Longrightarrow> opened db'"
    and metadata_tx: "inside_tx durable opened (ss_load_metadata ops)"
    and write_tx: "inside_tx durable opened (ss_write_batch ops b)"
    and delete_tx: "inside_tx durable opened (ss_delete_all ops t)"
    and maintain_tx: "inside_tx durable opened (ss_maintain_generators ops ts)"
    and stream_tx: "opened db \<Longrightarrow> ss_stream ops ps db = ((rows, ended), db') \<Longrightarrow>
      durable db' = durable db \<and> (is_ok ended \<longrightarrow> opened db')"
    and stream_rows: "ss_stream ops ps db = ((rows, Inr n), db') \<Longrightarrow>
      visible db' = visible db \<and> mset rows = rows_of ps (visible db)"
    and stream_wf: "ss_stream ops ps db = ((rows, Inr n), db') \<Longrightarrow> \<forall>p \<in> set ps. valid_utf8 (pj_output p) \<Longrightarrow>
      \<forall>r \<in> set rows. wf_row r"
    and commit_visible: "ss_commit ops db = (Inr x, db') \<Longrightarrow> durable db' = visible db"

subsection \<open>Only a commit changes the durable content\<close>

definition keeps_target :: "('db \<Rightarrow> 'k) \<Rightarrow> ('db, 'a) exec_action \<Rightarrow> bool" where
  "keeps_target f m \<longleftrightarrow> (\<forall>s. f (xs_target (snd (m s))) = f (xs_target s))"

named_theorems frame_intros \<open>actions that keep what is observed of the target\<close>

lemma keeps_basic [frame_intros]:
  "keeps_target f (areturn x)" "keeps_target f (afail e)" "keeps_target f (alift r)" "keeps_target f (aguard b e)"
  "keeps_target f (on_res m)" "keeps_target f (on_source n)"
  by (auto simp: keeps_target_def areturn_def afail_def alift_def aguard_def on_res_def on_source_def split: prod.splits)

lemma keeps_target_get [frame_intros]: "keeps_target f (on_target (aget g))"
  by (auto simp: keeps_target_def on_target_def aget_def)

lemma keeps_emit [frame_intros]: "keeps_target f (emit env ph force p)"
  by (auto simp: keeps_target_def emit_def Let_def)

lemma keeps_abind [frame_intros]:
  assumes "keeps_target f m" and "\<And>x. keeps_target f (g x)"
  shows "keeps_target f (abind m g)"
  unfolding keeps_target_def
proof
  fix s
  have m: "f (xs_target (snd (m s))) = f (xs_target s)" using assms(1) by (simp add: keeps_target_def)
  show "f (xs_target (snd (abind m g s))) = f (xs_target s)"
    using assms(2) m by (auto simp: keeps_target_def abind_def split: prod.splits sum.splits)
qed

lemma keeps_if [frame_intros]:
  "keeps_target f m \<Longrightarrow> keeps_target f n \<Longrightarrow> keeps_target f (if b then m else n)"
  by simp

lemma keeps_release [frame_intros]:
  "keeps_target f m \<Longrightarrow> keeps_target f (or_release (drop_all inners) m)"
  "keeps_target f m \<Longrightarrow> keeps_target f (or_release (drop_bytes n) m)"
  "keeps_target f m \<Longrightarrow> keeps_target f (afinally m (drop_bytes n))"
  by (auto simp: keeps_target_def or_release_def afinally_def drop_all_def drop_bytes_def split: prod.splits sum.splits)
     (metis snd_conv)+

lemma keeps_attempt [frame_intros]: "keeps_target f m \<Longrightarrow> keeps_target f (attempt m)"
  by (auto simp: keeps_target_def attempt_def split: prod.splits) (metis snd_conv)

lemma keeps_on_target: "(\<And>db. f (snd (m db)) = f db) \<Longrightarrow> keeps_target f (on_target m)"
  by (auto simp: keeps_target_def on_target_def split: prod.splits) (metis snd_conv)

lemma keeps_sure: "(\<And>db. f (snd (m db)) = f db) \<Longrightarrow> keeps_target f (on_target (sure m))"
  by (rule keeps_on_target) (auto simp: sure_def split: prod.splits, metis snd_conv)

lemma keepsD: "keeps_target f m \<Longrightarrow> m s = (r, t) \<Longrightarrow> f (xs_target t) = f (xs_target s)"
  unfolding keeps_target_def by (metis snd_conv)

text \<open>The writing side of a snapshot does not touch the target at all.\<close>

lemma keeps_push_projected [frame_intros]: "keeps_target f (push_projected env inp w row pw)"
  unfolding push_projected_def by (auto intro!: frame_intros split: option.splits)

lemma keeps_snapshot_row [frame_intros]: "keeps_target f (snapshot_row env inp r st)"
  unfolding snapshot_row_def by (auto intro!: frame_intros split: prod.splits)

lemma keeps_snapshot_rows [frame_intros]: "keeps_target f (snapshot_rows env inp rs st)"
  by (induction env inp rs st rule: snapshot_rows.induct) (auto intro!: frame_intros)

lemma keeps_snapshot_worker [frame_intros]: "keeps_target f (snapshot_worker env inp p rows)"
  unfolding snapshot_worker_def by (auto intro!: frame_intros split: prod.splits)

lemma keeps_network_snapshot:
  assumes "keeps_target f (session_stream env side (si_full inp))"
  shows "keeps_target f (network_snapshot env side inp p)"
  unfolding network_snapshot_def by (auto intro!: frame_intros assms split: prod.splits)

subsection \<open>Inside a transaction\<close>

text \<open>
  An action that is started inside a transaction keeps the durable content; when it succeeds, the
  transaction is still open.
\<close>

definition inside_at :: "('db \<Rightarrow> 'c) \<Rightarrow> ('db \<Rightarrow> bool) \<Rightarrow> ('db, 'a) exec_action \<Rightarrow> 'db exec_state \<Rightarrow> bool" where
  "inside_at durable opened m s \<longleftrightarrow> (opened (xs_target s) \<longrightarrow> (case m s of (r, t) \<Rightarrow>
     durable (xs_target t) = durable (xs_target s) \<and> (is_ok r \<longrightarrow> opened (xs_target t))))"

named_theorems inside_intros \<open>actions inside a transaction\<close>

lemma inside_quiet: "keeps_target (\<lambda>db. db) m \<Longrightarrow> inside_at durable opened m s"
  by (auto simp: inside_at_def keeps_target_def split: prod.splits) (metis snd_conv)+

lemma inside_basic [inside_intros]:
  "inside_at d a (areturn x) s" "inside_at d a (afail e) s" "inside_at d a (alift r) s" "inside_at d a (aguard b e) s"
  "inside_at d a (on_res m) s" "inside_at d a (emit env ph force p) s"
  by (rule inside_quiet, intro frame_intros)+

lemma inside_done [inside_intros]: "inside_at d a (\<lambda>s. (Inr x, s)) s"
  by (simp add: inside_at_def)

lemma inside_abind [inside_intros]:
  assumes "inside_at d a m s" and "\<And>x t. m s = (Inr x, t) \<Longrightarrow> inside_at d a (g x) t"
  shows "inside_at d a (abind m g) s"
proof (cases "m s")
  case (Pair r t)
  then show ?thesis using assms by (cases r) (auto simp: inside_at_def abind_def split: prod.splits)
qed

lemma inside_or_release [inside_intros]:
  "inside_at d a m s \<Longrightarrow> (\<And>u. xs_target (f u) = xs_target u) \<Longrightarrow> inside_at d a (or_release f m) s"
  "inside_at d a m s \<Longrightarrow> (\<And>u. xs_target (f u) = xs_target u) \<Longrightarrow> inside_at d a (afinally m f) s"
  by (auto simp: inside_at_def or_release_def afinally_def split: prod.splits sum.splits)

lemma drops_keep [simp, inside_intros]: "xs_target (drop_all inners u) = xs_target u" "xs_target (drop_bytes n u) = xs_target u"
  by (simp_all add: drop_all_def drop_bytes_def)

lemma inside_modify [inside_intros]: "(\<And>u. xs_target (f u) = xs_target u) \<Longrightarrow> inside_at d a (amodify f) s"
  by (simp add: inside_at_def amodify_def)

lemma inside_cases [inside_intros]:
  "(x = None \<Longrightarrow> inside_at d a m s) \<Longrightarrow> (\<And>r. x = Some r \<Longrightarrow> inside_at d a (g r) s) \<Longrightarrow>
     inside_at d a (\<lambda>u. case x of None \<Rightarrow> m u | Some r \<Rightarrow> g r u) s"
  "(b \<Longrightarrow> inside_at d a m s) \<Longrightarrow> (\<not> b \<Longrightarrow> inside_at d a n s) \<Longrightarrow> inside_at d a (\<lambda>u. if b then m u else n u) s"
  by (cases x, simp, simp) (cases b, simp_all)

lemma insideD:
  assumes "inside_at d a m s" and "m s = (r, t)" and "a (xs_target s)"
  shows "d (xs_target t) = d (xs_target s)" and "r = Inr x \<Longrightarrow> a (xs_target t)"
  using assms by (auto simp: inside_at_def)

lemma inside_target: "inside_tx durable opened m \<Longrightarrow> inside_at durable opened (on_target m) s"
  by (auto simp: inside_at_def inside_tx_def on_target_def split: prod.splits)

lemma inside_get [inside_intros]: "inside_at d a (on_target (aget g)) s"
  by (simp add: inside_at_def on_target_def aget_def)

text \<open>Everything between the opening of the transaction and the commit happens inside it.\<close>

lemma keeps_answered:
  "(\<And>db. f (snd (m db)) = f db) \<Longrightarrow> keeps_target f (answered ops m)"
  unfolding answered_def by (rule keeps_on_target) simp

context data_session begin

lemma inside_network_snapshot:
  assumes "ee_target env = ops"
  shows "inside_at durable opened (network_snapshot env False inp p) s"
proof -
  obtain rows ended db where st: "ss_stream ops (si_full inp) (xs_target s) = ((rows, ended), db)"
    by (metis prod.exhaust)
  let ?rest = "abind (snapshot_worker env inp p rows) (\<lambda>out.
    or_release (drop_all (handle_inners out)) (
      abind (alift ended) (\<lambda>count.
      abind (on_res checked) (\<lambda>_.
        areturn (out, p\<lparr>pr_read := pr_read p + count,
          pr_bytes := saturating_add (pr_bytes p) (sp_bytes (h_inner (fst out)))\<rparr>)))))"
  have run: "network_snapshot env False inp p s = ?rest (s\<lparr>xs_target := db\<rparr>)"
    using st assms by (simp add: network_snapshot_def session_stream_def abind_def sure_def on_target_def)
  obtain x t where rest: "?rest (s\<lparr>xs_target := db\<rparr>) = (x, t)" by fastforce
  have "keeps_target (\<lambda>u. u) ?rest" by (intro frame_intros)
  from keepsD [OF this rest] have t: "xs_target t = db" by simp
  have "is_ok ended" if "is_ok x"
    using that rest by (cases x) (auto simp: run_simps)
  then show ?thesis
    using stream_tx [OF _ st] run rest t by (auto simp: inside_at_def)
qed

lemma inside_sends:
  assumes "ee_target env = ops"
  shows "inside_at durable opened (send_batch env b p) s"
  unfolding send_batch_def assms by (auto intro!: inside_intros inside_target write_tx)

lemma inside_write_loop:
  assumes "ee_target env = ops"
  shows "inside_at durable opened (write_loop env plan reader p) s"
  using assms
proof (induction env plan reader p s rule: write_loop.induct)
  case (1 env plan reader p s)
  have "inside_at durable opened (\<lambda>s. abind (on_res (next_batch (ee_spool env) (ee_value_size env) plan (ss_dialect (ee_target env))
         (ep_database (req_target (sp_request plan))) reader)) (\<lambda>x s.
       case fst x of
         None \<Rightarrow> (Inr p, s)
       | Some b \<Rightarrow>
           abind (or_release (drop_bytes (pending_bytes (br_pending (snd x)))) (send_batch env b p))
             (\<lambda>p s. write_loop env plan (snd x) p s) s) s) s"
    using "1.IH" "1.prems" by (auto intro!: inside_intros inside_sends split: option.split)
  then show ?case
    by (simp add: inside_at_def write_loop.simps [of env plan reader p s])
qed

lemma inside_delete_tables:
  assumes "ee_target env = ops"
  shows "inside_at durable opened (delete_tables env ts p) s"
  by (induction ts arbitrary: p s) (auto intro!: inside_intros inside_target delete_tx [folded assms])

lemma inside_work:
  assumes "ee_target env = ops"
  shows "inside_at durable opened (network_work env identity plan p) s"
  unfolding network_work_def execute_network_transaction_def write_changes_def write_network_kind_def verify_target_def
    target_unchanged_def
  by (auto intro!: inside_intros inside_network_snapshot [OF assms] inside_write_loop [OF assms] inside_delete_tables [OF assms]
      inside_target metadata_tx [folded assms] maintain_tx [folded assms])

text \<open>Opening and closing it.\<close>

lemma keeps_rollback_failure:
  assumes "ee_target env = ops"
  shows "keeps_target durable (rollback_network_failure env message result)"
  unfolding rollback_network_failure_def Let_def assms by (intro frame_intros keeps_answered rollback_durable)

lemma keeps_cleanups:
  assumes "ee_target env = ops"
  shows "keeps_target durable (take_cleanup_errors env result)"
  unfolding take_cleanup_errors_def assms by (intro frame_intros keeps_sure cleanup_durable)

lemma keeps_preflight:
  assumes "ee_target env = ops"
  shows "keeps_target durable (network_preflight env plan source target)"
  unfolding network_preflight_def assms by (intro frame_intros keeps_on_target open_durable)

end

subsection \<open>What the verification shows\<close>

lemma equal_loop_cases:
  assumes "equal_loop env a b st = (Inr True, t)"
  obtains (ended) u v a' b' w where "next_row env a u = (Inr (None, a'), v)" "next_row env b v = (Inr (None, b'), w)"
  | (same) u v x y a' b' w bs where "next_row env a u = (Inr (Some x, a'), v)" "next_row env b v = (Inr (Some y, b'), w)"
      "row_canonical_bytes x = Inr bs" "row_canonical_bytes y = Inr bs" "equal_loop env a' b' w = (Inr True, t)"
proof -
  from assms [unfolded equal_loop.simps [of env a b st]]
  obtain u p v q w where n: "next_row env a u = (Inr p, v)" "next_row env b v = (Inr q, w)"
    "(case (fst p, fst q) of (None, None) \<Rightarrow> (Inr True, w)
      | (Some x, Some y) \<Rightarrow> abind (alift (rbind (row_canonical_bytes x) (\<lambda>u. rbind (row_canonical_bytes y) (\<lambda>v. Inr (u = v)))))
          (\<lambda>same st. if same then equal_loop env (snd p) (snd q) st else (Inr False, st)) w
      | _ \<Rightarrow> (Inr False, w)) = (Inr True, t)"
    unfolding abind_Inr by blast
  then show thesis using that by (cases p; cases q; cases "fst p"; cases "fst q") (auto simp: run_simps split: if_splits)
qed

lemma equal_loop_equal:
  "delivers env a xs \<Longrightarrow> delivers env b ys \<Longrightarrow> equal_loop env a b st = (Inr True, t) \<Longrightarrow> xs = ys"
proof (induction xs arbitrary: a b ys st)
  case Nil
  from Nil(3) show ?case
  proof (cases rule: equal_loop_cases)
    case (ended u v a' b' w)
    then show ?thesis using next_row_delivers [OF Nil(2) ended(2)] by (cases ys) auto
  next
    case (same u v x y a' b' w bs)
    then show ?thesis using next_row_delivers [OF Nil(1) same(1)] by simp
  qed
next
  case (Cons r xs)
  from Cons.prems(3) show ?case
  proof (cases rule: equal_loop_cases)
    case (ended u v a' b' w)
    then show ?thesis using next_row_delivers [OF Cons.prems(1) ended(1)] by simp
  next
    case (same u v x y a' b' w bs)
    have x: "x = r" "delivers env a' xs" using next_row_delivers [OF Cons.prems(1) same(1)] by simp_all
    obtain ys' where y: "ys = y # ys'" "delivers env b' ys'"
      using next_row_delivers [OF Cons.prems(2) same(2)] by (cases ys) auto
    have "stored_row r" "stored_row y" using delivers_file Cons.prems(1,2) y(1) by auto
    then have "r = y" using same(3,4) x(1) by (simp add: stored_same_bytes [symmetric])
    then show ?thesis using Cons.IH [OF x(2) y(2) same(5)] y(1) by simp
  qed
qed

lemma sort_compare_equal:
  assumes "aead_ok env" and "holds env taken xs" and "holds env (so_spool expected) ys"
    and "sort_compare env taken expected st = (Inr (True, n), t)"
  shows "mset xs = mset ys"
proof -
  obtain sorted u v w where r: "external_sort env taken st = (Inr sorted, u)"
    "equal_sorted env sorted expected v = (Inr True, w)"
    using assms(4) by (auto simp: sort_compare_def run_simps)
  obtain zs where zs: "holds env (so_spool sorted) zs" "mset zs = mset xs"
    using external_sort_holds [OF assms(1,2) r(1)] by blast
  obtain a b v1 v2 v3 where "open_cursor env (so_spool sorted) v = (Inr a, v1)" "open_cursor env (so_spool expected) v1 = (Inr b, v2)"
    "equal_loop env a b v2 = (Inr True, v3)"
    using r(2) by (auto simp: equal_sorted_def run_simps split: if_splits)
  then have "zs = ys" using equal_loop_equal open_cursor_delivers [OF zs(1)] open_cursor_delivers [OF assms(3)] by blast
  then show ?thesis using zs(2) by simp
qed

text \<open>The snapshot of a session holds what the session delivered.\<close>

definition plain_input :: "snapshot_input \<Rightarrow> bool" where
  "plain_input inp \<longleftrightarrow> si_projected inp = None \<and> si_conversion inp = None"

lemma snapshot_row_plain:
  assumes "plain_input inp" and "aead_ok (ee_spool env)" and "wf_row r" and "writes (ee_spool env) w xs"
    and "snapshot_row env inp r (w, None, p) s = (Inr x, t)"
  shows "\<exists>w' p'. x = (w', None, p') \<and> writes (ee_spool env) w' (xs @ [norm_row r])"
proof -
  obtain w' u v p' where "put (ee_spool env) r w u = (Inr w', v)" "x = (w', None, p')"
    using assms(1,5)
    by (auto simp: snapshot_row_def push_projected_def converted_row_def plain_input_def run_simps)
  then show ?thesis using put_writes [OF assms(2,3,4)] by blast
qed

lemma snapshot_rows_plain:
  "plain_input inp \<Longrightarrow> aead_ok (ee_spool env) \<Longrightarrow> \<forall>r \<in> set rs. wf_row r \<Longrightarrow> writes (ee_spool env) w xs \<Longrightarrow>
     snapshot_rows env inp rs (w, None, p) s = (Inr (w', pw, p'), t) \<Longrightarrow>
     pw = None \<and> writes (ee_spool env) w' (xs @ map norm_row rs)"
proof (induction rs arbitrary: w p xs s)
  case Nil
  then show ?case by (auto simp: run_simps)
next
  case (Cons r rs)
  obtain x u where x: "snapshot_row env inp r (w, None, p) s = (Inr x, u)"
    "snapshot_rows env inp rs x u = (Inr (w', pw, p'), t)"
    using Cons.prems(5) by (auto simp: run_simps)
  obtain w1 p1 where "x = (w1, None, p1)" "writes (ee_spool env) w1 (xs @ [norm_row r])"
    using snapshot_row_plain [OF Cons.prems(1,2) _ Cons.prems(4) x(1)] Cons.prems(3) by auto
  then show ?case using Cons.IH [OF Cons.prems(1,2), of w1 "xs @ [norm_row r]" p1 u] Cons.prems(3) x(2) by simp
qed

lemma network_snapshot_holds:
  assumes "plain_input inp" and "aead_ok (ee_spool env)"
    and "network_snapshot env side inp p s = (Inr (out, q), t)"
  obtains rows n u where "session_stream env side (si_full inp) s = (Inr (rows, Inr n), u)"
    "(\<forall>r \<in> set rows. wf_row r) \<longrightarrow> holds (ee_spool env) (fst out) (map norm_row rows)"
proof -
  obtain rows n u v where r: "session_stream env side (si_full inp) s = (Inr (rows, Inr n), u)"
    "snapshot_worker env inp p rows u = (Inr out, v)"
    using assms(3) by (auto simp: network_snapshot_def run_simps)
  obtain w s1 w' pw p0 p' s2 s3 h s4 s5 s6 where k: "seed_writer (ee_spool env) inp s5 = (Inr w, s6)"
    "snapshot_rows env inp rows (w, None, p0) s1 = (Inr (w', pw, p'), s2)"
    "finish_writer (ee_spool env) w' s3 = (Inr h, s4)" "fst out = h"
    using r(2) assms(1)
    by (auto simp: snapshot_worker_def plain_input_def run_simps finish_projected_def split: option.splits)
  have "writes (ee_spool env) w []"
    using k(1) by (auto simp: seed_writer_def handle_writer_def intro: writer_new_writes split: option.splits)
  then have "holds (ee_spool env) (fst out) (map norm_row rows)" if "\<forall>r \<in> set rows. wf_row r"
    using snapshot_rows_plain [OF assms(1,2) that _ k(2)] finish_holds k(3,4) by fastforce
  then show thesis using that r(1) by blast
qed

lemma on_target_Inr [run_simps]:
  "on_target m s = (Inr x, t) \<longleftrightarrow> (\<exists>u. m (xs_target s) = (Inr x, u) \<and> t = s\<lparr>xs_target := u\<rparr>)"
  by (auto simp: on_target_def split: prod.splits)

text \<open>The projected rows of the target, in their normal form.\<close>

definition final_rows ::
    "(projection list \<Rightarrow> 'c \<Rightarrow> canonical_row multiset) \<Rightarrow> validated_mapping \<Rightarrow> 'c \<Rightarrow> canonical_row multiset" where
  "final_rows rows_of mapping c = image_mset norm_row (rows_of (projections mapping False) c)"

text \<open>What a result claims, against what has happened to the durable content.\<close>

definition outcome_sound ::
    "(projection list \<Rightarrow> 'c \<Rightarrow> canonical_row multiset) \<Rightarrow> stored_plan \<Rightarrow> canonical_row list \<Rightarrow> 'c \<Rightarrow> 'c \<Rightarrow> data_task_result \<Rightarrow> bool" where
  "outcome_sound rows_of plan es before after r \<longleftrightarrow>
     (case res_commit_state r of
        Committed \<Rightarrow> res_status r = Succeeded \<and> res_error r = None \<and> requires_target_refresh r
          \<and> final_rows rows_of (sp_mapping plan) after = mset es
      | CommitUnknown \<Rightarrow> res_status r = OutcomeUnknown \<and> res_error r \<noteq> None \<and> requires_target_refresh r
      | CommitPartial \<Rightarrow> False
      | _ \<Rightarrow> res_status r \<in> {Failed, Cancelled} \<and> res_error r \<noteq> None \<and> after = before)"

lemma outcome_cleanup: "outcome_sound rows_of plan es a b (r\<lparr>cleanup_errors := x\<rparr>) = outcome_sound rows_of plan es a b r"
  by (simp add: outcome_sound_def split: data_commit_state.split)

lemma on_res_cancelled:
  obtains c u where "on_res cancelled s = (Inr c, s\<lparr>xs_res := u\<rparr>)"
  by (auto simp: on_res_def cancelled_def)

lemma answered_eq:
  "answered ops m s = (Inr (ss_answers ops (xs_target s) \<and> is_ok (fst (m (xs_target s)))), s\<lparr>xs_target := snd (m (xs_target s))\<rparr>)"
  by (simp add: answered_def on_target_def)

lemma emit_eq: obtains q us where "emit env ph force p s = (Inr q, s\<lparr>xs_updates := us\<rparr>)"
proof -
  have "s = s\<lparr>xs_updates := xs_updates s\<rparr>" by simp
  then show thesis using that unfolding emit_def Let_def by (metis (full_types))
qed

context data_session begin

lemma session_stream_target:
  assumes "ee_target env = ops" and "session_stream env False ps s = (Inr (rows, Inr n), t)"
  shows "visible (xs_target t) = visible (xs_target s) \<and> mset rows = rows_of ps (visible (xs_target s))
    \<and> ((\<forall>p \<in> set ps. valid_utf8 (pj_output p)) \<longrightarrow> (\<forall>r \<in> set rows. wf_row r))"
proof -
  obtain db where db: "ss_stream ops ps (xs_target s) = ((rows, Inr n), db)" "t = s\<lparr>xs_target := db\<rparr>"
    using assms by (auto simp: session_stream_def sure_def run_simps split: prod.splits)
  then show ?thesis using stream_rows [OF db(1)] stream_wf [OF db(1)] by simp
qed

lemma verify_target_equal:
  assumes "ee_target env = ops" and "aead_ok (ee_spool env)"
    and "holds (ee_spool env) (so_spool (sp_expected plan)) es"
    and "verify_target env plan p s = (Inr q, t)"
    and "\<forall>m \<in> set (vm_tables (sp_mapping plan)). valid_utf8 (vt_target m)"
  shows "final_rows rows_of (sp_mapping plan) (visible (xs_target t)) = mset es"
proof -
  let ?inp = "seeded_input (projections (sp_mapping plan) False) (so_spool (sp_expected plan))
    (sp_budget (h_inner (so_spool (sp_target_full plan)))) Verifying"
  obtain p1 s1 s2 out p2 u0 n u where r: "network_snapshot env False ?inp p1 s1 = (Inr (out, p2), s2)"
    "sort_compare (ee_spool env) (fst out) (sp_expected plan) u0 = (Inr (True, n), u)"
    "xs_target t = xs_target s2"
    using assms(4) unfolding verify_target_def
    by (clarsimp simp: run_simps)
  have plain: "plain_input ?inp" by (simp add: plain_input_def seeded_input_def)
  obtain rows k s4 where st: "session_stream env False (si_full ?inp) s1 = (Inr (rows, Inr k), s4)"
    "(\<forall>r \<in> set rows. wf_row r) \<longrightarrow> holds (ee_spool env) (fst out) (map norm_row rows)"
    by (rule network_snapshot_holds [OF plain assms(2) r(1)])
  have "\<forall>q \<in> set (si_full ?inp). valid_utf8 (pj_output q)"
    using assms(5) by (auto simp: seeded_input_def projections_def)
  note stream = session_stream_target [OF assms(1) st(1)] this
  have "xs_target s2 = xs_target s4"
    using r(1) st(1) keepsD [OF keeps_snapshot_worker, where f = id]
    by (auto simp: network_snapshot_def run_simps)
  moreover have "mset (map norm_row rows) = mset es"
    using sort_compare_equal [OF assms(2) _ assms(3) r(2)] st(2) stream by blast
  ultimately show ?thesis
    using stream r(3) by (simp add: final_rows_def seeded_input_def)
qed

lemma network_work_verified:
  assumes "ee_target env = ops" and "aead_ok (ee_spool env)"
    and "holds (ee_spool env) (so_spool (sp_expected plan)) es"
    and "network_work env identity plan p s = (Inr q, t)"
    and "\<forall>m \<in> set (vm_tables (sp_mapping plan)). valid_utf8 (vt_target m)"
  shows "final_rows rows_of (sp_mapping plan) (visible (xs_target t)) = mset es"
proof -
  obtain p1 s1 q1 t1 where "verify_target env plan p1 s1 = (Inr q1, t1)" "xs_target t = xs_target t1"
  proof -
    obtain p2 s2 s3 p3 s4 where w: "execute_network_transaction env identity plan p s = (Inr p2, s2)"
      "emit (ee_spool env) Committing True p2 s2 = (Inr p3, s3)" "xs_target t = xs_target s3"
      using assms(4) unfolding network_work_def by (clarsimp simp: run_simps)
    then have t: "xs_target t = xs_target s2" using keepsD [OF keeps_emit, where f = id] by fastforce
    have "\<exists>p1 s1. verify_target env plan p1 s1 = (Inr p2, s2)"
      using w(1) unfolding execute_network_transaction_def abind_Inr by blast
    then show thesis using that t by blast
  qed
  then show ?thesis using verify_target_equal [OF assms(1-3) _ assms(5)] by metis
qed

lemma take_cleanup_run:
  assumes "ee_target env = ops" and "take_cleanup_errors env r s = (x, t)"
  shows "\<exists>es. x = Inr (r\<lparr>cleanup_errors := es\<rparr>) \<and> durable (xs_target t) = durable (xs_target s)"
proof -
  have "durable (xs_target t) = durable (xs_target s)" by (rule keepsD [OF keeps_cleanups [OF assms(1)] assms(2)])
  then show ?thesis
    using assms(2) by (auto simp: take_cleanup_errors_def abind_def on_target_def sure_def areturn_def split: prod.splits)
qed

lemma rollback_failure_run:
  assumes "ee_target env = ops"
    and "rollback_network_failure env message (first_result plan) s = (x, t)"
  shows "\<exists>r. x = Inr r \<and> outcome_sound rows_of plan es (durable (xs_target s)) (durable (xs_target t)) r"
proof -
  have "durable (xs_target t) = durable (xs_target s)"
    by (rule keepsD [OF keeps_rollback_failure [OF assms(1)] assms(2)])
  moreover obtain c u where c: "on_res cancelled s = (Inr c, s\<lparr>xs_res := u\<rparr>)" using on_res_cancelled .
  moreover obtain db ok where ok: "answered (ee_target env) (ss_rollback (ee_target env)) (s\<lparr>xs_res := u\<rparr>)
      = (Inr ok, s\<lparr>xs_res := u, xs_target := db\<rparr>)"
    using answered_eq [of "ee_target env" "ss_rollback (ee_target env)" "s\<lparr>xs_res := u\<rparr>"] by simp
  moreover obtain c' u' where "on_res cancelled (s\<lparr>xs_res := u, xs_target := db\<rparr>)
      = (Inr c', s\<lparr>xs_res := u, xs_target := db\<rparr>\<lparr>xs_res := u'\<rparr>)" using on_res_cancelled .
  ultimately show ?thesis using assms(2)
    by (cases ok) (auto simp: rollback_network_failure_def abind_def areturn_def Let_def first_result_def outcome_sound_def)
qed

lemma commit_run:
  assumes "ee_target env = ops"
    and "final_rows rows_of (sp_mapping plan) (visible (xs_target s)) = mset es"
    and "commit_network env p (first_result plan) s = (x, t)"
  shows "\<exists>r. x = Inr r \<and> outcome_sound rows_of plan es (durable (xs_target s)) (durable (xs_target t)) r"
proof -
  obtain y db where c: "ss_commit (ee_target env) (xs_target s) = (y, db)" by fastforce
  show ?thesis
  proof (cases "ss_answers (ee_target env) (xs_target s) \<and> is_ok y")
    case True
    then have "durable db = visible (xs_target s)" using c commit_visible assms(1) by (auto simp: is_ok_iff)
    moreover have "xs_target t = db \<and> x = Inr ((first_result plan)\<lparr>res_status := Succeeded, res_commit_state := Committed,
        requires_target_refresh := True\<rparr>)"
      by (rule emit_eq [of "ee_spool env" Succeeded True p "s\<lparr>xs_target := db\<rparr>"])
        (use assms(3) True c in \<open>auto simp: commit_network_def answered_eq abind_def areturn_def\<close>)
    ultimately show ?thesis using assms(2) by (simp add: outcome_sound_def first_result_def)
  next
    case False
    then show ?thesis using assms(3) c
      by (auto simp: commit_network_def answered_eq abind_def areturn_def outcome_sound_def first_result_def)
  qed
qed

lemma after_cleanup:
  assumes "ee_target env = ops"
    and "\<exists>r. y = Inr r \<and> outcome_sound rows_of plan es c (durable (xs_target s)) r"
    and "(case y of Inl e \<Rightarrow> (Inl e, s) | Inr r \<Rightarrow> take_cleanup_errors env r s) = (x, t)"
  shows "\<exists>r. x = Inr r \<and> outcome_sound rows_of plan es c (durable (xs_target t)) r"
proof -
  obtain r where r: "y = Inr r" "outcome_sound rows_of plan es c (durable (xs_target s)) r" using assms(2) by blast
  then have "take_cleanup_errors env r s = (x, t)" using assms(3) by simp
  from take_cleanup_run [OF assms(1) this] r(2) show ?thesis by (auto simp: outcome_cleanup)
qed

lemma protected_run:
  assumes "ee_target env = ops" and "aead_ok (ee_spool env)"
    and "holds (ee_spool env) (so_spool (sp_expected plan)) es"
    and "\<forall>m \<in> set (vm_tables (sp_mapping plan)). valid_utf8 (vt_target m)"
    and "network_protected env plan p s = (x, t)"
  shows "\<exists>r. x = Inr r \<and> outcome_sound rows_of plan es (durable (xs_target s)) (durable (xs_target t)) r"
proof -
  let ?opening = "on_target (ss_begin_protected_write (ee_target env) (insert_order (sp_mapping plan)))"
  obtain y s1 where began: "?opening s = (y, s1)" by fastforce
  have s1: "durable (xs_target s1) = durable (xs_target s)"
    by (rule keepsD [OF keeps_on_target began]) (simp add: assms(1) protected_durable)
  show ?thesis
  proof (cases y)
    case (Inl message)
    obtain z s2 where z: "rollback_network_failure env message (first_result plan) s1 = (z, s2)" by fastforce
    have "(case z of Inl e \<Rightarrow> (Inl e, s2) | Inr r \<Rightarrow> take_cleanup_errors env r s2) = (x, t)"
      using assms(5) began Inl z by (simp add: network_protected_def abind_def attempt_def)
    from after_cleanup [OF assms(1) rollback_failure_run [OF assms(1) z] this] show ?thesis using s1 by simp
  next
    case (Inr unit)
    have opened: "opened (xs_target s1)"
      using began Inr protected_open assms(1) by (auto simp: on_target_def split: prod.splits)
    show ?thesis
    proof (cases "ss_identity (ee_source env) (xs_source s1)")
      case None
      obtain z s2 where z: "on_target (ss_rollback (ee_target env)) s1 = (z, s2)" by fastforce
      have "durable (xs_target s2) = durable (xs_target s1)"
        by (rule keepsD [OF keeps_on_target z]) (simp add: assms(1) rollback_durable)
      then show ?thesis using assms(5) began Inr None z s1
        by (auto simp: network_protected_def abind_def attempt_def on_source_def aget_def areturn_def
            outcome_sound_def first_result_def)
    next
      case (Some identity)
      have source: "on_source (aget (ss_identity (ee_source env))) s1 = (Inr (Some identity), s1)"
        using Some by (simp add: on_source_def aget_def)
      obtain w s2 where w: "network_work env identity plan p s1 = (w, s2)" by fastforce
      have s2: "durable (xs_target s2) = durable (xs_target s1)"
        by (rule insideD(1) [OF inside_work [OF assms(1)] w opened])
      let ?close = "case w of Inl message \<Rightarrow> rollback_network_failure env message (first_result plan)
        | Inr q \<Rightarrow> commit_network env q (first_result plan)"
      obtain z s3 where z: "?close s2 = (z, s3)" by fastforce
      have "(case z of Inl e \<Rightarrow> (Inl e, s3) | Inr r \<Rightarrow> take_cleanup_errors env r s3) = (x, t)"
        using assms(5) began Inr source w z by (simp add: network_protected_def abind_def attempt_def)
      moreover have "\<exists>r. z = Inr r \<and> outcome_sound rows_of plan es (durable (xs_target s2)) (durable (xs_target s3)) r"
      proof (cases w)
        case (Inl message)
        then show ?thesis using rollback_failure_run [OF assms(1)] z by simp
      next
        case (Inr q)
        then show ?thesis
          using commit_run [OF assms(1) network_work_verified [OF assms(1-3) w [unfolded Inr] assms(4)]] z by simp
      qed
      ultimately show ?thesis using after_cleanup [OF assms(1)] s1 s2 by simp
    qed
  qed
qed

lemma execute_network_run:
  assumes "ee_target env = ops" and "aead_ok (ee_spool env)"
    and "holds (ee_spool env) (so_spool (sp_expected plan)) es"
    and "\<forall>m \<in> set (vm_tables (sp_mapping plan)). valid_utf8 (vt_target m)"
    and "execute_network env plan source target s = (x, t)"
  shows "\<exists>r. x = Inr r \<and> outcome_sound rows_of plan es (durable (xs_target s)) (durable (xs_target t)) r"
proof -
  obtain p u where p: "on_res (new_progress (ee_spool env)) s = (Inr p, s\<lparr>xs_res := u\<rparr>)"
  proof
    have "s = s\<lparr>xs_res := xs_res s\<rparr>" by simp
    then show "on_res (new_progress (ee_spool env)) s
        = (Inr (fst (sum.projr (fst (new_progress (ee_spool env) (xs_res s))), ())), s\<lparr>xs_res := xs_res s\<rparr>)"
      by (simp add: on_res_def new_progress_def aget_def)
  qed
  obtain y s1 where pre: "network_preflight env plan source target (s\<lparr>xs_res := u\<rparr>) = (y, s1)" by fastforce
  have s1: "durable (xs_target s1) = durable (xs_target s)"
    using keepsD [OF keeps_preflight [OF assms(1)] pre] by simp
  show ?thesis
  proof (cases y)
    case (Inl e)
    obtain c v where "on_res cancelled s1 = (Inr c, s1\<lparr>xs_res := v\<rparr>)" using on_res_cancelled .
    then show ?thesis
      using assms(5) p pre s1 Inl
      by (auto simp: execute_network_def abind_def attempt_def areturn_def outcome_sound_def first_result_def)
  next
    case (Inr _)
    then have run: "network_protected env plan p s1 = (x, t)"
      using assms(5) p pre by (simp add: execute_network_def abind_def attempt_def)
    show ?thesis using protected_run [OF assms(1-4) run] s1 by simp
  qed
qed

end

text \<open>
  A session over a list of rows, for the witness only: the durable rows and the visible ones.
\<close>

type_synonym store = "canonical_row list \<times> canonical_row list"

definition store_ops :: "string \<Rightarrow> store session_ops" where
  "store_ops name = \<lparr>ss_dialect = DPostgres, supports_transaction = True,
     ss_identity = (\<lambda>_. Some \<lparr>ei_database_type = Postgres, ei_instance = Some name, ei_database = ''db'', sqlite_path = None\<rparr>),
     ss_cleanup_errors = (\<lambda>db. ([], db)), ss_open = (\<lambda>_ _ db. (Inr (), db)), ss_begin_read = (\<lambda>db. (Inr (), db)),
     ss_begin_protected_write = (\<lambda>_ db. (Inr (), db)), ss_load_metadata = (\<lambda>db. (Inr plan_metadata, db)),
     ss_stream = (\<lambda>ps db. let rows = filter (\<lambda>r. wf_row r \<and> row_table r \<in> set (map pj_table ps)) (snd db) in
       ((rows, Inr (length rows)), db)),
     ss_write_batch = (\<lambda>_ db. (Inl ''no batches'', db)),
     ss_delete_all = (\<lambda>t db. (Inr (length (filter (\<lambda>r. row_table r = t) (snd db))),
       (fst db, filter (\<lambda>r. row_table r \<noteq> t) (snd db)))),
     ss_maintain_generators = (\<lambda>_ db. (Inr (), db)), ss_commit = (\<lambda>db. (Inr (), (snd db, snd db))),
     ss_rollback = (\<lambda>db. (Inr (), (fst db, fst db))), ss_answers = (\<lambda>_. True)\<rparr>"

definition stored_rows :: "projection list \<Rightarrow> canonical_row list \<Rightarrow> canonical_row multiset" where
  "stored_rows ps c = mset (filter (\<lambda>r. wf_row r \<and> row_table r \<in> set (map pj_table ps)) c)"

interpretation store: data_session "store_ops name" fst snd "\<lambda>_. True" stored_rows
  by unfold_locales (auto simp: store_ops_def stored_rows_def inside_tx_def Let_def)

definition store_env :: "store exec_env" where
  "store_env = \<lparr>ee_plan = plain_plan_env, ee_source = store_ops ''a'', ee_target = store_ops ''b'',
     ee_fingerprint = (\<lambda>_. []), ee_calendar = (\<lambda>_ _ _. True), ee_canonicalize = Some, ee_value_size = 48,
     ee_same_file = (\<lambda>_ _. Some False)\<rparr>"

text \<open>A replacement of an empty table by an empty table; another table of the target has a row.\<close>

definition empty_plan :: "sorted_spool \<Rightarrow> stored_plan" where
  "empty_plan so = \<lparr>sp_request = plan_request\<lparr>req_kind := Transfer, req_mode := Replace\<rparr>, sp_mapping = plan_mapping,
     sp_preview = plan_preview [] [] 0 plan_request [] [] (so_spool so) (so_spool so), sp_source = so, sp_target = so,
     sp_target_full = so, sp_operations = so_spool so, sp_expected = so, sp_source_metadata = plan_metadata,
     sp_target_metadata = plan_metadata\<rparr>"

definition other_row :: canonical_row where
  "other_row = (tiny_row True)\<lparr>row_table := ''u''\<rparr>"

definition store_state :: "resources \<Rightarrow> store exec_state" where
  "store_state st = \<lparr>xs_res = st, xs_source = ([], []), xs_target = ([other_row], [other_row]), xs_updates = []\<rparr>"

text \<open>For evaluation, see \<open>Actions\<close>.\<close>

lemmas execute_run [code] = delete_tables.simps [THEN fun_cong] target_unchanged_def [THEN fun_cong]
  write_changes_def [THEN fun_cong] verify_target_def [THEN fun_cong]
  execute_network_transaction_def [THEN fun_cong] answered_def [THEN fun_cong]
  rollback_network_failure_def [THEN fun_cong] take_cleanup_errors_def [THEN fun_cong]
  plan_fresh_def [THEN fun_cong] network_preflight_def [THEN fun_cong] commit_network_def [THEN fun_cong]
  network_work_def [THEN fun_cong] network_protected_def [THEN fun_cong] execute_network_def [THEN fun_cong]

definition empty_sorted :: "sorted_spool task_action" where
  "empty_sorted = abind (write_snapshot plain_env default_budget []) (external_sort plain_env)"

lemma empty_run: "wp empty_sorted (\<lambda>so t. wp (execute_network store_env (empty_plan so) (example_config ''a'' []) (example_config ''b'' []))
    (\<lambda>r _. res_commit_state r = Committed) (\<lambda>_ _. False) (store_state t)) (\<lambda>_ _. False) (new_resources None)"
  by code_simp

text \<open>
  C32. A task tells the truth about its target: every execution ends with a result; when it reports
  a commit, the mapped rows of the target are exactly the expected rows of the plan; when it reports
  that nothing was written or that it was rolled back, the durable content is what it was; in every
  other case it reports an unknown outcome and asks for the target to be read again.
\<close>

theorem execution_outcome:
  assumes "data_session (ee_target env) durable visible opened rows_of" and "aead_ok (ee_spool env)"
    and "holds (ee_spool env) (so_spool (sp_expected plan)) es"
    and "\<forall>m \<in> set (vm_tables (sp_mapping plan)). valid_utf8 (vt_target m)"
    and "execute_network env plan source target s = (x, t)"
  shows "\<exists>r. x = Inr r \<and> outcome_sound rows_of plan es (durable (xs_target s)) (durable (xs_target t)) r"
  by (rule data_session.execute_network_run [OF assms(1) refl assms(2-5)])

theorem execution_outcome_witness:
  "\<exists>so t r u. empty_sorted (new_resources None) = (Inr so, t)
     \<and> execute_network store_env (empty_plan so) (example_config ''a'' []) (example_config ''b'' []) (store_state t) = (Inr r, u)
     \<and> res_commit_state r = Committed \<and> final_rows stored_rows plan_mapping (fst (xs_target u)) = {#}"
proof -
  obtain so t r u where run: "empty_sorted (new_resources None) = (Inr so, t)"
    "execute_network store_env (empty_plan so) (example_config ''a'' []) (example_config ''b'' []) (store_state t) = (Inr r, u)"
    "res_commit_state r = Committed"
    using empty_run by (blast dest!: wp_returns)
  obtain h v where h: "write_snapshot plain_env default_budget [] (new_resources None) = (Inr h, v)"
    "external_sort plain_env h v = (Inr so, t)"
    using run(1) by (auto simp: empty_sorted_def run_simps)
  have "holds plain_env h []" using write_snapshot_holds [OF plain_env_ok _ h(1)] by simp
  then have "holds plain_env (so_spool so) []" using external_sort_holds [OF plain_env_ok _ h(2)] by fastforce
  then have es: "holds (ee_spool store_env) (so_spool (sp_expected (empty_plan so))) []"
    by (simp add: store_env_def plain_plan_env_def empty_plan_def)
  have ok: "data_session (ee_target store_env) fst snd (\<lambda>_. True) stored_rows" "aead_ok (ee_spool store_env)"
    using store.data_session_axioms plain_env_ok by (simp_all add: store_env_def plain_plan_env_def)
  have "sp_mapping (empty_plan so) = plan_mapping" by (simp add: empty_plan_def)
  moreover have "\<forall>m \<in> set (vm_tables plan_mapping). valid_utf8 (vt_target m)" by code_simp
  ultimately show ?thesis using execution_outcome [OF ok es _ run(2)] run
    by (auto simp: outcome_sound_def)
qed

end
