(* ===== verification/Sqlite_Adapter.thy ===== *)
theory Sqlite_Adapter
  imports Session
begin

text \<open>
  The SQLite side of the data tasks (\<open>src-tauri/src/db/data\_tasks/adapters/sqlite.rs\<close>): reading the
  structure of a database from the rows of four catalogue queries, the text of the snapshot query, the
  rows it gives and the values that are bound. The driver \<open>rusqlite\<close> is a parameter: a record of
  actions on a connection.
\<close>

subsection \<open>The driver\<close>

text \<open>
  A value of SQLite by its storage class. A \<open>REAL\<close> is given by its bits and a \<open>TEXT\<close> by its bytes,
  which need not be UTF-8.
\<close>

datatype sqlite_value = SqlNull | SqlInteger "64 word" | SqlReal "64 word" | SqlText string | SqlBlob bytes

text \<open>The rows of the catalogue queries, with the types \<open>row.get\<close> asks for.\<close>

record sqlite_column_row =
  qc_table :: string
  qc_sql :: string
  qc_kind :: string
  qc_without_rowid :: int
  qc_name :: string
  qc_type :: string
  qc_not_null :: int
  qc_default :: "string option"
  qc_pk :: nat
  qc_hidden :: int

record sqlite_foreign_row =
  qf_table :: string
  qf_id :: int
  qf_parent :: string
  qf_from :: string
  qf_to :: "string option"
  qf_update :: string
  qf_delete :: string

record sqlite_schema_row =
  qs_kind :: string
  qs_name :: string
  qs_table :: string
  qs_sql :: string

record sqlite_index_row =
  qi_table :: string
  qi_origin :: string
  qi_column :: "string option"
  qi_collation :: "string option"
  qi_key :: int

text \<open>A row of the snapshot query: the number of its table, its cells, and whether it was withheld.\<close>

record raw_row =
  rr_table :: nat
  rr_cells :: "sqlite_value list"
  rr_oversized :: int

text \<open>
  A query that is iterated gives the rows before its end, and how it ended; the catalogue queries are
  of use only as a whole. \<open>sq\_execute\_batch\<close> is given the text of the statements.
\<close>

record 'db sqlite_ops =
  sq_open :: "string \<Rightarrow> bool \<Rightarrow> ('db, unit) action"
  sq_busy_timeout :: "nat \<Rightarrow> ('db, unit) action"
  sq_watch_cancel :: "('db, unit) action"
  sq_ignore_cancel :: "('db, unit) action"
  sq_execute_batch :: "string \<Rightarrow> ('db, unit) action"
  sq_execute :: "string \<Rightarrow> sqlite_value list \<Rightarrow> ('db, nat) action"
  sq_query :: "string \<Rightarrow> 'db \<Rightarrow> (raw_row list \<times> unit result) \<times> 'db"
  sq_columns :: "('db, sqlite_column_row list) action"
  sq_foreign_keys :: "('db, sqlite_foreign_row list) action"
  sq_schema :: "('db, sqlite_schema_row list) action"
  sq_indexes :: "('db, sqlite_index_row list) action"
  sq_autocommit :: "'db \<Rightarrow> bool"

definition SQLITE_ERROR :: err where
  "SQLITE_ERROR = ''the SQLite operation of the data task failed''"

text \<open>The errors of the driver are replaced by one that shows nothing.\<close>

definition or_error :: "err \<Rightarrow> ('s, 'a) action \<Rightarrow> ('s, 'a) action" where
  "or_error e m s = (case m s of (Inl _, t) \<Rightarrow> (Inl e, t) | (Inr x, t) \<Rightarrow> (Inr x, t))"

definition sqlite_open :: "'db sqlite_ops \<Rightarrow> string \<Rightarrow> bool \<Rightarrow> ('db, unit) action" where
  "sqlite_open ops path write =
     abind (or_error SQLITE_ERROR (sq_open ops path write)) (\<lambda>_.
     abind (or_error SQLITE_ERROR (sq_busy_timeout ops 10000)) (\<lambda>_.
     abind (or_error SQLITE_ERROR (sq_watch_cancel ops)) (\<lambda>_.
       or_error SQLITE_ERROR (sq_execute_batch ops ''PRAGMA foreign_keys = ON''))))"

subsection \<open>Ordered maps\<close>

text \<open>A \<open>BTreeMap\<close> is the list of its entries in the order of the keys.\<close>

fun btree_entry :: "'k::linorder \<Rightarrow> 'v \<Rightarrow> ('v \<Rightarrow> 'v) \<Rightarrow> ('k \<times> 'v) list \<Rightarrow> ('k \<times> 'v) list" where
  "btree_entry k d f [] = [(k, f d)]"
| "btree_entry k d f ((k', v) # m) =
     (if k = k' then (k', f v) # m
      else if k < k' then (k, f d) # (k', v) # m
      else (k', v) # btree_entry k d f m)"

definition btree_update :: "'k \<Rightarrow> ('v \<Rightarrow> 'v) \<Rightarrow> ('k \<times> 'v) list \<Rightarrow> ('k \<times> 'v) list" where
  "btree_update k f m = map (\<lambda>(k', v). (k', if k' = k then f v else v)) m"

subsection \<open>The structure of a database\<close>

type_synonym sqlite_tables = "(string \<times> data_table) list"
type_synonym declared_nullable = "((string \<times> string) \<times> bool) list"

definition is_rowid_type :: "sqlite_column_row \<Rightarrow> bool" where
  "is_rowid_type r \<longleftrightarrow> 0 < qc_pk r \<and> eq_ignore_ascii_case (qc_type r) ''INTEGER'' \<and> qc_without_rowid r = 0"

definition declares_nullable :: "sqlite_column_row \<Rightarrow> bool" where
  "declares_nullable r \<longleftrightarrow> qc_not_null r = 0 \<and> \<not> (qc_without_rowid r \<noteq> 0 \<and> 0 < qc_pk r)"

definition sqlite_column :: "sqlite_column_row \<Rightarrow> data_column" where
  "sqlite_column r = \<lparr>col_name = qc_name r, declared_type = qc_type r,
     nullable = (declares_nullable r \<and> \<not> is_rowid_type r), default_sql = qc_default r,
     generated = (qc_hidden r \<noteq> 0), primary_key_ordinal = qc_pk r, collation = Some ''BINARY'',
     identity_col = is_rowid_type r, generator_safe = is_rowid_type r\<rparr>"

definition new_table :: "sqlite_column_row \<Rightarrow> data_table" where
  "new_table r = \<lparr>tab_name = qc_table r, create_sql = qc_sql r, tab_columns = [], foreign_keys = [],
     enabled_user_triggers = False, physical = (qc_kind r = ''table'')\<rparr>"

definition add_column :: "sqlite_column_row \<Rightarrow> sqlite_tables \<times> declared_nullable \<Rightarrow> sqlite_tables \<times> declared_nullable" where
  "add_column r acc =
     (btree_entry (qc_table r) (new_table r)
        (\<lambda>t. t\<lparr>tab_columns := tab_columns t @ [sqlite_column r]\<rparr>) (fst acc),
      ((qc_table r, qc_name r), declares_nullable r) # snd acc)"

text \<open>Every column of a table was entered with its table; the index operator does not panic.\<close>

definition nullable_of :: "declared_nullable \<Rightarrow> string \<Rightarrow> string \<Rightarrow> bool" where
  "nullable_of declared t c = (case map_of declared (t, c) of Some b \<Rightarrow> b | None \<Rightarrow> False)"

definition no_identity :: "declared_nullable \<Rightarrow> string \<Rightarrow> data_column \<Rightarrow> data_column" where
  "no_identity declared t c = (if identity_col c
     then c\<lparr>identity_col := False, generator_safe := False, nullable := nullable_of declared t (col_name c)\<rparr> else c)"

definition composite_keys :: "declared_nullable \<Rightarrow> data_table \<Rightarrow> data_table" where
  "composite_keys declared t = (if length (filter (\<lambda>c. 0 < primary_key_ordinal c) (tab_columns t)) \<noteq> 1
     then t\<lparr>tab_columns := map (no_identity declared (tab_name t)) (tab_columns t)\<rparr> else t)"

definition add_foreign_key ::
    "sqlite_foreign_row \<Rightarrow> ((string \<times> int) \<times> data_foreign_key) list \<Rightarrow> ((string \<times> int) \<times> data_foreign_key) list" where
  "add_foreign_key r m = btree_entry (qf_table r, qf_id r)
     \<lparr>from_columns = [], parent_table = qf_parent r, parent_columns = [], on_update = qf_update r, on_delete = qf_delete r\<rparr>
     (\<lambda>fk. fk\<lparr>from_columns := from_columns fk @ [qf_from r],
        parent_columns := parent_columns fk @ [unwrap_or '''' (qf_to r)]\<rparr>) m"

definition place_foreign_key :: "(string \<times> int) \<times> data_foreign_key \<Rightarrow> sqlite_tables \<Rightarrow> sqlite_tables" where
  "place_foreign_key e = btree_update (fst (fst e)) (\<lambda>t. t\<lparr>foreign_keys := foreign_keys t @ [snd e]\<rparr>)"

text \<open>The triggers and the declarations of the indexes; what is hashed for the signature.\<close>

definition schema_bytes :: "sqlite_schema_row \<Rightarrow> bytes" where
  "schema_bytes r = concat (map (\<lambda>part. field (as_bytes part)) [qs_kind r, qs_name r, qs_table r, qs_sql r])"

definition note_schema :: "sqlite_schema_row \<Rightarrow> sqlite_tables \<Rightarrow> sqlite_tables" where
  "note_schema r m =
     (let m = (if qs_kind r = ''trigger'' then btree_update (qs_table r) (\<lambda>t. t\<lparr>enabled_user_triggers := True\<rparr>) m else m)
      in if qs_kind r = ''index'' then btree_update (qs_table r)
           (\<lambda>t. t\<lparr>create_sql := create_sql t @ ''\<newline>-- index: '' @ qs_sql r\<rparr>) m else m)"

fun change_first :: "('a \<Rightarrow> bool) \<Rightarrow> ('a \<Rightarrow> 'a) \<Rightarrow> 'a list \<Rightarrow> 'a list" where
  "change_first p f [] = []"
| "change_first p f (x # xs) = (if p x then f x # xs else x # change_first p f xs)"

definition note_index :: "declared_nullable \<Rightarrow> sqlite_index_row \<Rightarrow> sqlite_tables \<Rightarrow> sqlite_tables" where
  "note_index declared r m = (if qi_origin r = ''pk'' \<and> qi_key r \<noteq> 0
     then btree_update (qi_table r) (\<lambda>t. t\<lparr>tab_columns := change_first (\<lambda>c. Some (col_name c) = qi_column r)
       (\<lambda>c. no_identity declared (qi_table r) (c\<lparr>collation := qi_collation r\<rparr>)) (tab_columns t)\<rparr>) m
     else m)"

definition sqlite_tables_of ::
    "sqlite_column_row list \<Rightarrow> sqlite_foreign_row list \<Rightarrow> sqlite_schema_row list \<Rightarrow> sqlite_index_row list \<Rightarrow> data_table list" where
  "sqlite_tables_of cs fs ss ks =
     (let (tables, declared) = fold add_column cs ([], []);
          tables = map (\<lambda>(k, t). (k, composite_keys declared t)) tables;
          tables = fold place_foreign_key (fold add_foreign_key fs []) tables;
          tables = fold note_schema ss tables;
          tables = fold (note_index declared) ks tables
      in map snd tables)"

definition sqlite_signature :: "(bytes \<Rightarrow> string) \<Rightarrow> sqlite_schema_row list \<Rightarrow> string" where
  "sqlite_signature sha256_hex ss = sha256_hex (concat (map schema_bytes ss))"

definition sqlite_load ::
    "(bytes \<Rightarrow> string) \<Rightarrow> 'db sqlite_ops \<Rightarrow> ('db, data_table list \<times> string) action" where
  "sqlite_load sha256_hex ops =
     abind (or_error SQLITE_ERROR (sq_columns ops)) (\<lambda>cs.
     abind (or_error SQLITE_ERROR (sq_foreign_keys ops)) (\<lambda>fs.
     abind (or_error SQLITE_ERROR (sq_schema ops)) (\<lambda>ss.
     abind (or_error SQLITE_ERROR (sq_indexes ops)) (\<lambda>ks.
       areturn (sqlite_tables_of cs fs ss ks, sqlite_signature sha256_hex ss)))))"

subsection \<open>The snapshot query\<close>

abbreviation sqlite_id :: "string \<Rightarrow> string" where
  "sqlite_id \<equiv> identifier_sql DSqlite"

lemma longest_less: "x \<in> set xs \<Longrightarrow> length x < Suc (fold max (map length xs) 0)" for xs :: "'a list list"
proof -
  have *: "m \<le> fold max ns m" "n \<in> set ns \<Longrightarrow> n \<le> fold max ns m" for ns :: "nat list" and n m
    by (induction ns arbitrary: m) (auto intro: order_trans [OF max.cobounded2] order_trans [OF max.cobounded1])
  show "x \<in> set xs \<Longrightarrow> length x < Suc (fold max (map length xs) 0)"
    using *(2) [of "length x" "map length xs" 0] by simp
qed

text \<open>Underscores are added until the name differs from every column, however it is spelt.\<close>

function fresh_alias :: "string list \<Rightarrow> string \<Rightarrow> string" where
  "fresh_alias names name = (if \<exists>c \<in> set names. eq_ignore_ascii_case c name
     then fresh_alias names (name @ ''_'') else name)"
  by pat_completeness auto

termination
proof (relation "measure (\<lambda>(names, name). Suc (fold max (map length names) 0) - length name)")
  fix names name
  assume "\<exists>c \<in> set names. eq_ignore_ascii_case c name"
  then obtain c where c: "c \<in> set names" "eq_ignore_ascii_case c name" by blast
  then have "length name = length c"
    by (auto simp: eq_ignore_ascii_case_def to_ascii_uppercase_def dest: arg_cong [where f = length])
  with longest_less [OF c(1)]
  show "((names, name @ ''_''), names, name) \<in> measure (\<lambda>(names, name). Suc (fold max (map length names) 0) - length name)"
    by simp
qed simp

declare fresh_alias.simps [simp del]

definition projection_sql :: "nat \<Rightarrow> nat \<Rightarrow> projection \<Rightarrow> string" where
  "projection_sql width index p =
     (let bytes_name = sqlite_id (fresh_alias (pj_columns p) ''__db_connect_bytes'');
          raw = map sqlite_id (pj_columns p);
          sum = join '' + '' (map (\<lambda>c. ''COALESCE(octet_length('' @ sqlite_id c @ ''),0)'') (pj_columns p));
          shown = map (\<lambda>c. ''CASE WHEN '' @ bytes_name @ '' > 8388608 THEN NULL ELSE '' @ c @ '' END'') raw;
          names = take width shown @ replicate (width - length shown) ''NULL''
      in ''SELECT '' @ nat_to_string index @ '' AS __data_table, '' @ join '','' names @ '',CASE WHEN '' @ bytes_name
         @ '' > 8388608 THEN 1 ELSE 0 END AS __data_oversized FROM (SELECT '' @ join '','' raw @ '',('' @ sum @ '') AS ''
         @ bytes_name @ '' FROM main.'' @ sqlite_id (pj_table p) @ '')'')"

definition snapshot_width :: "projection list \<Rightarrow> nat" where
  "snapshot_width ps = fold max (map (\<lambda>p. length (pj_columns p)) ps) 0"

definition snapshot_sql :: "projection list \<Rightarrow> string result" where
  "snapshot_sql ps =
     (if ps = [] \<or> 100 < length ps then Inl ''a snapshot has 1 to 100 tables''
      else if snapshot_width ps = 0 then Inl ''a snapshot has no columns''
      else (let sql = join '' UNION ALL '' (map (\<lambda>i. projection_sql (snapshot_width ps) i (ps ! i)) [0..<length ps])
        in if 1024 * 1024 < length sql then Inl ''the text of the snapshot is larger than 1 MiB'' else Inr sql))"

subsection \<open>Rows\<close>

definition SQLITE_ROW_BYTES :: nat where
  "SQLITE_ROW_BYTES = 8 * 1024 * 1024"

definition sqlite_row_too_large :: err where
  "sqlite_row_too_large = ''resource_limit: a row is larger than 8 MiB''"

text \<open>One cell, and the bytes of the row up to and with it. The last test has no code in its message.\<close>

definition sized_cell :: "nat \<Rightarrow> data_value \<Rightarrow> (data_value \<times> nat) result" where
  "sized_cell n v = (if SQLITE_ROW_BYTES < n + 16 then Inl ''a row is larger than 8 MiB'' else Inr (v, n + 16))"

definition read_cell :: "nat \<Rightarrow> sqlite_value \<Rightarrow> (data_value \<times> nat) result" where
  "read_cell n v = (case v of
     SqlNull \<Rightarrow> sized_cell n Null
   | SqlInteger i \<Rightarrow> sized_cell n (Int64 i)
   | SqlReal r \<Rightarrow> sized_cell n (Float r)
   | SqlText s \<Rightarrow>
       if SQLITE_ROW_BYTES < saturating_add (saturating_add n (length s)) 16 then Inl sqlite_row_too_large
       else if \<not> valid_utf8 s then Inl ''the text of SQLite is not UTF-8''
       else sized_cell (n + length s) (Text s)
   | SqlBlob b \<Rightarrow>
       if SQLITE_ROW_BYTES < saturating_add (saturating_add n (length b)) 16 then Inl sqlite_row_too_large
       else sized_cell (n + length b) (Binary b))"

fun read_cells :: "nat \<Rightarrow> nat \<Rightarrow> sqlite_value list \<Rightarrow> data_value list result" where
  "read_cells 0 n cells = Inr []"
| "read_cells (Suc k) n cells = (case cells of
     [] \<Rightarrow> Inl SQLITE_ERROR
   | c # cells \<Rightarrow> rbind (read_cell n c) (\<lambda>(v, n). rbind (read_cells k n cells) (\<lambda>vs. Inr (v # vs))))"

definition read_row :: "projection list \<Rightarrow> raw_row \<Rightarrow> canonical_row result" where
  "read_row ps r =
     (if rr_oversized r \<noteq> 0 then Inl sqlite_row_too_large
      else rbind (ok_or ''the number of the table is invalid'' (if rr_table r < length ps then Some (ps ! rr_table r) else None)) (\<lambda>p.
        rbind (read_cells (length (pj_columns p)) 0 (rr_cells r)) (\<lambda>values.
        rbind (collect_results (\<lambda>i. ok_or ''the index of the key is invalid''
          (if i < length values then Some (values ! i) else None)) (pj_key_indices p)) (\<lambda>key.
          new_row (pj_output p) key values))))"

text \<open>
  The loop over the rows: \<open>stopped\<close> reads the cancellation flag and \<open>sink\<close> is the closure. What it
  has captured is passed along as \<open>acc\<close>, and \<open>release\<close> drops it when the loop returns early.
\<close>

fun stream_loop ::
    "('s, bool) action \<Rightarrow> (canonical_row \<Rightarrow> 'a \<Rightarrow> ('s, 'a) action) \<Rightarrow> ('a \<Rightarrow> 's \<Rightarrow> 's) \<Rightarrow> projection list
       \<Rightarrow> raw_row list \<Rightarrow> unit result \<Rightarrow> nat \<Rightarrow> 'a \<Rightarrow> ('s, nat \<times> 'a) action" where
  "stream_loop stopped sink release ps [] ended n acc =
     abind (or_release (release acc) (alift (map_err (\<lambda>_. SQLITE_ERROR) ended))) (\<lambda>_. areturn (n, acc))"
| "stream_loop stopped sink release ps (r # rows) ended n acc =
     abind (or_release (release acc) (abind stopped (\<lambda>c. aguard (\<not> c) ''cancelled''))) (\<lambda>_.
     abind (or_release (release acc) (alift (read_row ps r))) (\<lambda>row.
     abind (sink row acc) (\<lambda>acc. stream_loop stopped sink release ps rows ended (n + 1) acc)))"

definition sqlite_stream ::
    "(string \<Rightarrow> ('s, raw_row list \<times> unit result) action) \<Rightarrow> ('s, bool) action
       \<Rightarrow> (canonical_row \<Rightarrow> 'a \<Rightarrow> ('s, 'a) action) \<Rightarrow> ('a \<Rightarrow> 's \<Rightarrow> 's) \<Rightarrow> projection list \<Rightarrow> 'a
       \<Rightarrow> ('s, nat \<times> 'a) action" where
  "sqlite_stream query stopped sink release ps acc =
     abind (or_release (release acc) (alift (snapshot_sql ps))) (\<lambda>sql.
     abind (or_release (release acc) (query sql)) (\<lambda>(rows, ended). stream_loop stopped sink release ps rows ended 0 acc))"

subsection \<open>Binding\<close>

definition sqlite_bind :: "data_value \<Rightarrow> sqlite_value result" where
  "sqlite_bind v = (case v of
     Null \<Rightarrow> Inr SqlNull
   | Bool b \<Rightarrow> Inr (SqlInteger (if b then 1 else 0))
   | Int64 i \<Rightarrow> Inr (SqlInteger i)
   | UInt64 u \<Rightarrow> if unat u < 2 ^ 63 then Inr (SqlInteger u) else Inl ''SQLite has no integers beyond 64 bits with a sign''
   | Float r \<Rightarrow> if is_finite r then Inr (SqlReal r) else Inl ''SQLite has no NaN and no infinity''
   | Text s \<Rightarrow> Inr (SqlText s)
   | Binary b \<Rightarrow> Inr (SqlBlob b)
   | _ \<Rightarrow> Inl ''binding this type to SQLite is not verified'')"

subsection \<open>Typed rows\<close>

text \<open>The values a row of SQLite can have, and the bytes they take of the 8 MiB.\<close>

fun storage_value :: "data_value \<Rightarrow> bool" where
  "storage_value (Text s) = valid_utf8 s"
| "storage_value v = (v = Null \<or> (\<exists>i. v = Int64 i) \<or> (\<exists>r. v = Float r) \<or> (\<exists>b. v = Binary b))"

fun payload :: "data_value \<Rightarrow> nat" where
  "payload (Text s) = length s"
| "payload (Binary b) = length b"
| "payload _ = 0"

fun row_payload :: "data_value list \<Rightarrow> nat" where
  "row_payload [] = 0"
| "row_payload (v # vs) = payload v + 16 + row_payload vs"

definition value_of :: "sqlite_value \<Rightarrow> data_value" where
  "value_of c = (case c of SqlNull \<Rightarrow> Null | SqlInteger i \<Rightarrow> Int64 i | SqlReal r \<Rightarrow> Float r
     | SqlText s \<Rightarrow> Text s | SqlBlob b \<Rightarrow> Binary b)"

lemma read_cell_value:
  assumes "read_cell n c = Inr (v, m)"
  shows "v = value_of c \<and> storage_value v \<and> m = n + payload v + 16 \<and> m \<le> SQLITE_ROW_BYTES"
  using assms by (cases c) (auto simp: read_cell_def sized_cell_def value_of_def split: if_splits)

lemma read_cells_values:
  "read_cells k n cells = Inr vs \<Longrightarrow> n \<le> SQLITE_ROW_BYTES \<Longrightarrow> length vs = k \<and> k \<le> length cells \<and> vs = map value_of (take k cells)
     \<and> (\<forall>v \<in> set vs. storage_value v) \<and> n + row_payload vs \<le> SQLITE_ROW_BYTES"
proof (induction k arbitrary: n cells vs)
  case (Suc k)
  obtain c cs v m ws where r: "cells = c # cs" "read_cell n c = Inr (v, m)" "read_cells k m cs = Inr ws" "vs = v # ws"
    using Suc.prems(1) by (auto split: list.splits)
  have n: "m \<le> SQLITE_ROW_BYTES" using read_cell_value [OF r(2)] by blast
  show ?case using read_cell_value [OF r(2)] Suc.IH [OF r(3) n] r(1,4) by auto
qed simp

definition sqlite_row_typed :: "projection list \<Rightarrow> raw_row \<Rightarrow> canonical_row \<Rightarrow> bool" where
  "sqlite_row_typed ps r row \<longleftrightarrow> rr_table r < length ps \<and> (let p = ps ! rr_table r in
     row_table row = pj_output p
   \<and> row_values row = map value_of (take (length (pj_columns p)) (rr_cells r))
   \<and> length (row_values row) = length (pj_columns p)
   \<and> (\<forall>v \<in> set (row_values row). storage_value v)
   \<and> (\<forall>i \<in> set (pj_key_indices p). i < length (pj_columns p))
   \<and> row_key row = map (\<lambda>i. row_values row ! i) (pj_key_indices p)
   \<and> row_payload (row_values row) \<le> SQLITE_ROW_BYTES)"

lemma collect_nth:
  "collect_results (\<lambda>i. ok_or e (if i < length xs then Some (xs ! i) else None)) is = Inr ks \<longleftrightarrow>
     (\<forall>i \<in> set is. i < length xs) \<and> ks = map (\<lambda>i. xs ! i) is"
  by (induction "is" arbitrary: ks) (auto simp: ok_or_def)

lemma new_row_fields: "new_row t k v = Inr row \<Longrightarrow> row_table row = t \<and> row_key row = k \<and> row_values row = v"
  by (auto simp: new_row_def Let_def)

lemma read_row_typed:
  assumes "read_row ps r = Inr row"
  shows "sqlite_row_typed ps r row"
proof -
  obtain vs where vs: "rr_table r < length ps" "read_cells (length (pj_columns (ps ! rr_table r))) 0 (rr_cells r) = Inr vs"
    "collect_results (\<lambda>i. ok_or ''the index of the key is invalid'' (if i < length vs then Some (vs ! i) else None))
       (pj_key_indices (ps ! rr_table r)) = Inr (row_key row)"
    "row_table row = pj_output (ps ! rr_table r)" "row_values row = vs"
    using assms by (auto simp: read_row_def split: if_splits dest: new_row_fields)
  have key: "\<forall>i \<in> set (pj_key_indices (ps ! rr_table r)). i < length vs"
    "row_key row = map (\<lambda>i. vs ! i) (pj_key_indices (ps ! rr_table r))"
    using vs(3) unfolding collect_nth by simp_all
  note cells = read_cells_values [OF vs(2) le0, unfolded add_0]
  then have "\<forall>i \<in> set (pj_key_indices (ps ! rr_table r)). i < length (pj_columns (ps ! rr_table r))" using key(1) by simp
  then show ?thesis using cells key(2) vs(1,4) unfolding sqlite_row_typed_def Let_def vs(5)
    by (elim conjE) (intro conjI; assumption)
qed

lemma storage_wf: "storage_value v \<Longrightarrow> wf_value v"
  by (cases v) auto

lemma typed_wf_row:
  assumes "sqlite_row_typed ps r row" and "\<forall>p \<in> set ps. valid_utf8 (pj_output p)"
  shows "wf_row row"
proof -
  have row: "rr_table r < length ps" "row_table row = pj_output (ps ! rr_table r)"
    "\<forall>v \<in> set (row_values row). wf_value v"
    "row_key row = map (\<lambda>i. row_values row ! i) (pj_key_indices (ps ! rr_table r))"
    "\<forall>i \<in> set (pj_key_indices (ps ! rr_table r)). i < length (row_values row)"
    using assms(1) storage_wf unfolding sqlite_row_typed_def Let_def by metis+
  have "set (row_key row) \<subseteq> set (row_values row)" using row(5) unfolding row(4) by auto
  moreover have "valid_utf8 (row_table row)" using assms(2) row(1,2) by simp
  ultimately show ?thesis using row(3) unfolding wf_row_def by blast
qed

text \<open>Binding what was read gives the value of the database again, for every value a column can hold.\<close>

fun finite_real :: "sqlite_value \<Rightarrow> bool" where
  "finite_real (SqlReal r) = is_finite r"
| "finite_real _ = True"

lemma bind_value_of: "finite_real c \<Longrightarrow> sqlite_bind (value_of c) = Inr c"
  by (cases c) (auto simp: sqlite_bind_def value_of_def)

lemma collect_bind_values:
  "list_all finite_real cells \<Longrightarrow> collect_results sqlite_bind (map value_of cells) = Inr cells"
  by (induction cells) (auto simp: bind_value_of)

lemma typed_bind:
  assumes "sqlite_row_typed ps raw row" and "list_all finite_real (rr_cells raw)"
  shows "collect_results sqlite_bind (row_values row) = Inr (take (length (row_values row)) (rr_cells raw))"
proof -
  let ?k = "length (pj_columns (ps ! rr_table raw))"
  have v: "row_values row = map value_of (take ?k (rr_cells raw))" "length (row_values row) = ?k"
    using assms(1) unfolding sqlite_row_typed_def Let_def by blast+
  have "list_all finite_real (take ?k (rr_cells raw))" using assms(2) by (auto simp: list_all_iff dest: in_set_takeD)
  then show ?thesis unfolding v(2) unfolding v(1) by (rule collect_bind_values)
qed

text \<open>What the closure has made of the rows so far is kept as an invariant of the loop.\<close>

lemma map_err_Inr [simp]: "map_err f m = Inr x \<longleftrightarrow> m = Inr x"
  by (cases m) (auto simp: map_err_def)

lemma stream_loop_invariant:
  assumes step: "\<And>row raw xs acc s acc' t. Q xs acc \<Longrightarrow> read_row ps raw = Inr row \<Longrightarrow> sink row acc s = (Inr acc', t)
      \<Longrightarrow> Q (xs @ [row]) acc'"
  shows "Q xs acc \<Longrightarrow> stream_loop stopped sink release ps raws ended n acc s = (Inr (m, acc'), t) \<Longrightarrow>
    ended = Inr () \<and> m = n + length raws
      \<and> (\<exists>rows. list_all2 (\<lambda>raw row. read_row ps raw = Inr row) raws rows \<and> Q (xs @ rows) acc')"
proof (induction raws arbitrary: n acc s xs)
  case Nil
  then show ?case by (auto simp: run_simps)
next
  case (Cons raw raws)
  obtain s1 row s2 acc1 s3 where r: "read_row ps raw = Inr row" "sink row acc s2 = (Inr acc1, s3)"
    "stream_loop stopped sink release ps raws ended (n + 1) acc1 s3 = (Inr (m, acc'), t)"
    using Cons.prems(2) by (auto simp: run_simps)
  have next_rows: "ended = Inr () \<and> m = n + 1 + length raws
      \<and> (\<exists>rows. list_all2 (\<lambda>raw row. read_row ps raw = Inr row) raws rows \<and> Q ((xs @ [row]) @ rows) acc')"
    by (rule Cons.IH [OF step [OF Cons.prems(1) r(1,2)] r(3)])
  then obtain rows where rows: "list_all2 (\<lambda>raw row. read_row ps raw = Inr row) raws rows" "Q (xs @ row # rows) acc'"
    by auto
  then have "list_all2 (\<lambda>raw row. read_row ps raw = Inr row) (raw # raws) (row # rows)" using r(1) by simp
  then show ?case using next_rows rows(2) by auto
qed

lemma sqlite_stream_invariant:
  assumes "\<And>row raw xs acc s acc' t. Q xs acc \<Longrightarrow> read_row ps raw = Inr row \<Longrightarrow> sink row acc s = (Inr acc', t)
      \<Longrightarrow> Q (xs @ [row]) acc'"
    and "Q [] acc" and "sqlite_stream query stopped sink release ps acc s = (Inr (m, acc'), t)"
  obtains sql raws u rows where "snapshot_sql ps = Inr sql" "query sql s = (Inr (raws, Inr ()), u)" "m = length raws"
    "list_all2 (\<lambda>raw row. read_row ps raw = Inr row) raws rows" "Q rows acc'"
proof -
  obtain sql raws ended u where r: "snapshot_sql ps = Inr sql" "query sql s = (Inr (raws, ended), u)"
    "stream_loop stopped sink release ps raws ended 0 acc u = (Inr (m, acc'), t)"
    using assms(3) by (auto simp: sqlite_stream_def run_simps)
  have "ended = Inr () \<and> m = 0 + length raws
      \<and> (\<exists>rows. list_all2 (\<lambda>raw row. read_row ps raw = Inr row) raws rows \<and> Q ([] @ rows) acc')"
    by (rule stream_loop_invariant [where Q = Q, OF _ assms(2) r(3)]) (rule assms(1))
  then show thesis using that [OF r(1)] r(2) by auto
qed

definition example_projections :: "projection list" where
  "example_projections = [\<lparr>pj_table = ''a'', pj_output = ''t'', pj_columns = [''id'', ''v''], pj_key_indices = [0]\<rparr>,
     \<lparr>pj_table = ''b'', pj_output = ''b'', pj_columns = [''label''], pj_key_indices = []\<rparr>]"

definition example_raws :: "raw_row list" where
  "example_raws = [\<lparr>rr_table = 0, rr_cells = [SqlInteger 9, SqlBlob [0, 255]], rr_oversized = 0\<rparr>,
     \<lparr>rr_table = 1, rr_cells = [SqlText ''x'', SqlNull], rr_oversized = 0\<rparr>]"

lemma example_stream:
  "sqlite_stream (\<lambda>sql. areturn (example_raws, Inr ())) (areturn False) (\<lambda>row acc. areturn (acc @ [row])) (\<lambda>_ s. s)
     example_projections [] ()
   = (Inr (2, [\<lparr>row_table = ''t'', row_key = [Int64 9], row_values = [Int64 9, Binary [0, 255]]\<rparr>,
       \<lparr>row_table = ''b'', row_key = [], row_values = [Text ''x'']\<rparr>]), ())"
  by code_simp



text \<open>For evaluation, see \<open>Actions\<close>.\<close>

declare or_error_def [code_unfold]

lemmas sqlite_adapter_run [code] = sqlite_open_def [THEN fun_cong] sqlite_load_def [THEN fun_cong]
  stream_loop.simps [THEN fun_cong] sqlite_stream_def [THEN fun_cong]

end
