(* ===== verification/Sqlite_Execute.thy ===== *)
theory Sqlite_Execute
  imports Sqlite_Adapter Execute
begin

text \<open>
  Data tasks between two SQLite databases (\<open>prepare\_sqlite\<close>, \<open>execute\_sqlite\<close> and what they call in
  \<open>src-tauri/src/db/data\_tasks/executor.rs\<close>). Both run on one blocking thread: a row that is read is
  written on before the next one is read. The two connections are the two databases of the state.
\<close>

subsection \<open>The environment\<close>

text \<open>
  \<open>se\_read\_only\_file\<close> is the permission of a path, \<open>None\<close> when it cannot be read. The sessions of the
  network tasks stay part of the environment, since the commands choose between the two.
\<close>

record 'db sqlite_env = "'db exec_env" +
  se_ops :: "'db sqlite_ops"
  se_read_only_file :: "string \<Rightarrow> bool option"

abbreviation se_spool :: "'db sqlite_env \<Rightarrow> spool_env" where
  "se_spool env \<equiv> pe_spool (ee_plan env)"

definition on_conn :: "bool \<Rightarrow> ('db, 'a) action \<Rightarrow> ('db, 'a) exec_action" where
  "on_conn from_source m = (if from_source then on_source m else on_target m)"

definition sqlite_identity :: "string \<Rightarrow> endpoint_identity" where
  "sqlite_identity path = \<lparr>ei_database_type = Sqlite, ei_instance = None, ei_database = ''main'', sqlite_path = Some path\<rparr>"

definition sqlite_paths ::
    "'db sqlite_env \<Rightarrow> data_task_request \<Rightarrow> connection_config \<Rightarrow> connection_config \<Rightarrow> (string \<times> string) result" where
  "sqlite_paths env request source target =
     (if cc_database_type source \<noteq> Sqlite \<or> cc_database_type target \<noteq> Sqlite
      then Inl ''unsupported_capability: this pair of databases is not verified for data tasks''
      else if ep_database (req_source request) \<noteq> ''main'' \<or> ep_database (req_target request) \<noteq> ''main''
      then Inl ''unsupported_capability: SQLite data tasks have the main database only''
      else if unwrap_or False (cc_read_only target)
      then Inl ''read_only_target: the target connection is read only''
      else
        rbind (ok_or ''invalid_mapping: the SQLite source has no file'' (cc_sqlite_path source)) (\<lambda>source_path.
        rbind (ok_or ''invalid_mapping: the SQLite target has no file'' (cc_sqlite_path target)) (\<lambda>target_path.
        rbind (ok_or ''invalid_mapping: the target file cannot be read'' (se_read_only_file env target_path)) (\<lambda>read_only.
        if read_only then Inl ''read_only_target: the target file is read only''
        else rbind (resolve_endpoints (ee_canonicalize env) (ee_same_file env) request
          (sqlite_identity source_path) (sqlite_identity target_path)) (\<lambda>_. Inr (source_path, target_path))))))"

definition sqlite_metadata :: "'db sqlite_env \<Rightarrow> connection_config \<Rightarrow> ('db, metadata_snapshot) action" where
  "sqlite_metadata env config =
     abind (sqlite_load (digest (se_spool env)) (se_ops env)) (\<lambda>(tables, signature).
       areturn \<lparr>md_database_type = Sqlite, md_tables = tables, md_read_only = unwrap_or False (cc_read_only config),
         permissions_verified = True, consistent_snapshot = True, protected_write = True,
         schema_fingerprint = signature, configuration_fingerprint = ee_fingerprint env config\<rparr>)"

subsection \<open>Snapshots\<close>

definition read_progress :: "canonical_row \<Rightarrow> exec_progress \<Rightarrow> exec_progress" where
  "read_progress row p = p\<lparr>pr_read := pr_read p + 1, pr_bytes := saturating_add (pr_bytes p) (row_encoded_size row)\<rparr>"

definition snapshot_sink ::
    "'db sqlite_env \<Rightarrow> canonical_row \<Rightarrow> spool_writer \<times> exec_progress \<Rightarrow> ('db, spool_writer \<times> exec_progress) exec_action" where
  "snapshot_sink env row acc = (case acc of (w, p) \<Rightarrow>
     abind (or_release (drop_all [w_inner w]) (on_res checked)) (\<lambda>_.
     abind (on_res (put (se_spool env) row w)) (\<lambda>w.
     abind (emit (se_spool env) Reading False (read_progress row p)) (\<lambda>p. areturn (w, p)))))"

definition sqlite_rows ::
    "'db sqlite_env \<Rightarrow> bool \<Rightarrow> string \<Rightarrow> ('db, raw_row list \<times> unit result) exec_action" where
  "sqlite_rows env from_source sql = on_conn from_source (sure (sq_query (se_ops env) sql))"

definition sqlite_snapshot ::
    "'db sqlite_env \<Rightarrow> bool \<Rightarrow> projection list \<Rightarrow> spool_writer \<Rightarrow> exec_progress
       \<Rightarrow> ('db, spool_handle \<times> exec_progress) exec_action" where
  "sqlite_snapshot env from_source ps w p =
     abind (sqlite_stream (sqlite_rows env from_source) (on_res cancelled) (snapshot_sink env)
       (\<lambda>(w, p). drop_all [w_inner w]) ps (w, p)) (\<lambda>(n, w, p).
     abind (on_res (finish_writer (se_spool env) w)) (\<lambda>h. areturn (h, p)))"

text \<open>The target is read once; each row goes to both writers, projected and in full.\<close>

definition target_row :: "projection list \<Rightarrow> projection list \<Rightarrow> canonical_row \<Rightarrow> canonical_row result" where
  "target_row full projected row =
     rbind (ok_or ''the table of the target snapshot does not exist'' (position (\<lambda>p. pj_output p = row_table row) full)) (\<lambda>i.
       projected_row row (full ! i) (projected ! i))"

definition target_sink ::
    "'db sqlite_env \<Rightarrow> projection list \<Rightarrow> projection list \<Rightarrow> canonical_row \<Rightarrow> spool_writer \<times> spool_writer \<times> exec_progress
       \<Rightarrow> ('db, spool_writer \<times> spool_writer \<times> exec_progress) exec_action" where
  "target_sink env full projected row acc = (case acc of (tw, fw, p) \<Rightarrow>
     abind (or_release (drop_all [w_inner tw, w_inner fw]) (on_res checked)) (\<lambda>_.
     abind (or_release (drop_all [w_inner tw, w_inner fw]) (alift (target_row full projected row))) (\<lambda>prow.
     abind (or_release (drop_all [w_inner fw]) (on_res (put (se_spool env) prow tw))) (\<lambda>tw.
     abind (or_release (drop_all [w_inner tw]) (on_res (put (se_spool env) row fw))) (\<lambda>fw.
     abind (emit (se_spool env) Reading False (read_progress row p)) (\<lambda>p. areturn (tw, fw, p)))))))"

definition target_snapshot ::
    "'db sqlite_env \<Rightarrow> projection list \<Rightarrow> projection list \<Rightarrow> budget \<Rightarrow> exec_progress
       \<Rightarrow> ('db, spool_handle \<times> spool_handle \<times> exec_progress) exec_action" where
  "target_snapshot env full projected b p =
     abind (on_res (writer_new (se_spool env) b)) (\<lambda>tw.
     abind (or_release (drop_all [w_inner tw]) (on_res (writer_new (se_spool env) b))) (\<lambda>fw.
     abind (sqlite_stream (sqlite_rows env False) (on_res cancelled) (target_sink env full projected)
       (\<lambda>(tw, fw, p). drop_all [w_inner tw, w_inner fw]) full (tw, fw, p)) (\<lambda>(n, tw, fw, p).
     abind (or_release (drop_all [w_inner fw]) (on_res (finish_writer (se_spool env) tw))) (\<lambda>th.
     abind (or_release (drop_all [h_inner th]) (on_res (finish_writer (se_spool env) fw))) (\<lambda>fh.
       areturn (th, fh, p))))))"

subsection \<open>Preparing a plan\<close>

definition sqlite_begin_read :: "'db sqlite_env \<Rightarrow> ('db, unit) exec_action" where
  "sqlite_begin_read env =
     abind (or_error ''the source read transaction cannot be started''
       (on_source (sq_execute_batch (se_ops env) ''BEGIN DEFERRED''))) (\<lambda>_.
     or_error ''the target read transaction cannot be started''
       (on_target (sq_execute_batch (se_ops env) ''BEGIN DEFERRED'')))"

definition sqlite_end_read :: "'db sqlite_env \<Rightarrow> ('db, unit) exec_action" where
  "sqlite_end_read env =
     abind (or_error ''the source read transaction cannot be ended''
       (on_source (sq_execute_batch (se_ops env) ''ROLLBACK''))) (\<lambda>_.
     or_error ''the target read transaction cannot be ended''
       (on_target (sq_execute_batch (se_ops env) ''ROLLBACK'')))"

definition plan_inners :: "stored_plan \<Rightarrow> spool_inner list" where
  "plan_inners plan = map h_inner [so_spool (sp_source plan), so_spool (sp_target plan), so_spool (sp_target_full plan),
     sp_operations plan, so_spool (sp_expected plan)]"

definition sqlite_inputs ::
    "'db sqlite_env \<Rightarrow> data_task_request \<Rightarrow> connection_config \<Rightarrow> connection_config
       \<Rightarrow> ('db, validated_mapping \<times> metadata_snapshot \<times> metadata_snapshot) exec_action" where
  "sqlite_inputs env request source target =
     abind (alift (sqlite_paths env request source target)) (\<lambda>(source_path, target_path).
     abind (on_source (sqlite_open (se_ops env) source_path False)) (\<lambda>_.
     abind (on_target (sqlite_open (se_ops env) target_path True)) (\<lambda>_.
     abind (sqlite_begin_read env) (\<lambda>_.
     abind (on_source (sqlite_metadata env source)) (\<lambda>smd.
     abind (on_target (sqlite_metadata env target)) (\<lambda>tmd.
     abind (alift (validate_mapping request smd tmd)) (\<lambda>mapping.
       areturn (mapping, smd, tmd))))))))"

definition sqlite_snapshots ::
    "'db sqlite_env \<Rightarrow> validated_mapping \<Rightarrow> metadata_snapshot \<Rightarrow> exec_progress
       \<Rightarrow> ('db, (spool_handle \<times> spool_handle \<times> spool_handle) \<times> exec_progress) exec_action" where
  "sqlite_snapshots env mapping tmd p =
     abind (on_res (writer_new (se_spool env) default_budget)) (\<lambda>w.
     abind (sqlite_snapshot env True (projections mapping True) w p) (\<lambda>(source_rows, p).
     or_release (drop_all [h_inner source_rows]) (
       abind (alift (full_projections mapping tmd)) (\<lambda>full.
       abind (target_snapshot env full (projections mapping False) default_budget p) (\<lambda>(target_rows, target_full, p).
       or_release (drop_all [h_inner target_rows, h_inner target_full]) (
         abind (sqlite_end_read env) (\<lambda>_.
         abind (on_res checked) (\<lambda>_.
           areturn ((source_rows, target_rows, target_full), p)))))))))"

definition prepare_sqlite ::
    "'db sqlite_env \<Rightarrow> string \<Rightarrow> data_task_request \<Rightarrow> connection_config \<Rightarrow> connection_config
       \<Rightarrow> ('db, stored_plan) exec_action" where
  "prepare_sqlite env task_id request source target =
     abind (alift (map_err (\<lambda>e. err_code e @ '': '' @ err_message e) (validate request))) (\<lambda>_.
     abind (on_res checked) (\<lambda>_.
     abind (on_res (new_progress (se_spool env))) (\<lambda>p.
     abind (emit (se_spool env) Validating True p) (\<lambda>p.
     abind (sqlite_inputs env request source target) (\<lambda>(mapping, smd, tmd).
     abind (sqlite_snapshots env mapping tmd p) (\<lambda>((source_rows, target_rows, target_full), p).
     abind (emit (se_spool env) Comparing True p) (\<lambda>p.
     abind (on_res (build_plan (ee_plan env) task_id request mapping smd tmd source_rows target_rows target_full)) (\<lambda>plan.
     abind (or_release (drop_all (plan_inners plan)) (on_res checked)) (\<lambda>_.
     abind (emit (se_spool env) Ready True p) (\<lambda>_.
       areturn plan))))))))))"

subsection \<open>Writing\<close>

text \<open>
  The lease for the bound values lives to the end of \<open>flush\<close>. The rows are given as a batch that is
  being filled; after it was written the batch is empty.
\<close>

definition expanded_bytes :: "batch_limits \<Rightarrow> data_value list list \<Rightarrow> nat result" where
  "expanded_bytes bl rows =
     rbind (foldl (\<lambda>acc row. rbind acc (\<lambda>n. rbind (parameter_memory (bl_value_size bl) row (bl_mapping bl) (bl_kind bl)) (\<lambda>m.
       ok_or ''resource_limit: the memory of the parameters overflows'' (checked_add n m)))) (Inr 0) rows) (\<lambda>expanded.
     ok_or ''resource_limit: the memory of the parameters overflows''
       (case checked_mul expanded 2 of Some n \<Rightarrow> checked_add n (1024 * 1024) | None \<Rightarrow> None))"

definition sqlite_flush ::
    "'db sqlite_env \<Rightarrow> batch_limits \<Rightarrow> data_value list list \<Rightarrow> exec_progress \<Rightarrow> ('db, exec_progress) exec_action" where
  "sqlite_flush env bl rows p =
     (if rows = [] then areturn p
      else
        abind (on_res checked) (\<lambda>_.
        abind (alift (expanded_bytes bl rows)) (\<lambda>n.
        abind (on_res (reserve_memory (bl_budget bl) n)) (\<lambda>lease.
        afinally (
          abind (alift (build_batch DSqlite ''main'' (vt_target (bl_mapping bl)) (vt_target_columns (bl_mapping bl))
            (key_indices (bl_mapping bl)) (bl_kind bl) rows)) (\<lambda>batch.
          abind (alift (collect_results sqlite_bind (wb_params batch))) (\<lambda>values.
          abind (or_error ''the batch was rejected by the constraints, types or permissions of the target''
            (on_target (sq_execute (se_ops env) (wb_sql batch) values))) (\<lambda>affected.
          abind (aguard (affected = length rows) ''validation_failed: the rows written differ from the plan'') (\<lambda>_.
          abind (emit (se_spool env) Executing False (p\<lparr>pr_written := pr_written p + length rows\<rparr>)) (\<lambda>p.
          abind (on_res checked) (\<lambda>_. areturn p)))))))
          (drop_bytes lease)))))"

definition sqlite_make_room ::
    "'db sqlite_env \<Rightarrow> batch_limits \<Rightarrow> nat \<Rightarrow> batch_fill \<Rightarrow> exec_progress \<Rightarrow> ('db, batch_fill \<times> exec_progress) exec_action" where
  "sqlite_make_room env bl n bf p =
     (if fill_full bl bf n
      then abind (sqlite_flush env bl (bf_rows bf) p) (\<lambda>p. abind (amodify (drop_bytes (bf_leases bf))) (\<lambda>_. areturn (no_fill, p)))
      else areturn (bf, p))"

definition sqlite_add_row ::
    "'db sqlite_env \<Rightarrow> batch_limits \<Rightarrow> plan_operation \<Rightarrow> batch_fill \<Rightarrow> exec_progress
       \<Rightarrow> ('db, batch_fill \<times> exec_progress) exec_action" where
  "sqlite_add_row env bl oper bf p =
     abind (or_release (drop_bytes (bf_leases bf)) (
       abind (alift (ok_or ''the operation of the plan has no row''
         (if bl_kind bl = DiffDelete then op_old oper else op_new oper))) (\<lambda>data.
       abind (alift (parameter_memory (bl_value_size bl) (row_values data) (bl_mapping bl) (bl_kind bl))) (\<lambda>n.
       abind (aguard (saturating_mul n 2 \<le> memory_bytes (bl_budget bl) div 2)
         ''resource_limit: the parameters of one row exceed the shared memory of SQLite'') (\<lambda>_.
       abind (sqlite_make_room env bl n bf p) (\<lambda>(bf, p). areturn (data, n, bf, p))))))) (\<lambda>(data, n, bf, p).
     abind (or_release (drop_bytes (bf_leases bf))
       (on_res (reserve_memory (bl_budget bl) (mem_size (bl_env bl) data)))) (\<lambda>lease.
       areturn (fill_add data lease n bf, p)))"

function sqlite_write_rows ::
    "'db sqlite_env \<Rightarrow> batch_limits \<Rightarrow> spool_cursor \<Rightarrow> batch_fill \<Rightarrow> exec_progress \<Rightarrow> ('db, exec_progress) exec_action" where
  "sqlite_write_rows env bl c bf p s =
     abind (or_release (drop_bytes (bf_leases bf)) (on_res (next_row (bl_env bl) c))) (\<lambda>(row, c) s.
       case row of
         None \<Rightarrow> afinally (sqlite_flush env bl (bf_rows bf) p) (drop_bytes (bf_leases bf)) s
       | Some r \<Rightarrow>
           abind (or_release (drop_bytes (bf_leases bf)) (on_res checked)) (\<lambda>_ s.
             if row_table r \<noteq> vt_target (bl_mapping bl) then sqlite_write_rows env bl c bf p s
             else abind (or_release (drop_bytes (bf_leases bf)) (alift (operation_from_row r))) (\<lambda>oper s.
               if op_kind oper \<noteq> bl_kind bl then sqlite_write_rows env bl c bf p s
               else abind (sqlite_add_row env bl oper bf p) (\<lambda>bp s. sqlite_write_rows env bl c (fst bp) (snd bp) s) s) s) s) s"
  by pat_completeness auto

termination
  by (relation "measure (\<lambda>(env, bl, c, bf, p, s). length (c_rest c))")
     (auto dest!: next_row_Inr simp: run_simps on_res_def or_release_def split: prod.splits sum.splits)

declare sqlite_write_rows.simps [simp del]

fun sqlite_write_tables ::
    "'db sqlite_env \<Rightarrow> stored_plan \<Rightarrow> data_diff_operation \<Rightarrow> string list \<Rightarrow> exec_progress \<Rightarrow> ('db, exec_progress) exec_action" where
  "sqlite_write_tables env plan kind [] p = areturn p"
| "sqlite_write_tables env plan kind (t # ts) p =
     abind (on_res checked) (\<lambda>_.
     abind (alift (table_limits (se_spool env) (ee_value_size env) plan DSqlite kind t)) (\<lambda>limits.
     abind (case limits of
         None \<Rightarrow> areturn p
       | Some bl \<Rightarrow> abind (on_res (open_cursor (se_spool env) (sp_operations plan))) (\<lambda>c. sqlite_write_rows env bl c no_fill p)) (\<lambda>p.
       sqlite_write_tables env plan kind ts p)))"

definition sqlite_write_kind ::
    "'db sqlite_env \<Rightarrow> stored_plan \<Rightarrow> data_diff_operation \<Rightarrow> exec_progress \<Rightarrow> ('db, exec_progress) exec_action" where
  "sqlite_write_kind env plan kind p = sqlite_write_tables env plan kind (batch_order (sp_mapping plan) kind) p"

fun sqlite_delete_tables :: "'db sqlite_env \<Rightarrow> string list \<Rightarrow> exec_progress \<Rightarrow> ('db, exec_progress) exec_action" where
  "sqlite_delete_tables env [] p = areturn p"
| "sqlite_delete_tables env (t # ts) p =
     abind (on_res checked) (\<lambda>_.
     abind (or_error ''the rows of the target cannot be deleted''
       (on_target (sq_execute (se_ops env) (''DELETE FROM main.'' @ sqlite_id t) []))) (\<lambda>n.
       sqlite_delete_tables env ts (p\<lparr>pr_written := pr_written p + n\<rparr>)))"

subsection \<open>The transaction\<close>

definition sqlite_unchanged ::
    "'db sqlite_env \<Rightarrow> stored_plan \<Rightarrow> metadata_snapshot \<Rightarrow> exec_progress \<Rightarrow> ('db, exec_progress) exec_action" where
  "sqlite_unchanged env plan current p =
     abind (alift (full_projections (sp_mapping plan) current)) (\<lambda>full.
     abind (on_res (handle_writer (se_spool env) (so_spool (sp_target_full plan)))) (\<lambda>w.
     abind (sqlite_snapshot env False full w p) (\<lambda>(reread, p).
     abind (on_res (sort_compare (se_spool env) reread (sp_target_full plan))) (\<lambda>same.
     abind (aguard (fst same) ''plan_stale: the target rows have changed'') (\<lambda>_.
       areturn p)))))"

definition sqlite_changes :: "'db sqlite_env \<Rightarrow> stored_plan \<Rightarrow> exec_progress \<Rightarrow> ('db, exec_progress) exec_action" where
  "sqlite_changes env plan p =
     abind (if req_mode (sp_request plan) = Replace
       then sqlite_delete_tables env (delete_order (sp_mapping plan)) p
       else sqlite_write_kind env plan DiffDelete p) (\<lambda>p.
     abind (sqlite_write_kind env plan DiffUpdate p) (\<lambda>p.
       sqlite_write_kind env plan DiffInsert p))"

definition sqlite_verify :: "'db sqlite_env \<Rightarrow> stored_plan \<Rightarrow> exec_progress \<Rightarrow> ('db, exec_progress) exec_action" where
  "sqlite_verify env plan p =
     abind (emit (se_spool env) Verifying True p) (\<lambda>p.
     abind (on_res checked) (\<lambda>_.
     abind (on_res (handle_writer (se_spool env) (so_spool (sp_expected plan)))) (\<lambda>w.
     abind (sqlite_snapshot env False (projections (sp_mapping plan) False) w p) (\<lambda>(final, p).
     abind (on_res (sort_compare (se_spool env) final (sp_expected plan))) (\<lambda>same.
     abind (aguard (fst same) ''validation_failed: the final rows are not the expected ones'') (\<lambda>_.
     abind (on_res checked) (\<lambda>_.
       areturn (p\<lparr>pr_verified := snd same\<rparr>))))))))"

definition sqlite_transaction ::
    "'db sqlite_env \<Rightarrow> stored_plan \<Rightarrow> connection_config \<Rightarrow> exec_progress \<Rightarrow> ('db, exec_progress) exec_action" where
  "sqlite_transaction env plan target p =
     abind (on_res checked) (\<lambda>_.
     abind (on_target (sqlite_metadata env target)) (\<lambda>current.
     abind (aguard (schema_fingerprint current = schema_fingerprint (sp_target_metadata plan))
       ''plan_stale: the structure of the target has changed'') (\<lambda>_.
     abind (alift (validate_mapping (sp_request plan) (sp_source_metadata plan) current)) (\<lambda>_.
     abind (sqlite_unchanged env plan current p) (\<lambda>p.
     abind (emit (se_spool env) Executing True p) (\<lambda>p.
     abind (sqlite_changes env plan p) (\<lambda>p.
       sqlite_verify env plan p)))))))"

subsection \<open>Commit, rollback and the result\<close>

definition sqlite_preflight ::
    "'db sqlite_env \<Rightarrow> stored_plan \<Rightarrow> connection_config \<Rightarrow> connection_config \<Rightarrow> ('db, unit) exec_action" where
  "sqlite_preflight env plan source target =
     abind (on_res checked) (\<lambda>_.
     abind (on_res (plan_fresh (se_spool env) plan)) (\<lambda>_.
     abind (aguard (ee_fingerprint env source = configuration_fingerprint (sp_source_metadata plan)
         \<and> ee_fingerprint env target = configuration_fingerprint (sp_target_metadata plan))
       ''plan_stale: a saved connection was changed'') (\<lambda>_.
     abind (alift (sqlite_paths env (sp_request plan) source target)) (\<lambda>(source_path, target_path).
     abind (on_source (sqlite_open (se_ops env) source_path False)) (\<lambda>_.
     abind (on_source (sqlite_metadata env source)) (\<lambda>md.
     abind (aguard (schema_fingerprint md = schema_fingerprint (sp_source_metadata plan))
       ''plan_stale: the structure of the source has changed'') (\<lambda>_.
       on_target (sqlite_open (se_ops env) target_path True))))))))"

text \<open>The result of closing the transaction; an error of the driver is an answer, too.\<close>

definition is_done :: "('db, unit) action \<Rightarrow> ('db, bool) exec_action" where
  "is_done m = on_target (\<lambda>db. (Inr (is_ok (fst (m db))), snd (m db)))"

definition sqlite_rollback :: "'db sqlite_env \<Rightarrow> ('db, bool) exec_action" where
  "sqlite_rollback env =
     abind (is_done (sq_ignore_cancel (se_ops env))) (\<lambda>_. is_done (sq_execute_batch (se_ops env) ''ROLLBACK''))"

definition stopped_status :: "data_task_error \<Rightarrow> data_task_status" where
  "stopped_status e = (if err_code e = ''cancelled'' then Cancelled else Failed)"

definition unknown_outcome :: "data_task_result \<Rightarrow> data_task_result" where
  "unknown_outcome r = r\<lparr>res_status := OutcomeUnknown, res_commit_state := CommitUnknown, requires_target_refresh := True\<rparr>"

text \<open>A panic inside the transaction is not an error that is handled: it ends the thread.\<close>

definition is_panic :: "err \<Rightarrow> bool" where
  "is_panic e = starts_with ''panic: '' e"

definition sqlite_failure :: "'db sqlite_env \<Rightarrow> err \<Rightarrow> data_task_result \<Rightarrow> ('db, data_task_result) exec_action" where
  "sqlite_failure env message result =
     abind (on_res cancelled) (\<lambda>stopped.
     let e = (if stopped then task_error ''cancelled'' ''the task was cancelled'' else exec_error message) in
     abind (sqlite_rollback env) (\<lambda>ok.
       areturn (if ok then result\<lparr>res_commit_state := RolledBack, res_status := stopped_status e, res_error := Some e\<rparr>
         else (unknown_outcome result)\<lparr>res_error := Some e,
           cleanup_errors := cleanup_errors result @ [''the rollback of the target is not confirmed'']\<rparr>)))"

definition sqlite_cancelled :: "'db sqlite_env \<Rightarrow> data_task_result \<Rightarrow> ('db, data_task_result) exec_action" where
  "sqlite_cancelled env result =
     abind (sqlite_rollback env) (\<lambda>ok.
       areturn (if ok then result\<lparr>res_status := Cancelled, res_commit_state := RolledBack,
           res_error := Some (task_error ''cancelled'' ''the task was cancelled'')\<rparr>
         else unknown_outcome result))"

definition written_rows :: "data_task_counts \<Rightarrow> data_task_counts" where
  "written_rows c = (let count = (\<lambda>s. unwrap_or 0 (parse_uint U64_MAX s)) in
     c\<lparr>written := nat_to_string ((count (inserted c) + count (updated c) + count (deleted c)) mod 2 ^ 64)\<rparr>)"

definition sqlite_commit :: "'db sqlite_env \<Rightarrow> exec_progress \<Rightarrow> data_task_result \<Rightarrow> ('db, data_task_result) exec_action" where
  "sqlite_commit env p result =
     abind (is_done (sq_execute_batch (se_ops env) ''COMMIT'')) (\<lambda>ok.
     if ok then abind (emit (se_spool env) Succeeded True p) (\<lambda>_. areturn (result\<lparr>res_status := Succeeded,
       res_commit_state := Committed, requires_target_refresh := True,
       res_tables := map (\<lambda>t. t\<lparr>tp_counts := written_rows (tp_counts t)\<rparr>) (res_tables result)\<rparr>))
     else
       abind (is_done (sq_ignore_cancel (se_ops env))) (\<lambda>_.
       abind (on_target (aget (sq_autocommit (se_ops env)))) (\<lambda>autocommit.
       abind (if autocommit then areturn False else is_done (sq_execute_batch (se_ops env) ''ROLLBACK'')) (\<lambda>ok.
         areturn (if ok then result\<lparr>res_commit_state := RolledBack,
             res_error := Some (task_error ''database_error'' ''the commit failed and was rolled back'')\<rparr>
           else (unknown_outcome result)\<lparr>res_error := Some (task_error ''outcome_unknown''
             ''the commit is not confirmed and will not be repeated'')\<rparr>)))))"

definition sqlite_closing :: "'db sqlite_env \<Rightarrow> exec_progress \<Rightarrow> data_task_result \<Rightarrow> ('db, data_task_result) exec_action" where
  "sqlite_closing env p result =
     abind (emit (se_spool env) Committing True p) (\<lambda>p.
     abind (on_res cancelled) (\<lambda>stopped.
       if stopped then sqlite_cancelled env result else sqlite_commit env p result))"

definition sqlite_protected ::
    "'db sqlite_env \<Rightarrow> stored_plan \<Rightarrow> connection_config \<Rightarrow> exec_progress \<Rightarrow> ('db, data_task_result) exec_action" where
  "sqlite_protected env plan target p =
     abind (is_done (sq_execute_batch (se_ops env) ''BEGIN IMMEDIATE'')) (\<lambda>locked.
     if \<not> locked
     then abind (on_res cancelled) (\<lambda>stopped. abind (on_res cancelled) (\<lambda>also.
       areturn ((first_result plan)\<lparr>res_error := Some (task_error (if stopped then ''cancelled'' else ''lock_timeout'')
         ''the target cannot be locked within 10 seconds''), res_status := if also then Cancelled else Failed\<rparr>)))
     else abind (attempt (sqlite_transaction env plan target p)) (\<lambda>work.
       case work of
         Inl message \<Rightarrow> if is_panic message then afail message else sqlite_failure env message (first_result plan)
       | Inr p \<Rightarrow> sqlite_closing env p (first_result plan)))"

definition execute_sqlite ::
    "'db sqlite_env \<Rightarrow> stored_plan \<Rightarrow> connection_config \<Rightarrow> connection_config \<Rightarrow> ('db, data_task_result) exec_action" where
  "execute_sqlite env plan source target =
     abind (on_res (new_progress (se_spool env))) (\<lambda>p.
     abind (attempt (sqlite_preflight env plan source target)) (\<lambda>preflight.
     case preflight of
       Inl message \<Rightarrow> areturn ((first_result plan)\<lparr>res_status := stopped_status (exec_error message),
         res_error := Some (exec_error message)\<rparr>)
     | Inr _ \<Rightarrow> sqlite_protected env plan target p))"

text \<open>The thread is joined; when it has panicked, nothing is known of the target.\<close>

definition interrupted_result :: "stored_plan \<Rightarrow> data_task_result" where
  "interrupted_result plan = (unknown_outcome (first_result plan))\<lparr>res_error := Some (task_error ''outcome_unknown''
     ''the thread of the task was interrupted'')\<rparr>"

definition execute_plan ::
    "'db sqlite_env \<Rightarrow> stored_plan \<Rightarrow> connection_config \<Rightarrow> connection_config \<Rightarrow> ('db, data_task_result) exec_action" where
  "execute_plan env plan source target =
     (if cc_database_type source \<noteq> Sqlite \<or> cc_database_type target \<noteq> Sqlite
      then execute_network (exec_env.truncate env) plan source target
      else abind (attempt (execute_sqlite env plan source target)) (\<lambda>r.
        areturn (case r of Inl _ \<Rightarrow> interrupted_result plan | Inr result \<Rightarrow> result)))"

subsection \<open>What the driver promises\<close>

abbreviation in_tx :: "'db sqlite_ops \<Rightarrow> 'db \<Rightarrow> bool" where
  "in_tx sops db \<equiv> \<not> sq_autocommit sops db"

text \<open>
  The documented behaviour of SQLite, on a connection that is the only writer: \<open>durable\<close> is the
  content of the file, \<open>visible\<close> what the connection sees, \<open>stored\<close> the rows a query gives for a
  content. Inside a transaction a statement changes what is visible only, and one that succeeds does
  not end the transaction; a commit that succeeds makes the visible content durable, and one that
  fails and leaves the transaction open has changed nothing.
\<close>

definition keeps_durable :: "'db sqlite_ops \<Rightarrow> ('db \<Rightarrow> 'c) \<Rightarrow> bool" where
  "keeps_durable ops durable \<longleftrightarrow>
     (\<forall>path write db. durable (snd (sq_open ops path write db)) = durable db)
   \<and> (\<forall>n db. durable (snd (sq_busy_timeout ops n db)) = durable db)
   \<and> (\<forall>db. durable (snd (sq_watch_cancel ops db)) = durable db)
   \<and> (\<forall>db. durable (snd (sq_ignore_cancel ops db)) = durable db)
   \<and> (\<forall>db. durable (snd (sq_execute_batch ops ''PRAGMA foreign_keys = ON'' db)) = durable db)
   \<and> (\<forall>db. durable (snd (sq_execute_batch ops ''BEGIN IMMEDIATE'' db)) = durable db)
   \<and> (\<forall>db. durable (snd (sq_execute_batch ops ''ROLLBACK'' db)) = durable db)
   \<and> (\<forall>db. durable (snd (sq_columns ops db)) = durable db)
   \<and> (\<forall>db. durable (snd (sq_foreign_keys ops db)) = durable db)
   \<and> (\<forall>db. durable (snd (sq_schema ops db)) = durable db)
   \<and> (\<forall>db. durable (snd (sq_indexes ops db)) = durable db)
   \<and> (\<forall>sql db. durable (snd (sq_query ops sql db)) = durable db)"

definition keeps_open :: "('db \<Rightarrow> bool) \<Rightarrow> ('db, 'a) action \<Rightarrow> bool" where
  "keeps_open auto m \<longleftrightarrow> (\<forall>db. is_ok (fst (m db)) \<longrightarrow> auto (snd (m db)) = auto db)"

definition reads_stored :: "'db sqlite_ops \<Rightarrow> ('db \<Rightarrow> 'c) \<Rightarrow> (string \<Rightarrow> 'c \<Rightarrow> raw_row multiset) \<Rightarrow> bool" where
  "reads_stored ops visible stored \<longleftrightarrow>
     (\<forall>sql db rows db'. sq_query ops sql db = ((rows, Inr ()), db') \<longrightarrow>
        sq_autocommit ops db' = sq_autocommit ops db \<and> visible db' = visible db \<and> mset rows = stored sql (visible db))"

definition writes_inside :: "'db sqlite_ops \<Rightarrow> ('db \<Rightarrow> 'c) \<Rightarrow> bool" where
  "writes_inside ops durable \<longleftrightarrow>
     (\<forall>sql vs db. \<not> sq_autocommit ops db \<longrightarrow> durable (snd (sq_execute ops sql vs db)) = durable db
        \<and> (is_ok (fst (sq_execute ops sql vs db)) \<longrightarrow> \<not> sq_autocommit ops (snd (sq_execute ops sql vs db))))"

definition commits_visible :: "'db sqlite_ops \<Rightarrow> ('db \<Rightarrow> 'c) \<Rightarrow> ('db \<Rightarrow> 'c) \<Rightarrow> bool" where
  "commits_visible ops durable visible \<longleftrightarrow>
     (\<forall>db x db'. sq_execute_batch ops ''BEGIN IMMEDIATE'' db = (Inr x, db') \<longrightarrow> \<not> sq_autocommit ops db')
   \<and> (\<forall>db x db'. sq_execute_batch ops ''COMMIT'' db = (Inr x, db') \<longrightarrow> durable db' = visible db)
   \<and> (\<forall>db e db'. sq_execute_batch ops ''COMMIT'' db = (Inl e, db') \<longrightarrow> \<not> sq_autocommit ops db' \<longrightarrow> durable db' = durable db)
   \<and> (\<forall>db. sq_autocommit ops (snd (sq_ignore_cancel ops db)) = sq_autocommit ops db)"

locale sqlite_driver =
  fixes sops :: "'db sqlite_ops" and durable visible :: "'db \<Rightarrow> 'c" and stored :: "string \<Rightarrow> 'c \<Rightarrow> raw_row multiset"
  assumes keeps_durable: "keeps_durable sops durable" and reads_stored: "reads_stored sops visible stored"
    and writes_inside: "writes_inside sops durable" and commits_visible: "commits_visible sops durable visible"
    and columns_open: "keeps_open (sq_autocommit sops) (sq_columns sops)"
    and foreign_keys_open: "keeps_open (sq_autocommit sops) (sq_foreign_keys sops)"
    and schema_open: "keeps_open (sq_autocommit sops) (sq_schema sops)"
    and indexes_open: "keeps_open (sq_autocommit sops) (sq_indexes sops)"

text \<open>The mapped rows of a content: what the snapshot query gives for it, as canonical rows.\<close>

definition database_rows :: "(string \<Rightarrow> 'c \<Rightarrow> raw_row multiset) \<Rightarrow> projection list \<Rightarrow> 'c \<Rightarrow> canonical_row multiset" where
  "database_rows stored ps c = (case snapshot_sql ps of
     Inl _ \<Rightarrow> {#} | Inr sql \<Rightarrow> image_mset (\<lambda>r. projr (read_row ps r)) (stored sql c))"

subsection \<open>Inside a transaction\<close>

lemma inside_or_error [inside_intros]: "inside_at d a m s \<Longrightarrow> inside_at d a (or_error e m) s"
  by (auto simp: inside_at_def or_error_def split: prod.splits sum.splits)

lemma or_error_Inr [run_simps]: "or_error e m s = (Inr x, t) \<longleftrightarrow> m s = (Inr x, t)"
  by (auto simp: or_error_def split: prod.splits sum.splits)

lemma keeps_or_error [frame_intros]: "keeps_target f m \<Longrightarrow> keeps_target f (or_error e m)"
  by (auto simp: keeps_target_def or_error_def split: prod.splits sum.splits) (metis snd_conv)+

lemma keeps_sink [frame_intros]: "keeps_target f (snapshot_sink env row acc)"
  unfolding snapshot_sink_def by (auto intro!: frame_intros split: prod.splits)

lemma keeps_release_any:
  "keeps_target f m \<Longrightarrow> (\<And>u. xs_target (g u) = xs_target u) \<Longrightarrow> keeps_target f (or_release g m)"
  by (auto simp: keeps_target_def or_release_def split: prod.splits sum.splits) (metis snd_conv)+

lemma keeps_stream_loop:
  assumes "keeps_target f stopped" and "\<And>row acc. keeps_target f (sink row acc)"
    and "\<And>acc u. xs_target (release acc u) = xs_target u"
  shows "keeps_target f (stream_loop stopped sink release ps raws ended n acc)"
proof (induction raws arbitrary: n acc)
  case Nil
  show ?case by (simp, intro frame_intros keeps_release_any assms(3))
next
  case (Cons raw raws)
  show ?case by (simp, intro frame_intros keeps_release_any assms Cons.IH)
qed

lemma keeps_openD: "keeps_open auto m \<Longrightarrow> m db = (Inr x, db') \<Longrightarrow> auto db' = auto db"
  unfolding keeps_open_def by (metis fst_conv snd_conv is_ok_simps(2))

context sqlite_driver begin

lemma driver_durable:
  shows "durable (snd (sq_open sops path write db)) = durable db" "durable (snd (sq_busy_timeout sops n db)) = durable db"
    "durable (snd (sq_watch_cancel sops db)) = durable db" "durable (snd (sq_ignore_cancel sops db)) = durable db"
    "durable (snd (sq_execute_batch sops ''PRAGMA foreign_keys = ON'' db)) = durable db"
    "durable (snd (sq_execute_batch sops ''BEGIN IMMEDIATE'' db)) = durable db"
    "durable (snd (sq_execute_batch sops ''ROLLBACK'' db)) = durable db"
    "durable (snd (sq_columns sops db)) = durable db" "durable (snd (sq_foreign_keys sops db)) = durable db"
    "durable (snd (sq_schema sops db)) = durable db" "durable (snd (sq_indexes sops db)) = durable db"
    "durable (snd (sq_query sops sql db)) = durable db"
  by (use keeps_durable in \<open>simp_all add: keeps_durable_def\<close>)

lemmas driver_catalogue = columns_open foreign_keys_open schema_open indexes_open

lemma driver_query:
  assumes "sq_query sops sql db = ((rows, Inr ()), db')"
  shows "sq_autocommit sops db' = sq_autocommit sops db \<and> visible db' = visible db \<and> mset rows = stored sql (visible db)"
  using reads_stored assms unfolding reads_stored_def by blast

lemma driver_execute: "inside_tx durable (in_tx sops) (sq_execute sops sql vs)"
  using writes_inside unfolding writes_inside_def inside_tx_def by blast

lemma driver_transaction:
  shows "sq_execute_batch sops ''BEGIN IMMEDIATE'' db = (Inr x, db') \<Longrightarrow> \<not> sq_autocommit sops db'"
    and "sq_execute_batch sops ''COMMIT'' db = (Inr x, db') \<Longrightarrow> durable db' = visible db"
    and "sq_execute_batch sops ''COMMIT'' db = (Inl e, db') \<Longrightarrow> \<not> sq_autocommit sops db' \<Longrightarrow> durable db' = durable db"
    and "sq_autocommit sops (snd (sq_ignore_cancel sops db)) = sq_autocommit sops db"
  using commits_visible unfolding commits_visible_def by blast+

end

lemma inside_read:
  assumes "\<And>db. durable (snd (m db)) = durable db" and "keeps_open auto m"
  shows "inside_at durable (\<lambda>db. \<not> auto db) (on_target m) s"
  using assms by (intro inside_target) (auto simp: keeps_open_def inside_tx_def)

lemma on_target_abind: "on_target (abind m g) = abind (on_target m) (\<lambda>x. on_target (g x))"
  by (rule ext) (auto simp: on_target_def abind_def split: prod.splits sum.splits)

lemma on_target_basic: "on_target (areturn x) = areturn x" "on_target (or_error e m) = or_error e (on_target m)"
  by (rule ext, auto simp: on_target_def areturn_def or_error_def split: prod.splits sum.splits)+

lemma on_target_split: "on_target (case p of (a, b) \<Rightarrow> f a b) = (case p of (a, b) \<Rightarrow> on_target (f a b))"
  by (cases p) simp

lemma inside_metadata:
  assumes "sqlite_driver (se_ops env) durable visible stored"
  shows "inside_at durable (in_tx (se_ops env)) (on_target (sqlite_metadata env config)) s"
  unfolding sqlite_metadata_def sqlite_load_def on_target_abind on_target_split on_target_basic
  by (intro inside_intros inside_read sqlite_driver.driver_durable [OF assms] sqlite_driver.driver_catalogue [OF assms])
    (auto intro!: inside_intros split: prod.splits)

text \<open>A snapshot, also of a query that fails on the way, which then fails as a whole.\<close>

lemma sqlite_rows_target:
  "sqlite_rows env False sql s = (r, t) \<longleftrightarrow> (case sq_query (se_ops env) sql (xs_target s) of (x, db) \<Rightarrow>
     r = Inr x \<and> t = s\<lparr>xs_target := db\<rparr>)"
  by (auto simp: sqlite_rows_def on_conn_def on_target_def sure_def split: prod.splits)

lemma sqlite_stream_run:
  assumes "sqlite_driver (se_ops env) durable visible stored"
    and "\<And>row acc. keeps_target (\<lambda>db. db) (sink row acc)" and "\<And>acc u. xs_target (release acc u) = xs_target u"
    and "sqlite_stream (sqlite_rows env False) (on_res cancelled) sink release ps acc s = (r, t)"
  shows "durable (xs_target t) = durable (xs_target s)"
    and "r = Inr x \<Longrightarrow> sq_autocommit (se_ops env) (xs_target t) = sq_autocommit (se_ops env) (xs_target s)
      \<and> visible (xs_target t) = visible (xs_target s)"
proof -
  have loop: "xs_target u = xs_target v" if "stream_loop (on_res cancelled) sink release ps rows ended n acc v = (y, u)"
    for rows ended n acc v y u
    by (rule keepsD [OF keeps_stream_loop that]) (rule frame_intros assms(2,3))+
  show "durable (xs_target t) = durable (xs_target s)"
    using assms(4) loop sqlite_driver.driver_durable(12) [OF assms(1)]
    by (auto simp: sqlite_stream_def abind_def or_release_def alift_def sqlite_rows_target assms(3) split: prod.splits sum.splits)
      (metis snd_conv)+
  assume "r = Inr x"
  then obtain sql rows ended u where q: "sqlite_rows env False sql s = (Inr (rows, ended), u)"
    "stream_loop (on_res cancelled) sink release ps rows ended 0 acc u = (Inr x, t)"
    using assms(4) by (auto simp: sqlite_stream_def run_simps)
  have "ended = Inr ()" using stream_loop_invariant [where Q = "\<lambda>_ _. True"] q(2) by (metis prod.exhaust)
  then have "sq_query (se_ops env) sql (xs_target s) = ((rows, Inr ()), xs_target u)"
    using q(1) by (auto simp: sqlite_rows_target split: prod.splits)
  then show "sq_autocommit (se_ops env) (xs_target t) = sq_autocommit (se_ops env) (xs_target s)
      \<and> visible (xs_target t) = visible (xs_target s)"
    using sqlite_driver.driver_query [OF assms(1)] loop [OF q(2)] by metis
qed

lemma inside_snapshot:
  assumes "sqlite_driver (se_ops env) durable visible stored"
  shows "inside_at durable (in_tx (se_ops env)) (sqlite_snapshot env False ps w p) s"
proof -
  let ?stream = "sqlite_stream (sqlite_rows env False) (on_res cancelled) (snapshot_sink env) (\<lambda>(w, p). drop_all [w_inner w]) ps (w, p)"
  have "inside_at durable (in_tx (se_ops env)) ?stream s"
  proof (cases "?stream s")
    case (Pair r t)
    have "durable (xs_target t) = durable (xs_target s)"
      by (rule sqlite_stream_run(1) [OF assms keeps_sink _ Pair]) (auto split: prod.splits)
    moreover have "sq_autocommit (se_ops env) (xs_target t) = sq_autocommit (se_ops env) (xs_target s)
        \<and> visible (xs_target t) = visible (xs_target s)" if "r = Inr x" for x
      by (rule sqlite_stream_run(2) [OF assms keeps_sink _ Pair that]) (auto split: prod.splits)
    ultimately show ?thesis using Pair by (auto simp: inside_at_def is_ok_iff)
  qed
  then show ?thesis unfolding sqlite_snapshot_def by (auto intro!: inside_intros split: prod.splits)
qed

lemma inside_flush:
  assumes "sqlite_driver (se_ops env) durable visible stored"
  shows "inside_at durable (in_tx (se_ops env)) (sqlite_flush env bl rows p) s"
  unfolding sqlite_flush_def
  by (auto intro!: inside_intros inside_target sqlite_driver.driver_execute [OF assms])

lemma inside_make_room:
  assumes "sqlite_driver (se_ops env) durable visible stored"
  shows "inside_at durable (in_tx (se_ops env)) (sqlite_make_room env bl n bf p) s"
  unfolding sqlite_make_room_def by (auto intro!: inside_intros inside_flush [OF assms])

lemma inside_add_row:
  assumes "sqlite_driver (se_ops env) durable visible stored"
  shows "inside_at durable (in_tx (se_ops env)) (sqlite_add_row env bl oper bf p) s"
  unfolding sqlite_add_row_def by (auto intro!: inside_intros inside_make_room [OF assms] split: prod.splits)

lemma inside_write_rows:
  assumes "sqlite_driver (se_ops env) durable visible stored"
  shows "inside_at durable (in_tx (se_ops env)) (sqlite_write_rows env bl c bf p) s"
  using assms
proof (induction env bl c bf p s rule: sqlite_write_rows.induct)
  case (1 env bl c bf p s)
  let ?inside = "\<lambda>m :: ('a, exec_progress) exec_action. inside_at durable (in_tx (se_ops env)) m"
  have "?inside (\<lambda>s. abind (or_release (drop_bytes (bf_leases bf)) (on_res (next_row (bl_env bl) c))) (\<lambda>(row, c) s.
       case row of
         None \<Rightarrow> afinally (sqlite_flush env bl (bf_rows bf) p) (drop_bytes (bf_leases bf)) s
       | Some r \<Rightarrow>
           abind (or_release (drop_bytes (bf_leases bf)) (on_res checked)) (\<lambda>_ s.
             if row_table r \<noteq> vt_target (bl_mapping bl) then sqlite_write_rows env bl c bf p s
             else abind (or_release (drop_bytes (bf_leases bf)) (alift (operation_from_row r))) (\<lambda>oper s.
               if op_kind oper \<noteq> bl_kind bl then sqlite_write_rows env bl c bf p s
               else abind (sqlite_add_row env bl oper bf p) (\<lambda>bp s. sqlite_write_rows env bl c (fst bp) (snd bp) s) s) s) s) s) s"
    using "1.IH" "1.prems"
    by (auto intro!: inside_intros inside_flush inside_add_row split: option.split)
  then show ?case
    by (simp add: inside_at_def sqlite_write_rows.simps [of env bl c bf p s])
qed

lemma inside_write_tables:
  assumes "sqlite_driver (se_ops env) durable visible stored"
  shows "inside_at durable (in_tx (se_ops env)) (sqlite_write_tables env plan kind ts p) s"
proof (induction ts arbitrary: p s)
  case Nil
  then show ?case by (auto intro!: inside_intros)
next
  case (Cons t ts)
  then show ?case by (auto intro!: inside_intros inside_write_rows [OF assms] split: option.splits)
qed

lemma inside_deletes:
  assumes "sqlite_driver (se_ops env) durable visible stored"
  shows "inside_at durable (in_tx (se_ops env)) (sqlite_delete_tables env ts p) s"
proof (induction ts arbitrary: p s)
  case Nil
  then show ?case by (auto intro!: inside_intros)
next
  case (Cons t ts)
  then show ?case by (auto intro!: inside_intros inside_target sqlite_driver.driver_execute [OF assms])
qed

lemma inside_transaction:
  assumes "sqlite_driver (se_ops env) durable visible stored"
  shows "inside_at durable (in_tx (se_ops env)) (sqlite_transaction env plan target p) s"
  unfolding sqlite_transaction_def sqlite_changes_def sqlite_verify_def sqlite_unchanged_def sqlite_write_kind_def
  by (auto intro!: inside_intros inside_metadata [OF assms] inside_snapshot [OF assms] inside_deletes [OF assms]
      inside_write_tables [OF assms] split: prod.splits)

subsection \<open>What the verification shows\<close>

lemma read_rows_mset:
  "list_all2 (\<lambda>raw row. read_row ps raw = Inr row) raws rows \<Longrightarrow> rows = map (\<lambda>r. projr (read_row ps r)) raws"
  by (induction rule: list_all2_induct) auto

lemma sqlite_snapshot_rows:
  assumes "aead_ok (se_spool env)" and "\<forall>q \<in> set ps. valid_utf8 (pj_output q)" and "writes (se_spool env) w []"
    and "sqlite_snapshot env from_source ps w p s = (Inr (h, q), t)"
  obtains sql raws u rows where "snapshot_sql ps = Inr sql" "sqlite_rows env from_source sql s = (Inr (raws, Inr ()), u)"
    "list_all2 (\<lambda>raw row. read_row ps raw = Inr row) raws rows" "holds (se_spool env) h (map norm_row rows)"
proof -
  obtain n w' q u where r: "sqlite_stream (sqlite_rows env from_source) (on_res cancelled) (snapshot_sink env)
      (\<lambda>(w, p). drop_all [w_inner w]) ps (w, p) s = (Inr (n, w', q), u)"
    "on_res (finish_writer (se_spool env) w') u = (Inr h, t)"
    using assms(4) by (auto simp: sqlite_snapshot_def run_simps)
  obtain sql raws v rows where q: "snapshot_sql ps = Inr sql" "sqlite_rows env from_source sql s = (Inr (raws, Inr ()), v)"
    "list_all2 (\<lambda>raw row. read_row ps raw = Inr row) raws rows"
    "writes (se_spool env) (fst (w', q)) (map norm_row rows)"
  proof (rule sqlite_stream_invariant [where Q = "\<lambda>xs acc. writes (se_spool env) (fst acc) (map norm_row xs)", OF _ _ r(1)])
    fix row raw xs acc s acc' t
    assume sink: "writes (se_spool env) (fst acc) (map norm_row xs)" "read_row ps raw = Inr row"
      "snapshot_sink env row acc s = (Inr acc', t)"
    have "wf_row row" by (rule typed_wf_row [OF read_row_typed [OF sink(2)] assms(2)])
    then show "writes (se_spool env) (fst acc') (map norm_row (xs @ [row]))"
      using sink(1,3) put_writes [OF assms(1)]
      by (fastforce simp: snapshot_sink_def run_simps)
  qed (use assms(3) in auto)
  have "holds (se_spool env) h (map norm_row rows)"
    using finish_holds q(4) r(2) by (fastforce simp: on_res_def split: prod.splits)
  then show thesis using that q by blast
qed

lemma sqlite_snapshot_holds:
  assumes "sqlite_driver (se_ops env) durable visible stored" and "aead_ok (se_spool env)"
    and "\<forall>q \<in> set ps. valid_utf8 (pj_output q)" and "writes (se_spool env) w []"
    and "sqlite_snapshot env False ps w p s = (Inr (h, q), t)"
  obtains rows where "holds (se_spool env) h (map norm_row rows)"
    "mset rows = database_rows stored ps (visible (xs_target s))" "visible (xs_target t) = visible (xs_target s)"
proof -
  obtain sql raws v rows where q: "snapshot_sql ps = Inr sql" "sqlite_rows env False sql s = (Inr (raws, Inr ()), v)"
    "list_all2 (\<lambda>raw row. read_row ps raw = Inr row) raws rows" "holds (se_spool env) h (map norm_row rows)"
    by (rule sqlite_snapshot_rows [OF assms(2-5)])
  have rows: "mset rows = database_rows stored ps (visible (xs_target s))"
    using sqlite_driver.driver_query [OF assms(1)] q(1,2)
    by (auto simp: database_rows_def sqlite_rows_target read_rows_mset [OF q(3)] split: prod.splits)
  obtain n w' u where r: "sqlite_stream (sqlite_rows env False) (on_res cancelled) (snapshot_sink env)
      (\<lambda>(w, p). drop_all [w_inner w]) ps (w, p) s = (Inr (n, w', q), u)"
    "on_res (finish_writer (se_spool env) w') u = (Inr h, t)"
    using assms(5) by (auto simp: sqlite_snapshot_def run_simps)
  have "xs_target t = xs_target u" using r(2) by (auto simp: on_res_def split: prod.splits)
  moreover have "sq_autocommit (se_ops env) (xs_target u) = sq_autocommit (se_ops env) (xs_target s)
      \<and> visible (xs_target u) = visible (xs_target s)"
    by (rule sqlite_stream_run(2) [OF assms(1) keeps_sink _ r(1) refl]) (auto split: prod.splits)
  ultimately show thesis using that q(4) rows by simp
qed

lemma sqlite_verify_equal:
  assumes "sqlite_driver (se_ops env) durable visible stored" and "aead_ok (se_spool env)"
    and "\<forall>m \<in> set (vm_tables (sp_mapping plan)). valid_utf8 (vt_target m)"
    and "holds (se_spool env) (so_spool (sp_expected plan)) es"
    and "sqlite_verify env plan p s = (Inr q, t)"
  shows "final_rows (database_rows stored) (sp_mapping plan) (visible (xs_target t)) = mset es"
proof -
  obtain w p1 s1 h p2 s2 u0 n u s0 where r: "handle_writer (se_spool env) (so_spool (sp_expected plan)) s0 = (Inr w, u0)"
    "sqlite_snapshot env False (projections (sp_mapping plan) False) w p1 s1 = (Inr (h, p2), s2)"
    "sort_compare (se_spool env) h (sp_expected plan) (xs_res s2) = (Inr (True, n), u)" "xs_target t = xs_target s2"
    using assms(5) unfolding sqlite_verify_def by (clarsimp simp: run_simps)
  have outputs: "\<forall>q \<in> set (projections (sp_mapping plan) False). valid_utf8 (pj_output q)"
    using assms(3) by (auto simp: projections_def)
  have "writes (se_spool env) w []" using r(1) by (auto simp: handle_writer_def intro: writer_new_writes)
  then obtain rows where rows: "holds (se_spool env) h (map norm_row rows)"
    "mset rows = database_rows stored (projections (sp_mapping plan) False) (visible (xs_target s1))"
    "visible (xs_target s2) = visible (xs_target s1)"
    using sqlite_snapshot_holds [OF assms(1,2) outputs _ r(2)] by metis
  have "mset (map norm_row rows) = mset es" by (rule sort_compare_equal [OF assms(2) rows(1) assms(4) r(3)])
  then show ?thesis using rows(2,3) r(4) by (simp add: final_rows_def)
qed

lemma sqlite_transaction_verified:
  assumes "sqlite_driver (se_ops env) durable visible stored" and "aead_ok (se_spool env)"
    and "\<forall>m \<in> set (vm_tables (sp_mapping plan)). valid_utf8 (vt_target m)"
    and "holds (se_spool env) (so_spool (sp_expected plan)) es"
    and "sqlite_transaction env plan target p s = (Inr q, t)"
  shows "final_rows (database_rows stored) (sp_mapping plan) (visible (xs_target t)) = mset es"
proof -
  obtain p1 s1 where "sqlite_verify env plan p1 s1 = (Inr q, t)"
    using assms(5) unfolding sqlite_transaction_def abind_Inr by blast
  then show ?thesis by (rule sqlite_verify_equal [OF assms(1-4)])
qed

subsection \<open>Every outcome\<close>

lemma is_done_eq: "is_done m s = (Inr (is_ok (fst (m (xs_target s)))), s\<lparr>xs_target := snd (m (xs_target s))\<rparr>)"
  by (simp add: is_done_def on_target_def)

lemma sqlite_rollback_run:
  assumes "sqlite_driver (se_ops env) durable visible stored"
  obtains ok t where "sqlite_rollback env s = (Inr ok, t)" "durable (xs_target t) = durable (xs_target s)"
  using sqlite_driver.driver_durable(4,7) [OF assms] by (simp add: sqlite_rollback_def abind_def is_done_eq)

lemma sqlite_failure_run:
  assumes "sqlite_driver (se_ops env) durable visible stored" and "sqlite_failure env message (first_result plan) s = (x, t)"
  shows "\<exists>r. x = Inr r \<and> outcome_sound rows_of plan es (durable (xs_target s)) (durable (xs_target t)) r"
proof -
  obtain c u where c: "on_res cancelled s = (Inr c, s\<lparr>xs_res := u\<rparr>)" using on_res_cancelled .
  obtain ok v where v: "sqlite_rollback env (s\<lparr>xs_res := u\<rparr>) = (Inr ok, v)"
    "durable (xs_target v) = durable (xs_target (s\<lparr>xs_res := u\<rparr>))"
    by (rule sqlite_rollback_run [OF assms(1)])
  then show ?thesis using assms(2) c
    by (cases ok) (auto simp: sqlite_failure_def abind_def areturn_def Let_def first_result_def outcome_sound_def
      unknown_outcome_def stopped_status_def)
qed

lemma sqlite_cancelled_run:
  assumes "sqlite_driver (se_ops env) durable visible stored" and "sqlite_cancelled env (first_result plan) s = (x, t)"
  shows "\<exists>r. x = Inr r \<and> (outcome_sound rows_of plan es (durable (xs_target s)) (durable (xs_target t)) r
    \<or> r = unknown_outcome (first_result plan))"
proof -
  obtain ok v where v: "sqlite_rollback env s = (Inr ok, v)" "durable (xs_target v) = durable (xs_target s)"
    by (rule sqlite_rollback_run [OF assms(1)])
  then show ?thesis using assms(2)
    by (cases ok) (auto simp: sqlite_cancelled_def abind_def areturn_def first_result_def outcome_sound_def)
qed

lemma sqlite_commit_run:
  assumes "sqlite_driver (se_ops env) durable visible stored"
    and "final_rows rows_of (sp_mapping plan) (visible (xs_target s)) = mset es"
    and "sqlite_commit env p (first_result plan) s = (x, t)"
  shows "\<exists>r. x = Inr r \<and> outcome_sound rows_of plan es (durable (xs_target s)) (durable (xs_target t)) r"
proof -
  obtain y db where c: "sq_execute_batch (se_ops env) ''COMMIT'' (xs_target s) = (y, db)" by fastforce
  show ?thesis
  proof (cases y)
    case (Inr _)
    obtain q us where "emit (se_spool env) Succeeded True p (s\<lparr>xs_target := db\<rparr>)
        = (Inr q, s\<lparr>xs_target := db\<rparr>\<lparr>xs_updates := us\<rparr>)" by (rule emit_eq)
    then show ?thesis using assms(2,3) c Inr sqlite_driver.driver_transaction(2) [OF assms(1)]
      by (auto simp: sqlite_commit_def is_done_eq abind_def areturn_def outcome_sound_def first_result_def)
  next
    case (Inl e)
    let ?db = "snd (sq_ignore_cancel (se_ops env) db)"
    show ?thesis
    proof (cases "sq_autocommit (se_ops env) ?db")
      case True
      then show ?thesis using assms(3) c Inl
        by (auto simp: sqlite_commit_def is_done_eq abind_def areturn_def on_target_def aget_def outcome_sound_def
          first_result_def unknown_outcome_def)
    next
      case False
      then show ?thesis using assms(3) c Inl sqlite_driver.driver_transaction(3) [OF assms(1)]
          sqlite_driver.driver_transaction(4) [OF assms(1)] sqlite_driver.driver_durable(4,7) [OF assms(1)]
        by (auto simp: sqlite_commit_def is_done_eq abind_def areturn_def on_target_def aget_def outcome_sound_def
          first_result_def unknown_outcome_def)
    qed
  qed
qed

lemma sqlite_preflight_keeps:
  assumes "sqlite_driver (se_ops env) durable visible stored"
  shows "keeps_target durable (sqlite_preflight env plan source target)"
proof -
  note law = sqlite_driver.driver_durable [OF assms]
  have "keeps_target durable (on_target (sqlite_open (se_ops env) path w))" for path w
    unfolding sqlite_open_def on_target_abind on_target_basic
    by (intro frame_intros keeps_on_target law)
  then show ?thesis unfolding sqlite_preflight_def by (auto intro!: frame_intros split: prod.splits)
qed

lemma sqlite_closing_run:
  assumes "sqlite_driver (se_ops env) durable visible stored"
    and "final_rows rows_of (sp_mapping plan) (visible (xs_target s)) = mset es"
    and "sqlite_closing env p (first_result plan) s = (x, t)"
  shows "\<exists>r. x = Inr r \<and> (outcome_sound rows_of plan es (durable (xs_target s)) (durable (xs_target t)) r
    \<or> r = unknown_outcome (first_result plan))"
proof -
  obtain q us where e: "emit (se_spool env) Committing True p s = (Inr q, s\<lparr>xs_updates := us\<rparr>)" by (rule emit_eq)
  obtain c u where c: "on_res cancelled (s\<lparr>xs_updates := us\<rparr>) = (Inr c, s\<lparr>xs_updates := us\<rparr>\<lparr>xs_res := u\<rparr>)"
    by (rule on_res_cancelled)
  let ?s = "s\<lparr>xs_updates := us\<rparr>\<lparr>xs_res := u\<rparr>"
  show ?thesis
  proof (cases c)
    case True
    then have "sqlite_cancelled env (first_result plan) ?s = (x, t)"
      using assms(3) e c by (simp add: sqlite_closing_def abind_def)
    from sqlite_cancelled_run [OF assms(1) this] show ?thesis by simp
  next
    case False
    then have "sqlite_commit env q (first_result plan) ?s = (x, t)"
      using assms(3) e c by (simp add: sqlite_closing_def abind_def)
    from sqlite_commit_run [OF assms(1) _ this, of rows_of es] assms(2) show ?thesis by auto
  qed
qed

text \<open>A panic leaves the thread with the transaction open; the durable content is what it was.\<close>

lemma sqlite_protected_run:
  assumes "sqlite_driver (se_ops env) durable visible stored" and "aead_ok (se_spool env)"
    and "\<forall>m \<in> set (vm_tables (sp_mapping plan)). valid_utf8 (vt_target m)"
    and "holds (se_spool env) (so_spool (sp_expected plan)) es"
    and "sqlite_protected env plan target p s = (Inr r, t)"
  shows "outcome_sound (database_rows stored) plan es (durable (xs_target s)) (durable (xs_target t)) r
    \<or> r = unknown_outcome (first_result plan)"
proof -
  obtain y db where locked: "sq_execute_batch (se_ops env) ''BEGIN IMMEDIATE'' (xs_target s) = (y, db)" by fastforce
  have db: "durable db = durable (xs_target s)" using sqlite_driver.driver_durable(6) [OF assms(1)] locked by (metis snd_conv)
  show ?thesis
  proof (cases y)
    case (Inl e)
    then show ?thesis using assms(5) locked db
      by (auto simp: sqlite_protected_def is_done_eq abind_def on_res_def cancelled_def areturn_def outcome_sound_def first_result_def
        split: prod.splits)
  next
    case (Inr u)
    have opened: "\<not> sq_autocommit (se_ops env) db" by (rule sqlite_driver.driver_transaction(1) [OF assms(1) locked [unfolded Inr]])
    obtain z v where work: "sqlite_transaction env plan target p (s\<lparr>xs_target := db\<rparr>) = (z, v)" by fastforce
    have v: "durable (xs_target v) = durable db"
      using insideD(1) [OF inside_transaction [OF assms(1)] work] opened by simp
    show ?thesis
    proof (cases z)
      case (Inl message)
      then have "sqlite_failure env message (first_result plan) v = (Inr r, t)"
        using assms(5) locked Inr work
        by (auto simp: sqlite_protected_def is_done_eq abind_def attempt_def afail_def split: if_splits)
      from sqlite_failure_run [OF assms(1) this] show ?thesis using v db by auto
    next
      case next_p: (Inr q)
      have "final_rows (database_rows stored) (sp_mapping plan) (visible (xs_target v)) = mset es"
        by (rule sqlite_transaction_verified [OF assms(1-4) work [unfolded next_p]])
      moreover have "sqlite_closing env q (first_result plan) v = (Inr r, t)"
        using assms(5) locked Inr work next_p by (simp add: sqlite_protected_def is_done_eq abind_def attempt_def)
      ultimately show ?thesis using sqlite_closing_run [OF assms(1)] v db by fastforce
    qed
  qed
qed

lemma execute_sqlite_run:
  assumes "sqlite_driver (se_ops env) durable visible stored" and "aead_ok (se_spool env)"
    and "\<forall>m \<in> set (vm_tables (sp_mapping plan)). valid_utf8 (vt_target m)"
    and "holds (se_spool env) (so_spool (sp_expected plan)) es"
    and "execute_sqlite env plan source target s = (Inr r, t)"
  shows "outcome_sound (database_rows stored) plan es (durable (xs_target s)) (durable (xs_target t)) r
    \<or> r = unknown_outcome (first_result plan)"
proof -
  obtain p where p: "on_res (new_progress (se_spool env)) s = (Inr p, s)"
    by (auto simp: on_res_def new_progress_def aget_def)
  obtain y s1 where pre: "sqlite_preflight env plan source target s = (y, s1)" by fastforce
  have s1: "durable (xs_target s1) = durable (xs_target s)"
    using keepsD [OF sqlite_preflight_keeps [OF assms(1)] pre] by simp
  show ?thesis
  proof (cases y)
    case (Inl e)
    then show ?thesis using assms(5) p pre s1
      by (auto simp: execute_sqlite_def abind_def attempt_def areturn_def outcome_sound_def first_result_def stopped_status_def)
  next
    case (Inr _)
    then have "sqlite_protected env plan target p s1 = (Inr r, t)"
      using assms(5) p pre by (simp add: execute_sqlite_def abind_def attempt_def)
    from sqlite_protected_run [OF assms(1-4) this] show ?thesis using s1 by simp
  qed
qed

text \<open>
  A driver over a list of rows, for the witnesses: the rows of the file, what the connection sees, and
  whether it is in autocommit mode. It knows a table \<open>t\<close> with one column.
\<close>

type_synonym file_db = "raw_row list \<times> raw_row list \<times> bool"

definition file_ops :: "file_db sqlite_ops" where
  "file_ops = \<lparr>sq_open = (\<lambda>_ _ (d, v, a). (Inr (), (d, d, True))), sq_busy_timeout = (\<lambda>_ db. (Inr (), db)),
     sq_watch_cancel = (\<lambda>db. (Inr (), db)), sq_ignore_cancel = (\<lambda>db. (Inr (), db)),
     sq_execute_batch = (\<lambda>sql (d, v, a).
       if sql = ''COMMIT'' then (Inr (), (v, v, True))
       else if sql = ''ROLLBACK'' then (Inr (), (d, d, True))
       else if sql = ''BEGIN IMMEDIATE'' \<or> sql = ''BEGIN DEFERRED'' then (Inr (), (d, v, False))
       else (Inr (), (d, v, a))),
     sq_execute = (\<lambda>sql vs (d, v, a). if starts_with ''INSERT'' sql
       then (Inr (length vs), (d, v @ map (\<lambda>c. \<lparr>rr_table = 0, rr_cells = [c], rr_oversized = 0\<rparr>) vs, a))
       else if starts_with ''DELETE'' sql then (Inr (length v), (d, [], a))
       else (Inl ''no such statement'', (d, v, a))),
     sq_query = (\<lambda>sql (d, v, a). ((v, Inr ()), (d, v, a))),
     sq_columns = (\<lambda>db. (Inr [\<lparr>qc_table = ''t'', qc_sql = '''', qc_kind = ''table'', qc_without_rowid = 0, qc_name = ''i'',
       qc_type = ''INTEGER'', qc_not_null = 1, qc_default = None, qc_pk = 1, qc_hidden = 0\<rparr>], db)),
     sq_foreign_keys = (\<lambda>db. (Inr [], db)),
     sq_schema = (\<lambda>db. (Inr [\<lparr>qs_kind = ''table'', qs_name = ''t'', qs_table = ''t'', qs_sql = ''''\<rparr>], db)),
     sq_indexes = (\<lambda>db. (Inr [], db)), sq_autocommit = (\<lambda>(d, v, a). a)\<rparr>"

interpretation file_driver: sqlite_driver file_ops fst "\<lambda>db. fst (snd db)" "\<lambda>sql. mset"
  by unfold_locales (auto simp: keeps_durable_def keeps_open_def reads_stored_def writes_inside_def commits_visible_def file_ops_def)

definition no_session :: "file_db session_ops" where
  "no_session = \<lparr>ss_dialect = DSqlite, supports_transaction = False, ss_identity = (\<lambda>_. None),
     ss_cleanup_errors = (\<lambda>db. ([], db)), ss_open = (\<lambda>_ _. afail []), ss_begin_read = afail [],
     ss_begin_protected_write = (\<lambda>_. afail []), ss_load_metadata = afail [], ss_stream = (\<lambda>_ db. (([], Inl []), db)),
     ss_write_batch = (\<lambda>_. afail []), ss_delete_all = (\<lambda>_. afail []), ss_maintain_generators = (\<lambda>_. afail []),
     ss_commit = afail [], ss_rollback = afail [], ss_answers = (\<lambda>_. False)\<rparr>"

definition file_env :: "file_db sqlite_env" where
  "file_env = \<lparr>ee_plan = plain_plan_env\<lparr>pe_spool := plain_env\<lparr>digest := (\<lambda>_. [])\<rparr>\<rparr>, ee_source = no_session, ee_target = no_session,
     ee_fingerprint = (\<lambda>_. []), ee_calendar = (\<lambda>_ _ _. True), ee_canonicalize = Some, ee_value_size = 48,
     ee_same_file = (\<lambda>_ _. Some False), se_ops = file_ops, se_read_only_file = (\<lambda>_. Some False)\<rparr>"

definition file_config :: "string \<Rightarrow> connection_config" where
  "file_config path = (example_config path [])\<lparr>cc_database_type := Sqlite, cc_sqlite_path := Some path\<rparr>"

text \<open>
  C39. An execution between two SQLite files tells the truth about its target: it always ends with a
  result; when it reports a commit, the mapped rows of the target are exactly the expected rows of the
  plan; when it reports that nothing was written or that it was rolled back, the file is what it was;
  in every other case it reports an unknown outcome and asks for the target to be read again. An error
  is named in all of these but one: a cancellation before the commit whose rollback fails.
\<close>

theorem sqlite_execution_outcome:
  assumes "sqlite_driver (se_ops env) durable visible stored" and "aead_ok (se_spool env)"
    and "\<forall>m \<in> set (vm_tables (sp_mapping plan)). valid_utf8 (vt_target m)"
    and "holds (se_spool env) (so_spool (sp_expected plan)) es"
    and "cc_database_type source = Sqlite" and "cc_database_type target = Sqlite"
    and "execute_plan env plan source target s = (x, t)"
  shows "\<exists>r. x = Inr r \<and> (outcome_sound (database_rows stored) plan es (durable (xs_target s)) (durable (xs_target t)) r
    \<or> r = unknown_outcome (first_result plan))"
proof -
  obtain y where y: "execute_sqlite env plan source target s = (y, t)"
    "x = Inr (case y of Inl _ \<Rightarrow> interrupted_result plan | Inr r \<Rightarrow> r)"
    using assms(5-7) by (auto simp: execute_plan_def abind_def attempt_def areturn_def split: prod.splits)
  show ?thesis
  proof (cases y)
    case (Inl e)
    then show ?thesis using y(2)
      by (simp add: interrupted_result_def unknown_outcome_def first_result_def outcome_sound_def)
  next
    case (Inr r)
    from execute_sqlite_run [OF assms(1-4) y(1) [unfolded Inr]] show ?thesis using y(2) Inr by simp
  qed
qed

text \<open>For evaluation, see \<open>Actions\<close>.\<close>

lemmas sqlite_execute_run [code] = on_conn_def [THEN fun_cong] sqlite_metadata_def [THEN fun_cong]
  snapshot_sink_def [THEN fun_cong] sqlite_rows_def [THEN fun_cong] sqlite_snapshot_def [THEN fun_cong]
  target_sink_def [THEN fun_cong] target_snapshot_def [THEN fun_cong] sqlite_begin_read_def [THEN fun_cong]
  sqlite_end_read_def [THEN fun_cong] sqlite_inputs_def [THEN fun_cong] sqlite_snapshots_def [THEN fun_cong]
  prepare_sqlite_def [THEN fun_cong] sqlite_flush_def [THEN fun_cong] sqlite_make_room_def [THEN fun_cong]
  sqlite_add_row_def [THEN fun_cong] sqlite_write_tables.simps [THEN fun_cong]
  sqlite_write_kind_def [THEN fun_cong] sqlite_delete_tables.simps [THEN fun_cong]
  sqlite_unchanged_def [THEN fun_cong] sqlite_changes_def [THEN fun_cong] sqlite_verify_def [THEN fun_cong]
  sqlite_transaction_def [THEN fun_cong] sqlite_preflight_def [THEN fun_cong] is_done_def [THEN fun_cong]
  sqlite_rollback_def [THEN fun_cong] sqlite_failure_def [THEN fun_cong] sqlite_cancelled_def [THEN fun_cong]
  sqlite_commit_def [THEN fun_cong] sqlite_closing_def [THEN fun_cong] sqlite_protected_def [THEN fun_cong]
  execute_sqlite_def [THEN fun_cong] execute_plan_def [THEN fun_cong]

end
