(* ===== verification/Sqlite_Session.thy ===== *)
theory Sqlite_Session
  imports Sqlite_Execute
begin

text \<open>
  SQLite as one end of a task between databases of different types
  (\<open>src-tauri/src/db/data\_tasks/adapters/sqlite\_async.rs\<close>): a session of the interface of \<open>Session\<close>
  whose connection lives on a thread of its own. Every call of the session is a job of that thread and
  the caller waits for its answer, so a call is one action on the state of the worker. A panic of a
  job, after which the session is closed, is not modelled.
\<close>

subsection \<open>The worker\<close>

text \<open>
  \<open>sw\_polls\<close> counts how often the worker has read the cancellation flag, \<open>sw\_sent\<close> are the rows the
  running stream has sent. There is no identity before the session was opened.
\<close>

record 'db sqlite_worker =
  sw_conn :: 'db
  sw_config :: "connection_config option"
  sw_writable :: bool
  sw_identity :: "endpoint_identity option"
  sw_polls :: nat
  sw_sent :: "canonical_row list"

text \<open>
  \<open>sx\_cancel\<close> is the cancellation flag as the worker reads it, \<open>sx\_memory\<close> the memory of the budget the
  rows are sent under, \<open>sx\_thread\<close> whether the thread could be started.
\<close>

record 'db sqlite_session_env =
  sx_ops :: "'db sqlite_ops"
  sx_digest :: "bytes \<Rightarrow> string"
  sx_mem_size :: "canonical_row \<Rightarrow> nat"
  sx_memory :: nat
  sx_cancel :: "nat \<Rightarrow> bool"
  sx_fingerprint :: "connection_config \<Rightarrow> string"
  sx_canonicalize :: "string \<Rightarrow> string option"
  sx_read_only_file :: "string \<Rightarrow> bool option"
  sx_thread :: bool
  sx_answers :: "'db \<Rightarrow> bool"

type_synonym ('db, 'a) worker_action = "('db sqlite_worker, 'a) action"

definition on_connection :: "('db, 'a) action \<Rightarrow> ('db, 'a) worker_action" where
  "on_connection m w = (case m (sw_conn w) of (r, db) \<Rightarrow> (r, w\<lparr>sw_conn := db\<rparr>))"

definition worker_stopped :: "'db sqlite_session_env \<Rightarrow> ('db, bool) worker_action" where
  "worker_stopped env w = (Inr (sx_cancel env (sw_polls w)), w\<lparr>sw_polls := sw_polls w + 1\<rparr>)"

definition not_stopped :: "'db sqlite_session_env \<Rightarrow> err \<Rightarrow> ('db, unit) worker_action" where
  "not_stopped env e = abind (worker_stopped env) (\<lambda>c. aguard (\<not> c) e)"

subsection \<open>Opening\<close>

definition worker_writable :: "'db sqlite_session_env \<Rightarrow> connection_config \<Rightarrow> string \<Rightarrow> bool result" where
  "worker_writable env config canonical =
     (if unwrap_or False (cc_read_only config) then Inr False
      else rbind (ok_or ''the permissions of the SQLite file cannot be read'' (sx_read_only_file env canonical)) (\<lambda>read_only.
        Inr (\<not> read_only)))"

definition worker_open :: "'db sqlite_session_env \<Rightarrow> connection_config \<Rightarrow> data_endpoint \<Rightarrow> ('db, unit) worker_action" where
  "worker_open env config endpoint =
     abind (aguard (cc_database_type config = Sqlite \<and> ep_database endpoint = ''main'')
       ''unsupported_capability: SQLite has the main database only'') (\<lambda>_.
     abind (alift (ok_or ''invalid_mapping: there is no SQLite file'' (cc_sqlite_path config))) (\<lambda>path.
     abind (alift (ok_or ''invalid_mapping: the SQLite file cannot be reached'' (sx_canonicalize env path))) (\<lambda>canonical.
     abind (alift (worker_writable env config canonical)) (\<lambda>writable.
     abind (aguard (sx_thread env) ''resource_limit: the SQLite thread cannot be started'') (\<lambda>_.
     abind (on_connection (sqlite_open (sx_ops env) canonical writable)) (\<lambda>_.
       amodify (\<lambda>w. w\<lparr>sw_config := Some config, sw_writable := writable,
         sw_identity := Some (sqlite_identity canonical)\<rparr>)))))))"

subsection \<open>Reading\<close>

definition worker_begin_read :: "'db sqlite_session_env \<Rightarrow> ('db, unit) worker_action" where
  "worker_begin_read env = on_connection (or_error ''the SQLite read transaction cannot be started''
     (sq_execute_batch (sx_ops env) ''BEGIN DEFERRED''))"

definition worker_metadata :: "'db sqlite_session_env \<Rightarrow> ('db, metadata_snapshot) worker_action" where
  "worker_metadata env =
     abind (on_connection (sqlite_load (sx_digest env) (sx_ops env))) (\<lambda>(tables, signature).
     aget (\<lambda>w. \<lparr>md_database_type = Sqlite, md_tables = tables, md_read_only = \<not> sw_writable w,
       permissions_verified = True, consistent_snapshot = True, protected_write = sw_writable w,
       schema_fingerprint = signature,
       configuration_fingerprint = (case sw_config w of Some c \<Rightarrow> sx_fingerprint env c | None \<Rightarrow> [])\<rparr>))"

text \<open>
  A row is sent when the memory for it could be reserved; the wait for the memory is one step here,
  which may find the task cancelled.
\<close>

definition reserve_decode :: "'db sqlite_session_env \<Rightarrow> nat \<Rightarrow> ('db, unit) worker_action" where
  "reserve_decode env n =
     abind (aguard (n \<le> sx_memory env) ''resource_limit: a row exceeds the shared memory'') (\<lambda>_.
       not_stopped env ''cancelled: the snapshot was cancelled'')"

definition send_row :: "'db sqlite_session_env \<Rightarrow> canonical_row \<Rightarrow> canonical_row list \<Rightarrow> ('db, canonical_row list) worker_action" where
  "send_row env row sent =
     abind (reserve_decode env (sx_mem_size env row)) (\<lambda>_.
     abind (amodify (\<lambda>w. w\<lparr>sw_sent := sent @ [row]\<rparr>)) (\<lambda>_. areturn (sent @ [row])))"

definition worker_stream ::
    "'db sqlite_session_env \<Rightarrow> projection list \<Rightarrow> 'db sqlite_worker \<Rightarrow> (canonical_row list \<times> nat result) \<times> 'db sqlite_worker" where
  "worker_stream env ps w =
     (case sqlite_stream (\<lambda>sql. on_connection (sure (sq_query (sx_ops env) sql))) (worker_stopped env) (send_row env)
         (\<lambda>_ w. w) ps [] (w\<lparr>sw_sent := []\<rparr>) of
       (Inl e, t) \<Rightarrow> ((sw_sent t, Inl e), t)
     | (Inr (n, rows), t) \<Rightarrow> ((rows, Inr n), t))"

subsection \<open>Writing\<close>

definition worker_begin_write :: "'db sqlite_session_env \<Rightarrow> string list \<Rightarrow> ('db, unit) worker_action" where
  "worker_begin_write env tables =
     abind (aguard (tables \<noteq> [] \<and> length tables \<le> 100) ''invalid_mapping: the SQLite target tables are invalid'') (\<lambda>_.
     abind (aget sw_writable) (\<lambda>writable.
     abind (aguard writable ''read_only_target: the SQLite file or connection is read only'') (\<lambda>_.
       on_connection (or_error ''lock_timeout: the SQLite target cannot be locked within 10 seconds''
         (sq_execute_batch (sx_ops env) ''BEGIN IMMEDIATE'')))))"

definition worker_write_batch :: "'db sqlite_session_env \<Rightarrow> write_batch \<Rightarrow> ('db, nat) worker_action" where
  "worker_write_batch env b =
     abind (not_stopped env ''cancelled: the task was cancelled'') (\<lambda>_.
     abind (alift (collect_results sqlite_bind (wb_params b))) (\<lambda>values.
       on_connection (or_error ''constraint_conflict: the SQLite batch was rejected by constraints or permissions''
         (sq_execute (sx_ops env) (wb_sql b) values))))"

definition worker_delete_all :: "'db sqlite_session_env \<Rightarrow> string \<Rightarrow> ('db, nat) worker_action" where
  "worker_delete_all env t =
     abind (not_stopped env ''cancelled: the task was cancelled'') (\<lambda>_.
       on_connection (or_error ''constraint_conflict: the rows of the SQLite target cannot be deleted''
         (sq_execute (sx_ops env) (''DELETE FROM main.'' @ sqlite_id t) [])))"

definition worker_commit :: "'db sqlite_session_env \<Rightarrow> ('db, unit) worker_action" where
  "worker_commit env = on_connection (or_error ''the commit of SQLite is not confirmed''
     (sq_execute_batch (sx_ops env) ''COMMIT''))"

definition worker_rollback :: "'db sqlite_session_env \<Rightarrow> ('db, unit) worker_action" where
  "worker_rollback env =
     abind (on_connection (or_error ''the SQLite cancellation callback cannot be removed'' (sq_ignore_cancel (sx_ops env)))) (\<lambda>_.
       on_connection (or_error ''the rollback of SQLite is not confirmed'' (sq_execute_batch (sx_ops env) ''ROLLBACK'')))"

text \<open>The session; what it does not define itself are the defaults of the trait.\<close>

definition sqlite_session :: "'db sqlite_session_env \<Rightarrow> 'db sqlite_worker session_ops" where
  "sqlite_session env = \<lparr>ss_dialect = DSqlite, supports_transaction = True, ss_identity = sw_identity,
     ss_cleanup_errors = (\<lambda>w. ([], w)), ss_open = worker_open env, ss_begin_read = worker_begin_read env,
     ss_begin_protected_write = worker_begin_write env, ss_load_metadata = worker_metadata env,
     ss_stream = worker_stream env, ss_write_batch = worker_write_batch env, ss_delete_all = worker_delete_all env,
     ss_maintain_generators = (\<lambda>_. areturn ()), ss_commit = worker_commit env, ss_rollback = worker_rollback env,
     ss_answers = (\<lambda>w. sx_answers env (sw_conn w))\<rparr>"

subsection \<open>The worker is a session\<close>

text \<open>
  What the driver promises of the connection is what the executor relies on. A worker action is either
  quiet (it leaves the connection alone) or a call of the connection.
\<close>

definition worker_tx :: "('db \<Rightarrow> 'c) \<Rightarrow> ('db \<Rightarrow> bool) \<Rightarrow> ('db, 'a) worker_action \<Rightarrow> bool" where
  "worker_tx durable opened = inside_tx (\<lambda>w. durable (sw_conn w)) (\<lambda>w. opened (sw_conn w))"

definition worker_keeps :: "('db \<Rightarrow> 'c) \<Rightarrow> ('db, 'a) worker_action \<Rightarrow> bool" where
  "worker_keeps f m \<longleftrightarrow> (\<forall>w. f (sw_conn (snd (m w))) = f (sw_conn w))"

named_theorems worker_intros \<open>actions of the worker that keep the durable content\<close>

lemma worker_keeps_quiet [worker_intros]:
  "worker_keeps f (areturn x)" "worker_keeps f (alift r)" "worker_keeps f (aguard b e)" "worker_keeps f (aget g)"
  "worker_keeps f (worker_stopped env)"
  by (auto simp: worker_keeps_def areturn_def alift_def aguard_def aget_def worker_stopped_def)

lemma worker_keeps_modify [worker_intros]: "(\<And>w. sw_conn (g w) = sw_conn w) \<Longrightarrow> worker_keeps f (amodify g)"
  by (simp add: worker_keeps_def amodify_def)

lemma worker_keeps_abind [worker_intros]:
  fixes m :: "('db, 'a) worker_action"
  assumes "worker_keeps f m" and "\<And>x. worker_keeps f (g x)"
  shows "worker_keeps f (abind m g)"
  unfolding worker_keeps_def
proof
  fix w :: "'db sqlite_worker"
  have m: "f (sw_conn (snd (m w))) = f (sw_conn w)" using assms(1) by (simp add: worker_keeps_def)
  show "f (sw_conn (snd (abind m g w))) = f (sw_conn w)"
    using assms(2) m by (auto simp: worker_keeps_def abind_def split: prod.splits sum.splits)
qed

lemma worker_keeps_connection: "(\<And>db. f (snd (m db)) = f db) \<Longrightarrow> worker_keeps f (on_connection m)"
  by (auto simp: worker_keeps_def on_connection_def split: prod.splits) (metis snd_conv)

lemma snd_or_error [simp]: "snd (or_error e m db) = snd (m db)" and ok_or_error [simp]: "is_ok (fst (or_error e m db)) = is_ok (fst (m db))"
  by (auto simp: or_error_def split: prod.splits sum.splits)

lemma worker_keeps_not_stopped [worker_intros]: "worker_keeps f (not_stopped env e)"
  unfolding not_stopped_def by (intro worker_intros)

lemma worker_tx_quiet: "worker_keeps (\<lambda>db. db) m \<Longrightarrow> worker_tx durable opened m"
  by (simp add: worker_tx_def inside_tx_def worker_keeps_def)

lemma worker_tx_abind:
  fixes m :: "('db, 'a) worker_action"
  assumes "worker_tx d a m" and "\<And>x. worker_tx d a (g x)"
  shows "worker_tx d a (abind m g)"
  unfolding worker_tx_def inside_tx_def
proof (intro allI impI)
  fix w :: "'db sqlite_worker"
  assume "a (sw_conn w)"
  then show "d (sw_conn (snd (abind m g w))) = d (sw_conn w) \<and> (is_ok (fst (abind m g w)) \<longrightarrow> a (sw_conn (snd (abind m g w))))"
    using assms by (cases "m w"; cases "fst (m w)") (fastforce simp: worker_tx_def inside_tx_def abind_def)+
qed

lemma worker_tx_connection: "inside_tx d a m \<Longrightarrow> worker_tx d a (on_connection m)"
  by (auto simp: worker_tx_def inside_tx_def on_connection_def split: prod.splits)

lemma tx_return: "inside_tx d a (areturn x)"
  by (simp add: inside_tx_def areturn_def)

lemma tx_or_error: "inside_tx d a m \<Longrightarrow> inside_tx d a (or_error e m)"
  by (simp add: inside_tx_def)

lemma tx_abind:
  assumes "inside_tx d a m" and "\<And>x. inside_tx d a (g x)"
  shows "inside_tx d a (abind m g)"
  unfolding inside_tx_def
proof (intro allI impI)
  fix db
  assume "a db"
  then show "d (snd (abind m g db)) = d db \<and> (is_ok (fst (abind m g db)) \<longrightarrow> a (snd (abind m g db)))"
    using assms by (cases "m db"; cases "fst (m db)") (fastforce simp: inside_tx_def abind_def)+
qed

lemma on_connection_abind: "on_connection (abind m g) = abind (on_connection m) (\<lambda>x. on_connection (g x))"
  by (rule ext) (auto simp: on_connection_def abind_def split: prod.splits sum.splits)

lemma worker_keeps_release [worker_intros]: "worker_keeps f m \<Longrightarrow> worker_keeps f (or_release (\<lambda>w. w) m)"
  by (auto simp: worker_keeps_def or_release_def split: prod.splits sum.splits) (metis snd_conv)+

lemma worker_keeps_send [worker_intros]: "worker_keeps f (send_row env row sent)"
  unfolding send_row_def reserve_decode_def by (intro worker_intros) simp

lemma worker_keeps_loop:
  "worker_keeps f (stream_loop (worker_stopped env) (send_row env) (\<lambda>_ w. w) ps raws ended n acc)"
  by (induction raws arbitrary: n acc) (auto intro!: worker_intros)

definition file_worker_env :: "file_db sqlite_session_env" where
  "file_worker_env = \<lparr>sx_ops = file_ops, sx_digest = (\<lambda>_. []), sx_mem_size = (\<lambda>_. 100), sx_memory = 1000,
     sx_cancel = (\<lambda>_. False), sx_fingerprint = (\<lambda>_. []), sx_canonicalize = Some, sx_read_only_file = (\<lambda>_. Some False),
     sx_thread = True, sx_answers = (\<lambda>_. True)\<rparr>"

locale sqlite_worker_driver = sqlite_driver sops durable visible stored
  for sops :: "'db sqlite_ops" and durable visible :: "'db \<Rightarrow> 'c" and stored +
  fixes env :: "'db sqlite_session_env"
  assumes ops: "sx_ops env = sops"
begin

abbreviation conn_of :: "('db \<Rightarrow> 'k) \<Rightarrow> 'db sqlite_worker \<Rightarrow> 'k" where
  "conn_of f w \<equiv> f (sw_conn w)"

lemma load_tx: "inside_tx durable (in_tx sops) (sqlite_load d sops)"
proof -
  have read: "inside_tx durable (in_tx sops) m" if "\<And>db. durable (snd (m db)) = durable db" "keeps_open (sq_autocommit sops) m"
    for m :: "('db, 'x) action"
    using that by (auto simp: inside_tx_def keeps_open_def)
  show ?thesis
    unfolding sqlite_load_def
    by (intro tx_abind) (auto intro!: tx_or_error read driver_durable driver_catalogue simp: tx_return)
qed

lemma worker_open_keeps: "worker_keeps durable (worker_open env c e)"
  unfolding worker_open_def sqlite_open_def ops on_connection_abind
  by (intro worker_intros worker_keeps_connection) (simp_all add: driver_durable)

lemma worker_rollback_keeps: "worker_keeps durable (worker_rollback env)"
  unfolding worker_rollback_def ops
  by (intro worker_intros worker_keeps_connection) (simp_all add: driver_durable)

lemma worker_begin_write_keeps: "worker_keeps durable (worker_begin_write env ts)"
  unfolding worker_begin_write_def ops
  by (intro worker_intros worker_keeps_connection) (simp_all add: driver_durable)

lemma worker_begin_write_opens: "worker_begin_write env ts w = (Inr x, t) \<Longrightarrow> in_tx sops (sw_conn t)"
  using driver_transaction(1)
  by (auto simp: worker_begin_write_def ops on_connection_def run_simps split: prod.splits)

lemma worker_metadata_tx: "worker_tx durable (in_tx sops) (worker_metadata env)"
  unfolding worker_metadata_def ops
  by (intro worker_tx_abind worker_tx_connection load_tx) (auto intro!: worker_tx_quiet worker_intros split: prod.split)

lemma worker_write_tx: "worker_tx durable (in_tx sops) (worker_write_batch env b)"
  unfolding worker_write_batch_def ops
  by (intro worker_tx_abind worker_tx_connection tx_or_error driver_execute; intro worker_tx_quiet worker_intros)

lemma worker_delete_tx: "worker_tx durable (in_tx sops) (worker_delete_all env t)"
  unfolding worker_delete_all_def ops
  by (intro worker_tx_abind worker_tx_connection tx_or_error driver_execute; intro worker_tx_quiet worker_intros)

text \<open>A stream: the query on the connection, then the rows, which do not touch it.\<close>

lemma worker_stream_run:
  assumes "worker_stream env ps w = ((rows, ended), t)"
  shows "durable (sw_conn t) = durable (sw_conn w)"
    and "ended = Inr n \<Longrightarrow> sq_autocommit sops (sw_conn t) = sq_autocommit sops (sw_conn w)
      \<and> visible (sw_conn t) = visible (sw_conn w) \<and> mset rows = database_rows stored ps (visible (sw_conn w))
      \<and> (\<exists>raws. list_all2 (\<lambda>raw row. read_row ps raw = Inr row) raws rows)"
proof -
  let ?w = "w\<lparr>sw_sent := []\<rparr>"
  let ?query = "\<lambda>sql. on_connection (sure (sq_query (sx_ops env) sql))"
  obtain r u where run: "sqlite_stream ?query (worker_stopped env) (send_row env) (\<lambda>_ w. w) ps [] ?w = (r, u)" by fastforce
  have t: "t = u" "case r of Inl e \<Rightarrow> ended = Inl e | Inr (m, xs) \<Rightarrow> ended = Inr m \<and> rows = xs"
    using assms run by (auto simp: worker_stream_def split: prod.splits sum.splits)
  have "worker_keeps durable (?query sql)" for sql
    using driver_durable(12) [of sql]
    by (intro worker_keeps_connection) (auto simp: sure_def ops split: prod.splits, metis snd_conv)
  then have "worker_keeps durable (sqlite_stream ?query (worker_stopped env) (send_row env) (\<lambda>_ w. w) ps [])"
    unfolding sqlite_stream_def by (auto intro!: worker_intros worker_keeps_loop split: prod.split)
  then show "durable (sw_conn t) = durable (sw_conn w)"
    unfolding worker_keeps_def using run t(1) by (force dest!: spec [of _ ?w])
  assume "ended = Inr n"
  then have r: "r = Inr (n, rows)" using t(2) by (auto split: sum.splits)
  obtain sql raws finished v where q: "snapshot_sql ps = Inr sql" "?query sql ?w = (Inr (raws, finished), v)"
    "stream_loop (worker_stopped env) (send_row env) (\<lambda>_ w. w) ps raws finished 0 [] v = (Inr (n, rows), u)"
    using run r by (auto simp: sqlite_stream_def run_simps)
  have loop: "finished = Inr () \<and> n = 0 + length raws
      \<and> (\<exists>xs. list_all2 (\<lambda>raw row. read_row ps raw = Inr row) raws xs \<and> rows = [] @ xs)"
    by (rule stream_loop_invariant [where Q = "\<lambda>xs acc. acc = xs", OF _ _ q(3)]) (auto simp: send_row_def run_simps)
  have u: "sw_conn u = sw_conn v"
    using worker_keeps_loop [where f = "\<lambda>db. db"] q(3) unfolding worker_keeps_def by (metis snd_conv)
  have "sq_query sops sql (sw_conn w) = ((raws, Inr ()), sw_conn v)"
    using q(2) loop by (auto simp: on_connection_def sure_def ops split: prod.splits)
  note law = driver_query [OF this]
  have "mset rows = database_rows stored ps (visible (sw_conn w))"
    using law loop q(1) by (auto simp: database_rows_def dest!: read_rows_mset)
  then show "sq_autocommit sops (sw_conn t) = sq_autocommit sops (sw_conn w)
      \<and> visible (sw_conn t) = visible (sw_conn w) \<and> mset rows = database_rows stored ps (visible (sw_conn w))
      \<and> (\<exists>raws. list_all2 (\<lambda>raw row. read_row ps raw = Inr row) raws rows)"
    using law u t(1) loop by auto
qed

lemma worker_rows_wf:
  assumes "list_all2 (\<lambda>raw row. read_row ps raw = Inr row) raws rows" and "\<forall>p \<in> set ps. valid_utf8 (pj_output p)"
  shows "\<forall>r \<in> set rows. wf_row r"
  using assms by (induction rule: list_all2_induct) (auto intro: typed_wf_row read_row_typed)

end

sublocale sqlite_worker_driver \<subseteq> worker: data_session "sqlite_session env" "\<lambda>w. durable (sw_conn w)" "\<lambda>w. visible (sw_conn w)"
    "\<lambda>w. in_tx sops (sw_conn w)" "database_rows stored"
proof
  note session = sqlite_session_def
  show "durable (sw_conn (snd (ss_cleanup_errors (sqlite_session env) w))) = durable (sw_conn w)" for w
    by (simp add: session)
  show "durable (sw_conn (snd (ss_open (sqlite_session env) c e w))) = durable (sw_conn w)" for c e w
    using worker_open_keeps by (simp add: session worker_keeps_def)
  show "durable (sw_conn (snd (ss_begin_protected_write (sqlite_session env) ts w))) = durable (sw_conn w)" for ts w
    using worker_begin_write_keeps by (simp add: session worker_keeps_def)
  show "durable (sw_conn (snd (ss_rollback (sqlite_session env) w))) = durable (sw_conn w)" for w
    using worker_rollback_keeps by (simp add: session worker_keeps_def)
  show "in_tx sops (sw_conn t)" if "ss_begin_protected_write (sqlite_session env) ts w = (Inr x, t)" for ts w x t
    using worker_begin_write_opens that by (simp add: session)
  show "inside_tx (\<lambda>w. durable (sw_conn w)) (\<lambda>w. in_tx sops (sw_conn w)) (ss_load_metadata (sqlite_session env))"
    using worker_metadata_tx by (simp add: session worker_tx_def)
  show "inside_tx (\<lambda>w. durable (sw_conn w)) (\<lambda>w. in_tx sops (sw_conn w)) (ss_write_batch (sqlite_session env) b)" for b
    using worker_write_tx by (simp add: session worker_tx_def)
  show "inside_tx (\<lambda>w. durable (sw_conn w)) (\<lambda>w. in_tx sops (sw_conn w)) (ss_delete_all (sqlite_session env) t)" for t
    using worker_delete_tx by (simp add: session worker_tx_def)
  show "inside_tx (\<lambda>w. durable (sw_conn w)) (\<lambda>w. in_tx sops (sw_conn w)) (ss_maintain_generators (sqlite_session env) ts)" for ts
    by (simp add: session tx_return)
  show "durable (sw_conn t) = durable (sw_conn w) \<and> (is_ok ended \<longrightarrow> in_tx sops (sw_conn t))"
    if "in_tx sops (sw_conn w)" "ss_stream (sqlite_session env) ps w = ((rows, ended), t)" for w ps rows ended t
    using worker_stream_run [of ps w rows ended t] that by (auto simp: session is_ok_iff)
  show "visible (sw_conn t) = visible (sw_conn w) \<and> mset rows = database_rows stored ps (visible (sw_conn w))"
    if "ss_stream (sqlite_session env) ps w = ((rows, Inr n), t)" for w ps rows n t
    using worker_stream_run(2) [of ps w rows "Inr n" t n] that by (simp add: session)
  show "\<forall>r \<in> set rows. wf_row r"
    if "ss_stream (sqlite_session env) ps w = ((rows, Inr n), t)" "\<forall>p \<in> set ps. valid_utf8 (pj_output p)" for w ps rows n t
    using worker_stream_run(2) [of ps w rows "Inr n" t n] that worker_rows_wf by (auto simp: session)
  show "durable (sw_conn t) = visible (sw_conn w)" if "ss_commit (sqlite_session env) w = (Inr x, t)" for w x t
    using that driver_transaction(2) by (auto simp: session worker_commit_def ops on_connection_def run_simps split: prod.splits)
qed

context sqlite_worker_driver begin

lemma worker_session: "data_session (sqlite_session env) (\<lambda>w. durable (sw_conn w)) (\<lambda>w. visible (sw_conn w))
    (\<lambda>w. in_tx sops (sw_conn w)) (database_rows stored)"
  by (rule worker.data_session_axioms)

end

text \<open>
  So a task whose target is a SQLite file, whatever its source is, tells the truth about the file: what
  was proved of the interface holds for this adapter.
\<close>

lemma sqlite_target_outcome:
  assumes "sqlite_driver sops durable visible stored" and "sx_ops worker = sops" and "ee_target env = sqlite_session worker"
    and "aead_ok (ee_spool env)" and "holds (ee_spool env) (so_spool (sp_expected plan)) es"
    and "\<forall>m \<in> set (vm_tables (sp_mapping plan)). valid_utf8 (vt_target m)"
    and "execute_network env plan source target s = (x, t)"
  shows "\<exists>r. x = Inr r \<and> outcome_sound (database_rows stored) plan es
    (durable (sw_conn (xs_target s))) (durable (sw_conn (xs_target t))) r"
proof -
  have "sqlite_worker_driver sops durable visible stored worker"
    by (simp add: sqlite_worker_driver_def sqlite_worker_driver_axioms_def assms(1,2))
  from data_session.execute_network_run [OF sqlite_worker_driver.worker_session [OF this] assms(3-7)]
  show ?thesis .
qed

interpretation file_worker: sqlite_worker_driver file_ops fst "\<lambda>db. fst (snd db)" "\<lambda>sql. mset" file_worker_env
  by unfold_locales (simp add: file_worker_env_def)

text \<open>For evaluation, see \<open>Actions\<close>.\<close>

lemmas sqlite_session_run [code] = not_stopped_def [THEN fun_cong] worker_open_def [THEN fun_cong]
  worker_begin_read_def [THEN fun_cong] worker_metadata_def [THEN fun_cong] reserve_decode_def [THEN fun_cong]
  send_row_def [THEN fun_cong] worker_begin_write_def [THEN fun_cong] worker_write_batch_def [THEN fun_cong]
  worker_delete_all_def [THEN fun_cong] worker_commit_def [THEN fun_cong] worker_rollback_def [THEN fun_cong]

end
