(* ===== verification/Prepare.thy ===== *)
theory Prepare
  imports Sqlite_Execute
begin

text \<open>
  Preparing a task, whatever its databases are: the preview over network sessions, the choice between
  it and the preview of two SQLite files, and what can be asked before there is a task
  (\<open>prepare\_network\<close>, \<open>inspect\_endpoints\<close> and \<open>prepare\_task\<close> of
  \<open>src-tauri/src/db/data\_tasks/executor.rs\<close>, \<open>get\_data\_task\_capabilities\<close> of
  \<open>src-tauri/src/commands/data\_tasks.rs\<close>). At the end the two halves of a task between SQLite files
  are put together.
\<close>

subsection \<open>A preview over network sessions\<close>

definition both_sides :: "(bool \<Rightarrow> ('db, 'a) exec_action) \<Rightarrow> ('db, 'a \<times> 'a) exec_action" where
  "both_sides m = abind (m True) (\<lambda>x. abind (m False) (\<lambda>y. areturn (x, y)))"

definition on_session :: "'db exec_env \<Rightarrow> ('db session_ops \<Rightarrow> ('db, 'a) action) \<Rightarrow> bool \<Rightarrow> ('db, 'a) exec_action" where
  "on_session env call from_source =
     (if from_source then on_source (call (ee_source env)) else on_target (call (ee_target env)))"

definition resolve_network_identity :: "'db exec_env \<Rightarrow> data_task_request \<Rightarrow> ('db, unit) exec_action" where
  "resolve_network_identity env request =
     abind (on_source (aget (ss_identity (ee_source env)))) (\<lambda>s.
     abind (alift (ok_or ''same_physical_target: the source cannot be identified'' s)) (\<lambda>s.
     abind (on_target (aget (ss_identity (ee_target env)))) (\<lambda>t.
     abind (alift (ok_or ''same_physical_target: the target cannot be identified'' t)) (\<lambda>t.
       alift (resolve_endpoints (ee_canonicalize env) (ee_same_file env) request s t)))))"

definition network_allowed :: "data_task_request \<Rightarrow> connection_config \<Rightarrow> connection_config \<Rightarrow> unit result" where
  "network_allowed request source target =
     (if cc_database_type source \<noteq> cc_database_type target \<and> req_kind request = RowSync
      then Inl ''unsupported_capability: rows cannot be synchronised between types of databases''
      else if unwrap_or False (cc_read_only target)
      then Inl ''read_only_target: the target connection is read only''
      else Inr ())"

definition network_inputs ::
    "'db exec_env \<Rightarrow> data_task_request \<Rightarrow> connection_config \<Rightarrow> connection_config
       \<Rightarrow> ('db, validated_mapping \<times> metadata_snapshot \<times> metadata_snapshot) exec_action" where
  "network_inputs env request source target =
     abind (on_source (ss_open (ee_source env) source (req_source request))) (\<lambda>_.
     abind (on_target (ss_open (ee_target env) target (req_target request))) (\<lambda>_.
     abind (both_sides (on_session env ss_begin_read)) (\<lambda>_.
     abind (both_sides (on_session env ss_load_metadata)) (\<lambda>(smd, tmd).
     abind (resolve_network_identity env request) (\<lambda>_.
     abind (alift (validate_mapping request smd tmd)) (\<lambda>mapping.
       areturn (mapping, smd, tmd)))))))"

definition source_input :: "validated_mapping \<Rightarrow> metadata_snapshot \<Rightarrow> metadata_snapshot \<Rightarrow> snapshot_input" where
  "source_input mapping smd tmd = \<lparr>si_full = projections mapping True, si_projected = None, si_seed = None,
     si_budget = default_budget, si_status = Reading,
     si_conversion = (if md_database_type smd \<noteq> md_database_type tmd then Some (smd, tmd, mapping) else None)\<rparr>"

definition target_input :: "validated_mapping \<Rightarrow> projection list \<Rightarrow> snapshot_input" where
  "target_input mapping full = \<lparr>si_full = full, si_projected = Some (projections mapping False), si_seed = None,
     si_budget = default_budget, si_status = Reading, si_conversion = None\<rparr>"

definition network_snapshots ::
    "'db exec_env \<Rightarrow> validated_mapping \<Rightarrow> metadata_snapshot \<Rightarrow> metadata_snapshot \<Rightarrow> exec_progress
       \<Rightarrow> ('db, (spool_handle \<times> spool_handle option \<times> spool_handle) \<times> exec_progress) exec_action" where
  "network_snapshots env mapping smd tmd p =
     abind (network_snapshot env True (source_input mapping smd tmd) p) (\<lambda>(source_out, p).
     or_release (drop_all (handle_inners source_out)) (
       abind (alift (full_projections mapping tmd)) (\<lambda>full.
       abind (network_snapshot env False (target_input mapping full) p) (\<lambda>(target_out, p).
       or_release (drop_all (handle_inners target_out)) (
         abind (both_sides (on_session env ss_rollback)) (\<lambda>_.
         abind (on_res checked) (\<lambda>_.
           areturn ((fst source_out, snd target_out, fst target_out), p))))))))"

text \<open>The thread that builds the plan is joined; a panic in it is an error of the task.\<close>

definition joined :: "err \<Rightarrow> ('s, 'a) action \<Rightarrow> ('s, 'a) action" where
  "joined e m s = (case m s of (Inl x, t) \<Rightarrow> (Inl (if is_panic x then e else x), t) | (Inr x, t) \<Rightarrow> (Inr x, t))"

definition network_plan ::
    "'db exec_env \<Rightarrow> string \<Rightarrow> data_task_request \<Rightarrow> validated_mapping \<Rightarrow> metadata_snapshot \<Rightarrow> metadata_snapshot
       \<Rightarrow> spool_handle \<times> spool_handle option \<times> spool_handle \<Rightarrow> ('db, stored_plan) exec_action" where
  "network_plan env task_id request mapping smd tmd out = (case out of (taken, projected, full) \<Rightarrow>
     joined ''the thread that sorts the plan was interrupted'' (
       abind (or_release (drop_all [h_inner taken, h_inner full])
         (alift (ok_or ''the mapped snapshot of the target is missing'' projected))) (\<lambda>mapped.
       on_res (build_plan (ee_plan env) task_id request mapping smd tmd taken mapped full))))"

definition prepare_network ::
    "'db exec_env \<Rightarrow> string \<Rightarrow> data_task_request \<Rightarrow> connection_config \<Rightarrow> connection_config
       \<Rightarrow> ('db, stored_plan) exec_action" where
  "prepare_network env task_id request source target =
     abind (alift (map_err (\<lambda>e. err_code e @ '': '' @ err_message e) (validate request))) (\<lambda>_.
     abind (on_res checked) (\<lambda>_.
     abind (alift (network_allowed request source target)) (\<lambda>_.
     abind (on_res (new_progress (ee_spool env))) (\<lambda>p.
     abind (emit (ee_spool env) Validating True p) (\<lambda>p.
     abind (network_inputs env request source target) (\<lambda>(mapping, smd, tmd).
     abind (network_snapshots env mapping smd tmd p) (\<lambda>(out, p).
     abind (emit (ee_spool env) Comparing True p) (\<lambda>p.
     abind (network_plan env task_id request mapping smd tmd out) (\<lambda>plan.
     abind (or_release (drop_all (plan_inners plan)) (on_res checked)) (\<lambda>_.
     abind (emit (ee_spool env) Ready True p) (\<lambda>_.
       areturn plan)))))))))))"

subsection \<open>What the commands call\<close>

text \<open>From here on errors are those the user sees.\<close>

definition or_fail :: "(err \<Rightarrow> data_task_error) \<Rightarrow> ('s, 'a) action \<Rightarrow> (data_task_error, 's, 'a) fallible" where
  "or_fail f m s = (case m s of (Inl e, t) \<Rightarrow> (Inl (f e), t) | (Inr x, t) \<Rightarrow> (Inr x, t))"

definition prepare_task ::
    "'db sqlite_env \<Rightarrow> string \<Rightarrow> data_task_request \<Rightarrow> connection_config \<Rightarrow> connection_config
       \<Rightarrow> (data_task_error, 'db exec_state, stored_plan) fallible" where
  "prepare_task env task_id request source target =
     (if cc_database_type source \<noteq> Sqlite \<or> cc_database_type target \<noteq> Sqlite
      then or_fail exec_error (prepare_network (exec_env.truncate env) task_id request source target)
      else or_fail (\<lambda>e. if is_panic e then task_error ''database_error'' ''the thread of the task was interrupted'' else exec_error e)
        (prepare_sqlite env task_id request source target))"

definition inspect_endpoints ::
    "'db exec_env \<Rightarrow> connection_config \<Rightarrow> data_endpoint \<Rightarrow> connection_config \<Rightarrow> data_endpoint
       \<Rightarrow> (data_task_error, 'db exec_state, metadata_snapshot \<times> metadata_snapshot) fallible" where
  "inspect_endpoints env source source_end target target_end =
     or_fail exec_error (
       abind (on_source (ss_open (ee_source env) source source_end)) (\<lambda>_.
       abind (on_target (ss_open (ee_target env) target target_end)) (\<lambda>_.
       abind (both_sides (on_session env ss_begin_read)) (\<lambda>_.
       abind (both_sides (on_session env ss_load_metadata)) (\<lambda>md.
       abind (both_sides (on_session env ss_rollback)) (\<lambda>_.
         areturn md))))))"

definition writable_object :: "data_table \<Rightarrow> data_task_object" where
  "writable_object t = \<lparr>obj_table = tab_name t, obj_columns = map col_name (filter (\<lambda>c. \<not> generated c) (tab_columns t))\<rparr>"

definition readable_object :: "data_table \<Rightarrow> data_task_object" where
  "readable_object t = \<lparr>obj_table = tab_name t, obj_columns = map col_name (tab_columns t)\<rparr>"

definition sqlite_objects ::
    "'db sqlite_env \<Rightarrow> bool \<Rightarrow> connection_config \<Rightarrow> (data_task_error, 'db exec_state, data_task_object list) fallible" where
  "sqlite_objects env from_source config =
     abind (or_fail (\<lambda>_. task_error ''plan_stale'' ''there is no SQLite file'')
       (alift (ok_or [] (cc_sqlite_path config)))) (\<lambda>path.
     abind (or_fail (\<lambda>_. task_error ''unsupported_capability'' ''the SQLite file cannot be opened for reading'')
       (on_conn from_source (sqlite_open (se_ops env) path False))) (\<lambda>_.
     abind (or_fail (\<lambda>_. task_error ''unsupported_capability'' ''the structure of the SQLite file cannot be read'')
       (on_conn from_source (sqlite_load (digest (se_spool env)) (se_ops env)))) (\<lambda>(tables, _).
       areturn (map writable_object (filter physical tables)))))"

definition narrowed :: "data_task_capabilities \<Rightarrow> metadata_snapshot \<Rightarrow> metadata_snapshot \<Rightarrow> data_task_capabilities" where
  "narrowed caps smd tmd =
     (let found = get_capabilities smd tmd in
      caps\<lparr>cap_row_sync := cap_row_sync caps \<and> cap_row_sync found, cap_transfer := cap_transfer caps \<and> cap_transfer found,
        supported_modes := filter (\<lambda>m. m \<in> set (supported_modes found)) (supported_modes caps),
        cap_blockers := cap_blockers caps @ cap_blockers found,
        cap_source_tables := map readable_object (filter physical (md_tables smd)),
        cap_target_tables := map writable_object (filter physical (md_tables tmd))\<rparr>)"

definition saved_end ::
    "connection_config list \<Rightarrow> data_endpoint \<Rightarrow> string \<Rightarrow> string \<Rightarrow> (data_task_error, 's, connection_config) fallible" where
  "saved_end saved endpoint label message =
     or_fail (\<lambda>_. task_error ''plan_stale'' message) (alift (find_saved_connection saved (ep_connection endpoint) label))"

definition get_data_task_capabilities ::
    "'db sqlite_env \<Rightarrow> connection_config list option \<Rightarrow> data_endpoint \<Rightarrow> data_endpoint
       \<Rightarrow> (data_task_error, 'db exec_state, data_task_capabilities) fallible" where
  "get_data_task_capabilities env store source target =
     abind (or_fail (\<lambda>_. task_error ''plan_stale'' ''the saved connections cannot be read'') (alift (ok_or [] store))) (\<lambda>saved.
     abind (saved_end saved source ''source'' ''the saved source connection was deleted'') (\<lambda>s.
     abind (saved_end saved target ''target'' ''the saved target connection was deleted'') (\<lambda>t.
     let caps = get_config_capabilities (cc_database_type s) (cc_database_type t) (cc_read_only t) in
     if cc_database_type s = Sqlite \<and> cc_database_type t = Sqlite
     then if ep_database source \<noteq> ''main'' \<or> ep_database target \<noteq> ''main''
       then afail (task_error ''unsupported_capability'' ''SQLite data tasks have the main database only'')
       else abind (sqlite_objects env True s) (\<lambda>ss. abind (sqlite_objects env False t) (\<lambda>ts.
         areturn (caps\<lparr>cap_source_tables := ss, cap_target_tables := ts\<rparr>)))
     else if supported_modes caps \<noteq> []
     then abind (inspect_endpoints (exec_env.truncate env) s source t target) (\<lambda>(smd, tmd). areturn (narrowed caps smd tmd))
     else areturn caps)))"

text \<open>For evaluation, see \<open>Actions\<close>.\<close>

declare joined_def [code_unfold] or_fail_def [code_unfold]

lemmas prepare_run [code] = both_sides_def [THEN fun_cong] on_session_def [THEN fun_cong]
  resolve_network_identity_def [THEN fun_cong] network_inputs_def [THEN fun_cong]
  network_snapshots_def [THEN fun_cong] network_plan_def [THEN fun_cong] prepare_network_def [THEN fun_cong]
  prepare_task_def [THEN fun_cong] inspect_endpoints_def [THEN fun_cong] sqlite_objects_def [THEN fun_cong]
  saved_end_def [THEN fun_cong] get_data_task_capabilities_def [THEN fun_cong]

end
