(* ===== verification/Sqlite_Task.thy ===== *)
theory Sqlite_Task
  imports Prepare
begin

text \<open>
  A task between two SQLite files from its preview to its end: what the plan expects is what the mode
  of the task asks for, given the rows the two files had when they were read, and what the execution
  commits is what the plan expects.
\<close>

subsection \<open>What the driver promises of reading\<close>

text \<open>
  A connection that was just opened sees the committed content of its file, and neither its settings
  nor the beginning of a read transaction nor the catalogue changes what it sees.
\<close>

definition keeps_visible :: "'db sqlite_ops \<Rightarrow> ('db \<Rightarrow> 'c) \<Rightarrow> bool" where
  "keeps_visible ops visible \<longleftrightarrow>
     (\<forall>n db. visible (snd (sq_busy_timeout ops n db)) = visible db)
   \<and> (\<forall>db. visible (snd (sq_watch_cancel ops db)) = visible db)
   \<and> (\<forall>db. visible (snd (sq_execute_batch ops ''PRAGMA foreign_keys = ON'' db)) = visible db)
   \<and> (\<forall>db. visible (snd (sq_execute_batch ops ''BEGIN DEFERRED'' db)) = visible db)
   \<and> (\<forall>db. visible (snd (sq_columns ops db)) = visible db)
   \<and> (\<forall>db. visible (snd (sq_foreign_keys ops db)) = visible db)
   \<and> (\<forall>db. visible (snd (sq_schema ops db)) = visible db)
   \<and> (\<forall>db. visible (snd (sq_indexes ops db)) = visible db)"

locale sqlite_reader = sqlite_driver sops durable visible stored
  for sops :: "'db sqlite_ops" and durable visible :: "'db \<Rightarrow> 'c" and stored +
  assumes opens_fresh: "sq_open sops path write db = (Inr x, db') \<Longrightarrow> visible db' = durable db'"
    and keeps_visible: "keeps_visible sops visible"
begin

lemma reader_visible:
  shows "sq_busy_timeout sops n db = (r, db') \<Longrightarrow> visible db' = visible db"
    "sq_watch_cancel sops db = (r, db') \<Longrightarrow> visible db' = visible db"
    "sq_execute_batch sops ''PRAGMA foreign_keys = ON'' db = (r, db') \<Longrightarrow> visible db' = visible db"
    "sq_execute_batch sops ''BEGIN DEFERRED'' db = (r, db') \<Longrightarrow> visible db' = visible db"
    "sq_columns sops db = (cs, db') \<Longrightarrow> visible db' = visible db"
    "sq_foreign_keys sops db = (fs, db') \<Longrightarrow> visible db' = visible db"
    "sq_schema sops db = (ss, db') \<Longrightarrow> visible db' = visible db"
    "sq_indexes sops db = (ks, db') \<Longrightarrow> visible db' = visible db"
  using keeps_visible unfolding keeps_visible_def by (metis snd_conv)+

lemma open_visible:
  assumes "sqlite_open sops path write db = (Inr x, db')"
  shows "visible db' = durable db"
proof -
  obtain y u where u: "sq_open sops path write db = (Inr y, u)" "visible db' = visible u"
    using assms by (auto simp: sqlite_open_def run_simps dest!: reader_visible(1-3))
  then show ?thesis using opens_fresh [OF u(1)] driver_durable(1) [of path "write" db] by simp
qed

lemma load_visible: "sqlite_load d sops db = (Inr x, db') \<Longrightarrow> visible db' = visible db"
  by (auto simp: sqlite_load_def run_simps dest!: reader_visible(5-8))

end

lemma on_source_Inr [run_simps]:
  "on_source m s = (Inr x, t) \<longleftrightarrow> (\<exists>u. m (xs_source s) = (Inr x, u) \<and> t = s\<lparr>xs_source := u\<rparr>)"
  by (auto simp: on_source_def split: prod.splits)

lemma metadata_visible:
  assumes "sqlite_reader (se_ops env) durable visible stored" and "sqlite_metadata env config db = (Inr x, db')"
  shows "visible db' = visible db"
  using assms(2) sqlite_reader.load_visible [OF assms(1)] by (auto simp: sqlite_metadata_def run_simps)

lemma sqlite_inputs_run:
  assumes "sqlite_reader (se_ops env) durable visible stored"
    and "sqlite_inputs env request source target s = (Inr (mapping, smd, tmd), t)"
  shows "visible (xs_source t) = durable (xs_source s)" "visible (xs_target t) = durable (xs_target s)"
proof -
  note law = sqlite_reader.reader_visible(4) [OF assms(1)] metadata_visible [OF assms(1)] sqlite_reader.open_visible [OF assms(1)]
  have "visible (xs_source t) = durable (xs_source s) \<and> visible (xs_target t) = durable (xs_target s)"
    using assms(2) by (auto simp: sqlite_inputs_def sqlite_begin_read_def run_simps dest!: law)
  then show "visible (xs_source t) = durable (xs_source s)" "visible (xs_target t) = durable (xs_target s)" by blast+
qed

subsection \<open>The snapshots of the two files\<close>

lemma mapped_values:
  assumes "collect_results f xs = Inr ys" and "\<And>x y. f x = Inr y \<Longrightarrow> y \<in> A"
  shows "set ys \<subseteq> A"
  using assms(1) unfolding collect_results_iff_all2
  by (induction rule: list_all2_induct) (auto intro: assms(2))

lemma projected_row_wf:
  assumes "wf_row row" and "valid_utf8 (pj_output q)" and "projected_row row full q = Inr y"
  shows "wf_row y"
proof -
  obtain vs ks where r: "collect_results (projected_value row full) (pj_columns q) = Inr vs"
    "collect_results (key_value_at vs) (pj_key_indices q) = Inr ks" "new_row (pj_output q) ks vs = Inr y"
    using assms(3) by (auto simp: projected_row_def)
  have "set vs \<subseteq> set (row_values row)"
    by (rule mapped_values [OF r(1)]) (auto simp: projected_value_def ok_or_def split: option.splits if_splits)
  moreover have "set ks \<subseteq> set vs"
    by (rule mapped_values [OF r(2)]) (auto simp: key_value_at_def split: if_splits)
  ultimately show ?thesis
    using assms(1,2) new_row_fields [OF r(3)] by (auto simp: wf_row_def subset_iff)
qed

lemma target_row_wf:
  assumes "wf_row row" and "\<forall>q \<in> set projected. valid_utf8 (pj_output q)" and "length full \<le> length projected"
    and "target_row full projected row = Inr y"
  shows "wf_row y"
proof -
  obtain i where i: "i < length full" "projected_row row (full ! i) (projected ! i) = Inr y"
    using assms(4) by (auto simp: target_row_def run_simps dest: position_Some)
  then show ?thesis using projected_row_wf [OF assms(1) _ i(2)] assms(2,3) by simp
qed

definition both_written ::
    "spool_env \<Rightarrow> projection list \<Rightarrow> projection list \<Rightarrow> canonical_row list \<Rightarrow> spool_writer \<times> spool_writer \<times> exec_progress \<Rightarrow> bool" where
  "both_written env full projected xs acc \<longleftrightarrow> (\<exists>ys. list_all2 (\<lambda>x y. target_row full projected x = Inr y) xs ys
     \<and> writes env (fst acc) (map norm_row ys) \<and> writes env (fst (snd acc)) (map norm_row xs))"

lemma target_sink_step:
  assumes "aead_ok (se_spool env)" and "\<forall>q \<in> set projected. valid_utf8 (pj_output q)" and "length full \<le> length projected"
    and "wf_row row" and "both_written (se_spool env) full projected xs acc"
    and "target_sink env full projected row acc s = (Inr acc', t)"
  shows "both_written (se_spool env) full projected (xs @ [row]) acc'"
proof -
  obtain tw fw p where acc: "acc = (tw, fw, p)" by (cases acc)
  obtain ys where ys: "list_all2 (\<lambda>x y. target_row full projected x = Inr y) xs ys"
    "writes (se_spool env) tw (map norm_row ys)" "writes (se_spool env) fw (map norm_row xs)"
    using assms(5) acc by (auto simp: both_written_def)
  obtain y tw' fw' u1 u2 u3 u4 q where r: "target_row full projected row = Inr y" "put (se_spool env) y tw u1 = (Inr tw', u2)"
    "put (se_spool env) row fw u3 = (Inr fw', u4)" "acc' = (tw', fw', q)"
    using assms(6) acc by (auto simp: target_sink_def run_simps)
  have "wf_row y" by (rule target_row_wf [OF assms(4,2,3) r(1)])
  then have "writes (se_spool env) tw' (map norm_row (ys @ [y]))" "writes (se_spool env) fw' (map norm_row (xs @ [row]))"
    using put_writes [OF assms(1) _ ys(2) r(2)] put_writes [OF assms(1,4) ys(3) r(3)] by simp_all
  moreover have "list_all2 (\<lambda>x y. target_row full projected x = Inr y) (xs @ [row]) (ys @ [y])"
    using ys(1) r(1) by (simp add: list_all2_appendI)
  ultimately show ?thesis unfolding both_written_def r(4) by auto
qed

lemma target_snapshot_holds:
  assumes "sqlite_driver (se_ops env) durable visible stored" and "aead_ok (se_spool env)"
    and "\<forall>q \<in> set full. valid_utf8 (pj_output q)" and "\<forall>q \<in> set projected. valid_utf8 (pj_output q)"
    and "length full \<le> length projected" and "target_snapshot env full projected b p s = (Inr (th, fh, q), t)"
  obtains xs ys where "list_all2 (\<lambda>x y. target_row full projected x = Inr y) xs ys"
    "holds (se_spool env) th (map norm_row ys)" "holds (se_spool env) fh (map norm_row xs)"
    "mset xs = database_rows stored full (visible (xs_target s))"
proof -
  obtain tw u0 fw u1 n tw' fw' p' u2 u3 u4 u5 where r: "writer_new (se_spool env) b (xs_res s) = (Inr tw, u0)"
    "writer_new (se_spool env) b u0 = (Inr fw, u1)"
    "sqlite_stream (sqlite_rows env False) (on_res cancelled) (target_sink env full projected)
       (\<lambda>(tw, fw, p). drop_all [w_inner tw, w_inner fw]) full (tw, fw, p) (s\<lparr>xs_res := u1\<rparr>) = (Inr (n, tw', fw', p'), u2)"
    "finish_writer (se_spool env) tw' u3 = (Inr th, u4)" "finish_writer (se_spool env) fw' u4 = (Inr fh, u5)"
    using assms(6) by (auto simp: target_snapshot_def run_simps)
  have start: "both_written (se_spool env) full projected [] (tw, fw, p)"
    using writer_new_writes [OF r(1)] writer_new_writes [OF r(2)] by (simp add: both_written_def)
  obtain sql raws v xs where q: "snapshot_sql full = Inr sql" "sqlite_rows env False sql (s\<lparr>xs_res := u1\<rparr>) = (Inr (raws, Inr ()), v)"
    "list_all2 (\<lambda>raw row. read_row full raw = Inr row) raws xs" "both_written (se_spool env) full projected xs (tw', fw', p')"
  proof (rule sqlite_stream_invariant [where Q = "both_written (se_spool env) full projected", OF _ start r(3)])
    fix row raw xs acc s acc' t
    assume step: "both_written (se_spool env) full projected xs acc" "read_row full raw = Inr row"
      "target_sink env full projected row acc s = (Inr acc', t)"
    have "wf_row row" by (rule typed_wf_row [OF read_row_typed [OF step(2)] assms(3)])
    from target_sink_step [OF assms(2,4,5) this step(1,3)]
    show "both_written (se_spool env) full projected (xs @ [row]) acc'" .
  qed auto
  have "mset xs = database_rows stored full (visible (xs_target s))"
    using sqlite_driver.driver_query [OF assms(1)] q(1,2)
    by (auto simp: database_rows_def sqlite_rows_target read_rows_mset [OF q(3)] split: prod.splits)
  then show thesis using that q(4) finish_holds r(4,5) by (fastforce simp: both_written_def)
qed

subsection \<open>What the preview found\<close>

text \<open>
  The rows of the source as the target will have them, and the mapped part of the rows of the target,
  both in their normal form; the target was read with all its columns.
\<close>

definition source_content ::
    "(string \<Rightarrow> 'c \<Rightarrow> raw_row multiset) \<Rightarrow> validated_mapping \<Rightarrow> 'c \<Rightarrow> canonical_row multiset" where
  "source_content stored mapping c = image_mset norm_row (database_rows stored (projections mapping True) c)"

definition target_content ::
    "(string \<Rightarrow> 'c \<Rightarrow> raw_row multiset) \<Rightarrow> validated_mapping \<Rightarrow> metadata_snapshot \<Rightarrow> 'c \<Rightarrow> canonical_row multiset" where
  "target_content stored mapping md c = (case full_projections mapping md of
     Inl _ \<Rightarrow> {#}
   | Inr full \<Rightarrow> image_mset (\<lambda>r. norm_row (projr (target_row full (projections mapping False) r))) (database_rows stored full c))"

definition names_ok :: "validated_mapping \<Rightarrow> bool" where
  "names_ok mapping \<longleftrightarrow> (\<forall>m \<in> set (vm_tables mapping). valid_utf8 (vt_target m))"

lemma names_projections: "names_ok mapping \<Longrightarrow> \<forall>q \<in> set (projections mapping source). valid_utf8 (pj_output q)"
  by (auto simp: names_ok_def projections_def)

lemma full_projections_parts:
  assumes "full_projections mapping md = Inr full"
  shows "length full = length (projections mapping False)" "names_ok mapping \<Longrightarrow> \<forall>q \<in> set full. valid_utf8 (pj_output q)"
proof -
  have all: "list_all2 (\<lambda>m q. pj_output q = vt_target m) (vm_tables mapping) full"
    using assms unfolding full_projections_def collect_results_iff_all2
    by (rule list_all2_mono) (auto simp: ok_or_def find_Some_iff split: option.splits)
  then show "length full = length (projections mapping False)"
    by (auto simp: projections_def dest: list_all2_lengthD)
  show "\<forall>q \<in> set full. valid_utf8 (pj_output q)" if "names_ok mapping"
    using all that unfolding names_ok_def by (induction rule: list_all2_induct) auto
qed

lemma mapped_mset: "list_all2 (\<lambda>x y. f x = Inr y) xs ys \<Longrightarrow> mset (map g ys) = image_mset (\<lambda>x. g (projr (f x))) (mset xs)"
  by (induction rule: list_all2_induct) auto

lemma sqlite_snapshots_hold:
  assumes "sqlite_driver (se_ops env) durable visible stored" and "aead_ok (se_spool env)" and "names_ok mapping"
    and "sqlite_snapshots env mapping tmd p s = (Inr ((sh, th, fh), q), t)"
  obtains ss ts where "holds (se_spool env) sh ss" "mset ss = source_content stored mapping (visible (xs_source s))"
    "holds (se_spool env) th ts" "mset ts = target_content stored mapping tmd (visible (xs_target s))"
proof -
  obtain w u p1 s1 full p2 s2 where r: "writer_new (se_spool env) default_budget (xs_res s) = (Inr w, u)"
    "sqlite_snapshot env True (projections mapping True) w p (s\<lparr>xs_res := u\<rparr>) = (Inr (sh, p1), s1)"
    "full_projections mapping tmd = Inr full"
    "target_snapshot env full (projections mapping False) default_budget p1 s1 = (Inr (th, fh, p2), s2)"
    using assms(4) by (auto simp: sqlite_snapshots_def run_simps)
  obtain sql raws v rows where a: "snapshot_sql (projections mapping True) = Inr sql"
    "sqlite_rows env True sql (s\<lparr>xs_res := u\<rparr>) = (Inr (raws, Inr ()), v)"
    "list_all2 (\<lambda>raw row. read_row (projections mapping True) raw = Inr row) raws rows"
    "holds (se_spool env) sh (map norm_row rows)"
    by (rule sqlite_snapshot_rows [OF assms(2) names_projections [OF assms(3)] writer_new_writes [OF r(1)] r(2)])
  have "mset rows = database_rows stored (projections mapping True) (visible (xs_source s))"
    using sqlite_driver.driver_query [OF assms(1)] a(1,2)
    by (auto simp: database_rows_def sqlite_rows_def on_conn_def on_source_def sure_def read_rows_mset [OF a(3)] split: prod.splits)
  then have source: "mset (map norm_row rows) = source_content stored mapping (visible (xs_source s))"
    by (simp add: source_content_def)
  have "keeps_target (\<lambda>db. db) (sqlite_snapshot env True (projections mapping True) w p)"
    unfolding sqlite_snapshot_def sqlite_stream_def sqlite_rows_def on_conn_def
    by (auto intro!: frame_intros keeps_stream_loop keeps_release_any split: prod.splits)
  from keepsD [OF this r(2)] have s1: "xs_target s1 = xs_target s" by simp
  note full = full_projections_parts [OF r(3)]
  obtain xs ys where b: "list_all2 (\<lambda>x y. target_row full (projections mapping False) x = Inr y) xs ys"
    "holds (se_spool env) th (map norm_row ys)" "mset xs = database_rows stored full (visible (xs_target s1))"
    by (rule target_snapshot_holds [OF assms(1,2) full(2) [OF assms(3)] names_projections [OF assms(3)] _ r(4)]) (simp_all add: full(1))
  have "mset (map norm_row ys) = target_content stored mapping tmd (visible (xs_target s))"
    using mapped_mset [OF b(1), of norm_row] b(3) s1 r(3) by (simp add: target_content_def)
  then show thesis using that a(4) source b(2) by blast
qed

lemma build_plan_fields:
  "build_plan penv task_id request mapping smd tmd source target full st = (Inr plan, t) \<Longrightarrow>
     sp_request plan = request \<and> sp_mapping plan = mapping \<and> sp_source_metadata plan = smd \<and> sp_target_metadata plan = tmd"
  unfolding build_plan_def Let_def by (clarsimp simp: run_simps)

lemma emit_frame:
  "emit env ph force p s = (x, t) \<Longrightarrow> xs_res t = xs_res s \<and> xs_source t = xs_source s \<and> xs_target t = xs_target s"
  by (auto simp: emit_def Let_def split: if_splits)

lemma prepare_sqlite_run:
  assumes "sqlite_reader (se_ops env) durable visible stored" and "aead_ok (se_spool env)"
    and "prepare_sqlite env task_id request source target s = (Inr plan, t)" and "names_ok (sp_mapping plan)"
  obtains es where "holds (se_spool env) (so_spool (sp_expected plan)) es"
    "mset es = mode_result request (source_content stored (sp_mapping plan) (durable (xs_source s)))
      (target_content stored (sp_mapping plan) (sp_target_metadata plan) (durable (xs_target s)))"
proof -
  have driver: "sqlite_driver (se_ops env) durable visible stored" using assms(1) by (rule sqlite_reader.axioms(1))
  obtain u p mapping smd tmd s1 sh th fh q s2 s3 v where r: "xs_source u = xs_source s" "xs_target u = xs_target s"
    "sqlite_inputs env request source target u = (Inr (mapping, smd, tmd), s1)"
    "sqlite_snapshots env mapping tmd p s1 = (Inr ((sh, th, fh), q), s2)"
    "build_plan (ee_plan env) task_id request mapping smd tmd sh th fh s3 = (Inr plan, v)"
    using assms(3) by (auto simp: prepare_sqlite_def run_simps dest!: emit_frame)
  note plan = build_plan_fields [OF r(5)]
  note inputs = sqlite_inputs_run [OF assms(1) r(3)]
  have names: "names_ok mapping" using assms(4) plan by simp
  obtain ss ts where snap: "holds (se_spool env) sh ss" "mset ss = source_content stored mapping (durable (xs_source s))"
    "holds (se_spool env) th ts" "mset ts = target_content stored mapping tmd (durable (xs_target s))"
    using sqlite_snapshots_hold [OF driver assms(2) names r(4)] inputs r(1,2) by metis
  obtain xs ys es where es: "mset xs = mset ss" "mset ys = mset ts" "holds (se_spool env) (so_spool (sp_expected plan)) es"
    "mset es = mset (plan_expected request xs ys)"
    "req_kind request = RowSync \<Longrightarrow> sorted_wrt (<) (map key_of xs) \<and> sorted_wrt (<) (map key_of ys)"
    by (rule build_plan_refines [OF assms(2) snap(1,3) r(5)]) blast
  have "mset es = mode_result request (mset ss) (mset ts)" using plan_expected_result [OF es(5)] es(1,2,4) by simp
  then show thesis using that es(3) snap(2,4) plan by simp
qed

subsection \<open>The whole task\<close>

lemma execute_plan_run:
  assumes "sqlite_driver (se_ops env) durable visible stored" and "aead_ok (se_spool env)"
    and "names_ok (sp_mapping plan)" and "holds (se_spool env) (so_spool (sp_expected plan)) es"
    and "cc_database_type source = Sqlite" and "cc_database_type target = Sqlite"
    and "execute_plan env plan source target s = (x, t)"
  obtains r where "x = Inr r"
    "res_commit_state r = Committed \<Longrightarrow> final_rows (database_rows stored) (sp_mapping plan) (durable (xs_target t)) = mset es"
    "res_commit_state r \<in> {CommitNone, RolledBack} \<Longrightarrow> durable (xs_target t) = durable (xs_target s)"
proof -
  obtain y where y: "execute_sqlite env plan source target s = (y, t)"
    "x = Inr (case y of Inl _ \<Rightarrow> interrupted_result plan | Inr r \<Rightarrow> r)"
    using assms(5-7) by (auto simp: execute_plan_def abind_def attempt_def areturn_def split: prod.splits)
  show thesis
  proof (cases y)
    case (Inl e)
    show thesis by (rule that [OF y(2)]) (simp_all add: Inl interrupted_result_def unknown_outcome_def first_result_def)
  next
    case (Inr r)
    have "outcome_sound (database_rows stored) plan es (durable (xs_target s)) (durable (xs_target t)) r
      \<or> r = unknown_outcome (first_result plan)"
      by (rule execute_sqlite_run [OF assms(1,2) assms(3) [unfolded names_ok_def] assms(4) y(1) [unfolded Inr]])
    then have "res_commit_state r = Committed \<Longrightarrow> final_rows (database_rows stored) (sp_mapping plan) (durable (xs_target t)) = mset es"
      and "res_commit_state r \<in> {CommitNone, RolledBack} \<Longrightarrow> durable (xs_target t) = durable (xs_target s)"
      by (auto simp: outcome_sound_def unknown_outcome_def first_result_def)
    then show thesis using that [of r] y(2) Inr by simp
  qed
qed

text \<open>
  C40. A task between two SQLite files does what it was asked for. When its execution reports a
  commit, the mapped rows of the target file are what the mode of the task makes of the rows the two
  files held when the preview read them: the rows of the source alone for a mirror or a replacement,
  together with the target rows of other keys for a merge, added to all target rows for an append. When
  it reports that nothing was written or that it was rolled back, the target file is what it was. In
  between, the files, the connections and the resources may be in any state.
\<close>

theorem sqlite_task_correct:
  assumes "sqlite_reader (se_ops env) durable visible stored" and "aead_ok (se_spool env)"
    and "cc_database_type source = Sqlite" and "cc_database_type target = Sqlite"
    and "prepare_task env task_id request source target s = (Inr plan, t)" and "names_ok (sp_mapping plan)"
    and "cc_database_type source' = Sqlite" and "cc_database_type target' = Sqlite"
    and "execute_plan env plan source' target' u = (x, v)"
  shows "\<exists>r. x = Inr r
    \<and> (res_commit_state r = Committed \<longrightarrow> final_rows (database_rows stored) (sp_mapping plan) (durable (xs_target v))
        = mode_result request (source_content stored (sp_mapping plan) (durable (xs_source s)))
            (target_content stored (sp_mapping plan) (sp_target_metadata plan) (durable (xs_target s))))
    \<and> (res_commit_state r \<in> {CommitNone, RolledBack} \<longrightarrow> durable (xs_target v) = durable (xs_target u))"
proof -
  have driver: "sqlite_driver (se_ops env) durable visible stored" using assms(1) by (rule sqlite_reader.axioms(1))
  have "prepare_sqlite env task_id request source target s = (Inr plan, t)"
    using assms(3-5) by (auto simp: prepare_task_def or_fail_def split: prod.splits sum.splits)
  from prepare_sqlite_run [OF assms(1,2) this assms(6)] obtain es where
    es: "holds (se_spool env) (so_spool (sp_expected plan)) es"
    "mset es = mode_result request (source_content stored (sp_mapping plan) (durable (xs_source s)))
      (target_content stored (sp_mapping plan) (sp_target_metadata plan) (durable (xs_target s)))" .
  show ?thesis by (rule execute_plan_run [OF driver assms(2,6) es(1) assms(7-9)]) (auto simp: es(2))
qed

subsection \<open>A task that runs\<close>

interpretation file_reader: sqlite_reader file_ops fst "\<lambda>db. fst (snd db)" "\<lambda>sql. mset"
  by unfold_locales (auto simp: keeps_visible_def file_ops_def)

text \<open>The one row of the target is replaced by the rows of a source that has none.\<close>

definition file_request :: data_task_request where
  "file_request = plan_request\<lparr>req_kind := Transfer, req_mode := Replace,
     req_source := \<lparr>ep_connection = ''a'', ep_database = ''main''\<rparr>,
     req_target := \<lparr>ep_connection = ''b'', ep_database = ''main''\<rparr>\<rparr>"

definition file_row :: raw_row where
  "file_row = \<lparr>rr_table = 0, rr_cells = [SqlInteger 7], rr_oversized = 0\<rparr>"

definition file_state :: "file_db exec_state" where
  "file_state = \<lparr>xs_res = new_resources None, xs_source = ([], [], True), xs_target = ([file_row], [file_row], True),
     xs_updates = []\<rparr>"

definition file_preview :: "(data_task_error, file_db exec_state, stored_plan) fallible" where
  "file_preview = prepare_task file_env ''p'' file_request (file_config ''a'') (file_config ''b'')"

definition file_execution :: "stored_plan \<Rightarrow> (file_db, data_task_result) exec_action" where
  "file_execution plan = execute_plan file_env plan (file_config ''a'') (file_config ''b'')"

lemma file_task_runs: "wp file_preview (\<lambda>plan t. names_ok (sp_mapping plan)
    \<and> wp (file_execution plan) (\<lambda>r _. res_commit_state r = Committed) (\<lambda>_ _. False) t)
    (\<lambda>_ _. False) file_state"
  by code_simp

lemma file_task_built:
  obtains plan t r u where "file_preview file_state = (Inr plan, t)" "file_execution plan t = (Inr r, u)"
    "res_commit_state r = Committed" "names_ok (sp_mapping plan)"
proof -
  obtain plan t where p: "file_preview file_state = (Inr plan, t)" "names_ok (sp_mapping plan)"
    "wp (file_execution plan) (\<lambda>r _. res_commit_state r = Committed) (\<lambda>_ _. False) t"
    using wp_returns [OF file_task_runs] by blast
  then show thesis using that wp_returns [OF p(3)] by blast
qed

lemma file_env_ok: "sqlite_reader (se_ops file_env) fst (\<lambda>db. fst (snd db)) (\<lambda>sql. mset)" "aead_ok (se_spool file_env)"
  using file_reader.sqlite_reader_axioms plain_env_ok
  by (simp_all add: file_env_def plain_plan_env_def aead_ok_def)

lemma file_sqlite: "cc_database_type (file_config path) = Sqlite"
  by (simp add: file_config_def)

lemma file_expected:
  "mode_result file_request (source_content (\<lambda>sql. mset) mapping (fst (xs_source file_state))) m = {#}"
  by (simp add: mode_result_def file_request_def source_content_def database_rows_def file_state_def split: sum.split)

theorem sqlite_task_correct_witness:
  "\<exists>plan t r u. file_preview file_state = (Inr plan, t) \<and> file_execution plan t = (Inr r, u)
     \<and> final_rows (database_rows (\<lambda>sql. mset)) (sp_mapping plan) (fst (xs_target u)) = {#}"
proof -
  obtain plan t r u where p: "file_preview file_state = (Inr plan, t)" "file_execution plan t = (Inr r, u)"
    "res_commit_state r = Committed" "names_ok (sp_mapping plan)"
    by (rule file_task_built)
  from sqlite_task_correct [OF file_env_ok file_sqlite file_sqlite p(1) [unfolded file_preview_def] p(4) file_sqlite file_sqlite
      p(2) [unfolded file_execution_def]] p
  show ?thesis by (auto simp: file_expected)
qed

text \<open>The same run for the outcome of an execution, \<open>sqlite\_execution\_outcome\<close> of \<open>Sqlite\_Execute\<close>.\<close>

theorem sqlite_execution_outcome_witness:
  "\<exists>plan t r u. file_preview file_state = (Inr plan, t) \<and> file_execution plan t = (Inr r, u)
     \<and> res_commit_state r = Committed \<and> res_status r = Succeeded
     \<and> final_rows (database_rows (\<lambda>sql. mset)) (sp_mapping plan) (fst (xs_target u)) = {#}"
proof -
  obtain plan t r u where p: "file_preview file_state = (Inr plan, t)" "file_execution plan t = (Inr r, u)"
    "res_commit_state r = Committed" "names_ok (sp_mapping plan)"
    by (rule file_task_built)
  have "prepare_sqlite file_env ''p'' file_request (file_config ''a'') (file_config ''b'') file_state = (Inr plan, t)"
    using p(1) by (auto simp: file_preview_def prepare_task_def or_fail_def file_sqlite split: prod.splits sum.splits)
  from prepare_sqlite_run [OF file_env_ok this p(4)] obtain es where
    es: "holds (se_spool file_env) (so_spool (sp_expected plan)) es" "mset es = {#}"
    by (metis file_expected)
  from sqlite_execution_outcome [OF sqlite_reader.axioms(1) [OF file_env_ok(1)] file_env_ok(2) p(4) [unfolded names_ok_def]
      es(1) file_sqlite file_sqlite p(2) [unfolded file_execution_def]] p
  show ?thesis using es(2) by (auto simp: outcome_sound_def unknown_outcome_def)
qed

end
