(* ===== verification/Threads.thy ===== *)
theory Threads
  imports Main "HOL-Library.Multiset"
begin

text \<open>
  Code that runs on several threads. A thread is a tree of atomic steps on a shared state: a lock
  that is held for a whole block makes the block one step, and between two steps the other threads
  may run. The trees are well-founded, so a thread with no loop of its own always ends; what goes on
  for ever in the program (its event loops) starts new threads from outside.
\<close>

subsection \<open>Threads and schedules\<close>

datatype 's thread = Halt | Atomic "'s \<Rightarrow> 's thread \<times> 's" | Fork "'s thread" "'s thread"

text \<open>One atomic operation and what is done with its result.\<close>

definition atomically :: "('s \<Rightarrow> 'a \<times> 's) \<Rightarrow> ('a \<Rightarrow> 's thread) \<Rightarrow> 's thread" where
  "atomically f k = Atomic (\<lambda>s. case f s of (x, t) \<Rightarrow> (k x, t))"

fun resume :: "'s thread \<Rightarrow> 's \<Rightarrow> 's thread list \<times> 's" where
  "resume Halt s = ([], s)"
| "resume (Atomic f) s = (case f s of (p, t) \<Rightarrow> ([p], t))"
| "resume (Fork p q) s = ([p, q], s)"

text \<open>The threads that are not finished, and the state they share.\<close>

type_synonym 's threads = "'s thread list \<times> 's"

definition run_thread :: "nat \<Rightarrow> 's threads \<Rightarrow> 's threads" where
  "run_thread i c = (case c of (ps, s) \<Rightarrow> case resume (ps ! i) s of (qs, t) \<Rightarrow> (take i ps @ qs @ drop (Suc i) ps, t))"

inductive runs :: "'s threads \<Rightarrow> 's threads \<Rightarrow> bool" where
  run: "i < length ps \<Longrightarrow> runs (ps, s) (run_thread i (ps, s))"

inductive_cases runsE: "runs c d"

subsection \<open>Every schedule ends\<close>

inductive child :: "'s thread \<Rightarrow> 's thread \<Rightarrow> bool" where
  child_step: "child (fst (f s)) (Atomic f)"
| child_fork: "child p (Fork p q)"
| child_rest: "child q (Fork p q)"

inductive_simps child_simps: "child p Halt" "child p (Atomic f)" "child p (Fork q r)"

lemma wfp_child: "wfp child"
proof (rule accp_wfpI, rule allI)
  fix p :: "'s thread"
  show "Wellfounded.accp child p"
  proof (induction p)
    case Halt
    then show ?case by - (rule accp.accI, unfold child_simps, blast)
  next
    case (Atomic f)
    have "Wellfounded.accp child (fst (f s))" for s
      by (rule Atomic [of "f s"]) (simp_all add: fsts.simps)
    then show ?case by - (rule accp.accI, unfold child_simps, blast)
  next
    case (Fork p q)
    then show ?case by - (rule accp.accI, unfold child_simps, blast)
  qed
qed

lemma resume_children: "resume p s = (qs, t) \<Longrightarrow> q \<in> set qs \<Longrightarrow> child q p"
  by (cases p) (auto intro: child.intros simp: prod.case_eq_if dest: sym)

lemma runs_split:
  assumes "runs c d"
  obtains before p after s qs t where "c = (before @ p # after, s)" "resume p s = (qs, t)" "d = (before @ qs @ after, t)"
  using assms
proof (cases rule: runs.cases)
  case (run i ps s)
  obtain qs t where r: "resume (ps ! i) s = (qs, t)" by fastforce
  have "c = (take i ps @ ps ! i # drop (Suc i) ps, s)" using run by (simp add: id_take_nth_drop [symmetric])
  moreover have "d = (take i ps @ qs @ drop (Suc i) ps, t)" using run r by (simp add: run_thread_def)
  ultimately show thesis using that r by blast
qed

definition work :: "('s threads \<times> 's threads) set" where
  "work = inv_image (mult {(p, q). child p q}) (\<lambda>c. mset (fst c))"

lemma wf_work: "wf work"
  unfolding work_def using wfp_child by (intro wf_inv_image wf_mult) (simp add: wfp_def)

lemma runs_work: "runs c d \<Longrightarrow> (d, c) \<in> work"
proof (erule runs_split)
  fix before p after s qs t
  assume p: "resume p s = (qs, t)" and c: "c = (before @ p # after, s)" "d = (before @ qs @ after, t)"
  have "(mset (before @ after) + mset qs, mset (before @ after) + {#p#}) \<in> mult {(p, q). child p q}"
    by (rule one_step_implies_mult) (use p resume_children in \<open>auto\<close>)
  then show "(d, c) \<in> work" using c by (simp add: work_def union_ac)
qed

lemma wfp_runs: "wfp (\<lambda>d c. runs c d)"
  unfolding wfp_def by (rule wf_subset [OF wf_work]) (use runs_work in auto)

lemma runs_until_idle: "\<exists>d. runs\<^sup>*\<^sup>* c d \<and> fst d = []"
proof (induction c rule: wf_induct_rule [OF wf_work])
  case (1 c)
  show ?case
  proof (cases "fst c = []")
    case False
    then have "runs c (run_thread 0 c)" by (cases c) (auto intro: run)
    then show ?thesis using 1 [OF runs_work] by (meson converse_rtranclp_into_rtranclp)
  next
    case True
    then show ?thesis by blast
  qed
qed

subsection \<open>Obligations\<close>

text \<open>
  A thread settles something that is due if it ends, whatever the others do in between, only after a
  step that leaves it not due. It answers for what it does if every step keeps the invariant and
  whatever a step makes due the rest of the thread settles.
\<close>

primrec settles :: "('s \<Rightarrow> bool) \<Rightarrow> ('k \<Rightarrow> 's \<Rightarrow> bool) \<Rightarrow> 'k \<Rightarrow> 's thread \<Rightarrow> bool" where
  "settles good due k Halt = False"
| "settles good due k (Atomic f) = (\<forall>s. good s \<longrightarrow> \<not> due k (snd (f s)) \<or> fst ((map_prod (settles good due k) id \<circ> f) s))"
| "settles good due k (Fork p q) = (settles good due k p \<or> settles good due k q)"

primrec answers :: "('s \<Rightarrow> bool) \<Rightarrow> ('k \<Rightarrow> 's \<Rightarrow> bool) \<Rightarrow> 's thread \<Rightarrow> bool" where
  "answers good due Halt = True"
| "answers good due (Atomic f) = (\<forall>s. good s \<longrightarrow> good (snd (f s)) \<and> fst ((map_prod (answers good due) id \<circ> f) s)
     \<and> (\<forall>k. due k (snd (f s)) \<longrightarrow> \<not> due k s \<longrightarrow> settles good due k (fst (f s))))"
| "answers good due (Fork p q) = (answers good due p \<and> answers good due q)"

lemma settles_atomically:
  "settles good due k (atomically f g)
     \<longleftrightarrow> (\<forall>s. good s \<longrightarrow> \<not> due k (snd (f s)) \<or> settles good due k (g (fst (f s))))"
  by (simp add: atomically_def case_prod_beta')

lemma answers_atomically:
  "answers good due (atomically f g) \<longleftrightarrow> (\<forall>s. good s \<longrightarrow> good (snd (f s)) \<and> answers good due (g (fst (f s)))
     \<and> (\<forall>k. due k (snd (f s)) \<longrightarrow> \<not> due k s \<longrightarrow> settles good due k (g (fst (f s)))))"
  by (simp add: atomically_def case_prod_beta')

definition covered :: "('s \<Rightarrow> bool) \<Rightarrow> ('k \<Rightarrow> 's \<Rightarrow> bool) \<Rightarrow> 's threads \<Rightarrow> bool" where
  "covered good due c \<longleftrightarrow> good (snd c) \<and> (\<forall>p \<in> set (fst c). answers good due p)
     \<and> (\<forall>k. due k (snd c) \<longrightarrow> (\<exists>p \<in> set (fst c). settles good due k p))"

lemma resume_answers:
  assumes "answers good due p" "good s" "resume p s = (qs, t)"
  shows "good t" and "q \<in> set qs \<Longrightarrow> answers good due q"
    and "due k t \<Longrightarrow> \<not> due k s \<or> settles good due k p \<Longrightarrow> \<exists>q \<in> set qs. settles good due k q"
  using assms by (cases p; force simp: prod.case_eq_if)+

lemma runs_covered:
  assumes "runs c d" and "covered good due c"
  shows "covered good due d"
  using assms(1)
proof (rule runs_split)
  fix before p after s qs t
  assume p: "resume p s = (qs, t)" and c: "c = (before @ p # after, s)" "d = (before @ qs @ after, t)"
  have cov: "good s" "answers good due p" "\<And>q. q \<in> set before \<union> set after \<Longrightarrow> answers good due q"
    "\<And>k. due k s \<Longrightarrow> settles good due k p \<or> (\<exists>q \<in> set before \<union> set after. settles good due k q)"
    using assms(2) c by (auto simp: covered_def)
  note steps = resume_answers [OF cov(2,1) p]
  show ?thesis using c cov steps by (auto simp: covered_def; blast)
qed

lemma covered_idle: "covered good due ([], s) \<Longrightarrow> \<not> due k s"
  by (simp add: covered_def)

subsection \<open>A thread that runs alone\<close>

primrec run_alone :: "'s thread \<Rightarrow> 's \<Rightarrow> 's" where
  "run_alone Halt = (\<lambda>s. s)"
| "run_alone (Atomic f) = (\<lambda>s. case (map_prod run_alone id \<circ> f) s of (g, t) \<Rightarrow> g t)"
| "run_alone (Fork p q) = (\<lambda>s. run_alone q (run_alone p s))"

lemma run_alone_atomically [simp]: "run_alone (atomically f k) s = (case f s of (x, t) \<Rightarrow> run_alone (k x) t)"
  by (simp add: atomically_def case_prod_beta')

lemma runs_beside: "runs\<^sup>*\<^sup>* (ps, s) (qs, t) \<Longrightarrow> runs\<^sup>*\<^sup>* (ps @ rs, s) (qs @ rs, t)"
proof (induction "(qs, t)" arbitrary: qs t rule: rtranclp_induct)
  case (step c)
  obtain ps' u where c: "c = (ps', u)" by fastforce
  from step.hyps(2) [unfolded c] have "runs (ps' @ rs, u) (qs @ rs, t)"
  proof cases
    case (run i)
    then have "(qs @ rs, t) = run_thread i (ps' @ rs, u)"
      by (auto simp: run_thread_def nth_append split: prod.splits)
    then show ?thesis using run(2) runs.run [of i "ps' @ rs" u] by simp
  qed
  then show ?case using step.hyps(3) [OF c] by (rule rtranclp.rtrancl_into_rtrancl [rotated])
qed simp

lemma runs_first: "resume p s = (qs, t) \<Longrightarrow> runs (p # ps, s) (qs @ ps, t)"
  using run [of 0 "p # ps" s] by (simp add: run_thread_def)

lemma runs_alone: "runs\<^sup>*\<^sup>* ([p], s) ([], run_alone p s)"
proof (induction p arbitrary: s)
  case Halt
  show ?case using runs_first [of Halt s "[]" s "[]"] by auto
next
  case (Atomic f)
  obtain q t where f: "f s = (q, t)" by fastforce
  have "runs\<^sup>*\<^sup>* ([q], t) ([], run_alone q t)" by (rule Atomic [of "f s" q]) (simp, simp add: f)
  then show ?case using runs_first [of "Atomic f" s "[q]" t "[]"] f
    by (simp add: converse_rtranclp_into_rtranclp)
next
  case (Fork p q)
  have "runs\<^sup>*\<^sup>* ([p, q], s) ([q], run_alone p s)" using runs_beside [OF Fork.IH(1), where rs = "[q]"] by simp
  then show ?case using runs_first [of "Fork p q" s "[p, q]" s "[]"] Fork.IH(2) [of "run_alone p s"]
    by (auto intro: converse_rtranclp_into_rtranclp rtranclp_trans)
qed

end
