(* ===== verification/Runtime.thy ===== *)
theory Runtime
  imports Threads History Plan Connection
begin

text \<open>
  The runtime of the data tasks (\<open>src-tauri/src/commands/data\_tasks.rs\<close>) and the way the program
  ends (\<open>lifecycle.rs\<close> and \<open>confirm\_data\_task\_exit\<close> in \<open>lib.rs\<close>): the commands the user interface
  calls, the workers they start, the history that is saved on the way, and the stored plans.

  Commands, workers, the maintenance timer and the events of the window run on different threads.
  The locks of the runtime are held for single operations, each of which is one atomic step here;
  between two steps anything else may happen. Saving the history holds its own lock from reading the
  list of tasks to the renaming of the file, so it is one step, too.
\<close>

subsection \<open>State\<close>

record plan_envelope =
  en_plan :: stored_plan
  en_source_digest :: bytes
  en_target_digest :: bytes
  en_directory :: string

datatype reply = RError data_task_error | RSnapshot data_task_snapshot | RPage data_diff_page
  | RTasks "data_task_snapshot list" | RDone

text \<open>
  The snapshot directories that exist are listed with whether they have files. \<open>rt\_dialog\<close> says that
  the question before the exit is on the screen, \<open>rt\_waiting\<close> that the program waits for its tasks
  to end, \<open>rt\_exited\<close> that the exit was allowed. \<open>rt\_calls\<close> counts the calls of the environment.
  \<open>rt\_stray\<close> is an auxiliary variable that nothing reads: the tasks that were started by a command
  that starts no worker for them.
\<close>

record runtime =
  rt_registry :: registry
  rt_plans :: "(string \<times> plan_envelope) list"
  rt_directory :: "string option"
  rt_history :: history_file
  rt_dirs :: "(string \<times> bool) list"
  rt_resources :: resources
  rt_prompt :: bool
  rt_dialog :: bool
  rt_waiting :: bool
  rt_exited :: bool
  rt_events :: "data_task_snapshot list"
  rt_replies :: "reply list"
  rt_calls :: nat
  rt_stray :: "string list"

text \<open>What the system calls of the start answer.\<close>

record init_io =
  ii_base :: "string option"
  ii_plain :: bool
  ii_created :: bool
  ii_secured :: bool
  ii_lock_file :: bool
  ii_lock_free :: bool
  ii_snapshots_exist :: bool
  ii_snapshots_plain :: bool
  ii_snapshots_removed :: bool
  ii_snapshots_made :: bool
  ii_snapshots_secured :: bool

text \<open>
  The environment, call by call: the JSON codecs, the digest of a configuration, the \<open>uuid\<close>
  package, the clock, the system calls, the saved connections, and what the executor does: the
  progress it reports and its result, or none when its thread panics. A preparation also says whether
  it left a directory, and one with files in it.
\<close>

record app_env =
  ae_plan :: plan_env
  ae_to_vec :: "data_task_snapshot list \<Rightarrow> bytes option"
  ae_from_slice :: "bytes \<Rightarrow> data_task_snapshot list option"
  ae_page_json :: "data_diff_page \<Rightarrow> bytes option"
  ae_digest :: "connection_config \<Rightarrow> bytes"
  ae_is_uuid :: "string \<Rightarrow> bool"
  ae_uuid :: "nat \<Rightarrow> string"
  ae_clock :: "nat \<Rightarrow> nat"
  ae_init :: "nat \<Rightarrow> init_io"
  ae_save :: "nat \<Rightarrow> bool \<times> bool \<times> bool"
  ae_remove :: "nat \<Rightarrow> bool"
  ae_saved :: "nat \<Rightarrow> connection_config list option"
  ae_prepare :: "nat \<Rightarrow> progress_update list \<times> stored_plan task_result option \<times> bool option"
  ae_execute :: "nat \<Rightarrow> progress_update list \<times> data_task_result option"

type_synonym app = "runtime thread"

subsection \<open>Errors\<close>

definition file_error :: data_task_error where
  "file_error = task_error ''resource_limit'' ''the directory or the history of the data tasks cannot be prepared''"

definition internal_error :: data_task_error where
  "internal_error = task_error ''task_failed'' ''the task was interrupted''"

definition failed_result :: "data_task_error \<Rightarrow> data_task_result" where
  "failed_result e = \<lparr>res_status = (if err_code e = ''cancelled'' then Cancelled else Failed), res_commit_state = CommitNone,
     res_tables = [], res_error = Some e, cleanup_errors = [], requires_target_refresh = False\<rparr>"

definition unknown_result :: "data_table_preview list \<Rightarrow> data_task_result" where
  "unknown_result tables = \<lparr>res_status = OutcomeUnknown, res_commit_state = CommitUnknown, res_tables = tables,
     res_error = Some (task_error ''outcome_unknown'' ''the execution was interrupted, check the target first''),
     cleanup_errors = [], requires_target_refresh = True\<rparr>"

subsection \<open>Steps\<close>

definition registry_op :: "app_env \<Rightarrow> (nat \<Rightarrow> registry \<Rightarrow> 'a \<times> registry) \<Rightarrow> ('a \<Rightarrow> app) \<Rightarrow> app" where
  "registry_op env f = atomically (\<lambda>s. case f (ae_clock env (rt_calls s)) (rt_registry s) of
     (x, reg) \<Rightarrow> (x, s\<lparr>rt_registry := reg, rt_calls := rt_calls s + 1\<rparr>))"

text \<open>A value of the environment.\<close>

definition ask :: "(nat \<Rightarrow> 'a) \<Rightarrow> ('a \<Rightarrow> app) \<Rightarrow> app" where
  "ask f = atomically (\<lambda>s. (f (rt_calls s), s\<lparr>rt_calls := rt_calls s + 1\<rparr>))"

text \<open>A change of anything but the registry.\<close>

definition local_op :: "(runtime \<Rightarrow> 'a \<times> runtime) \<Rightarrow> ('a \<Rightarrow> app) \<Rightarrow> app" where
  "local_op f = atomically (\<lambda>s. case f s of (x, t) \<Rightarrow> (x, t\<lparr>rt_registry := rt_registry s, rt_stray := rt_stray s\<rparr>))"

definition answer :: "reply \<Rightarrow> app" where
  "answer r = local_op (\<lambda>s. ((), s\<lparr>rt_replies := rt_replies s @ [r]\<rparr>)) (\<lambda>_. Halt)"

definition emit_event :: "data_task_snapshot \<Rightarrow> app \<Rightarrow> app" where
  "emit_event sn k = local_op (\<lambda>s. ((), s\<lparr>rt_events := rt_events s @ [sn]\<rparr>)) (\<lambda>_. k)"

definition cleanup_op :: "app_env \<Rightarrow> string \<Rightarrow> string \<Rightarrow> app \<Rightarrow> app" where
  "cleanup_op env tid message k = registry_op env (\<lambda>now reg. ((), append_cleanup_error now tid message reg)) (\<lambda>_. k)"

subsection \<open>The start\<close>

definition lock_directory :: "init_io \<Rightarrow> unit task_result" where
  "lock_directory io = (if \<not> ii_lock_file io then Inl file_error
     else if \<not> ii_lock_free io then Inl (task_error ''task_busy'' ''another instance uses the data tasks'')
     else Inr ())"

definition initialize_step :: "app_env \<Rightarrow> runtime \<Rightarrow> string task_result \<times> runtime" where
  "initialize_step env s0 = (case rt_directory s0 of
     Some dir \<Rightarrow> (Inr dir, s0)
   | None \<Rightarrow>
       (let io = ae_init env (rt_calls s0); s = s0\<lparr>rt_calls := rt_calls s0 + 1\<rparr> in
        case ii_base io of
          None \<Rightarrow> (Inl file_error, s)
        | Some base \<Rightarrow>
            if \<not> (ii_plain io \<and> ii_created io \<and> ii_secured io) then (Inl file_error, s)
            else (case lock_directory io of
                Inl e \<Rightarrow> (Inl e, s)
              | Inr _ \<Rightarrow> (case load_history (ae_from_slice env) (rt_history s) of
                  Inl e \<Rightarrow> (Inl e, s)
                | Inr restored \<Rightarrow>
                    if ii_snapshots_exist io \<and> \<not> (ii_snapshots_plain io \<and> ii_snapshots_removed io)
                    then (Inl file_error, s)
                    else if \<not> (ii_snapshots_made io \<and> ii_snapshots_secured io)
                    then (Inl file_error, s\<lparr>rt_dirs := []\<rparr>)
                    else (Inr (base @ ''/data-tasks''), s\<lparr>rt_dirs := [], rt_registry := restore restored (rt_registry s),
                      rt_directory := Some (base @ ''/data-tasks'')\<rparr>)))))"

definition initialize :: "app_env \<Rightarrow> (string task_result \<Rightarrow> app) \<Rightarrow> app" where
  "initialize env = atomically (initialize_step env)"

subsection \<open>Saving and publishing\<close>

definition persist :: "app_env \<Rightarrow> (unit task_result \<Rightarrow> app) \<Rightarrow> app" where
  "persist env = atomically (\<lambda>s. case rt_directory s of
     None \<Rightarrow> (Inl file_error, s)
   | Some _ \<Rightarrow> (case list_tasks (ae_clock env (rt_calls s)) (rt_registry s) of (items, reg) \<Rightarrow>
       case save_history (ae_to_vec env) (ae_save env (rt_calls s)) items (rt_history s) of (r, saved) \<Rightarrow>
         (r, s\<lparr>rt_registry := reg, rt_history := saved, rt_calls := rt_calls s + 1\<rparr>)))"

definition publish :: "app_env \<Rightarrow> data_task_snapshot \<Rightarrow> app \<Rightarrow> app" where
  "publish env sn k =
     (let report = registry_op env (\<lambda>now. snapshot now (sn_task_id sn))
        (\<lambda>current. emit_event (case current of Inr c \<Rightarrow> c | Inl _ \<Rightarrow> sn) k) in
      persist env (\<lambda>saved. case saved of
          Inl _ \<Rightarrow> cleanup_op env (sn_task_id sn) ''the summary of the task was not saved'' report
        | Inr _ \<Rightarrow> report))"

subsection \<open>Stored plans\<close>

definition kept_plans :: "data_task_snapshot list \<Rightarrow> string list" where
  "kept_plans ss = List.map_filter (\<lambda>s. map_option pv_plan_id (sn_preview s)) ss"

definition take_plans :: "string list \<Rightarrow> runtime \<Rightarrow> (string \<times> string) list \<times> runtime" where
  "take_plans keep s =
     (map (\<lambda>(_, e). (pv_task_id (sp_preview (en_plan e)), en_directory e)) (filter (\<lambda>(i, _). i \<notin> set keep) (rt_plans s)),
      s\<lparr>rt_plans := filter (\<lambda>(i, _). i \<in> set keep) (rt_plans s)\<rparr>)"

definition remove_directory :: "app_env \<Rightarrow> string \<Rightarrow> runtime \<Rightarrow> bool \<times> runtime" where
  "remove_directory env path s =
     (if path \<notin> fst ` set (rt_dirs s) then (True, s)
      else if ae_remove env (rt_calls s)
      then (True, s\<lparr>rt_dirs := filter (\<lambda>(p, _). p \<noteq> path) (rt_dirs s), rt_calls := rt_calls s + 1\<rparr>)
      else (False, s\<lparr>rt_calls := rt_calls s + 1\<rparr>))"

fun remove_directories :: "app_env \<Rightarrow> (string \<times> string) list \<Rightarrow> app \<Rightarrow> app" where
  "remove_directories env [] k = k"
| "remove_directories env ((tid, path) # rest) k = local_op (remove_directory env path) (\<lambda>ok.
     if ok then remove_directories env rest k
     else cleanup_op env tid ''a temporary snapshot was not removed'' (remove_directories env rest k))"

definition prune :: "app_env \<Rightarrow> app \<Rightarrow> app" where
  "prune env k = registry_op env list_tasks (\<lambda>ss.
     local_op (take_plans (kept_plans ss)) (\<lambda>removed. remove_directories env removed k))"

definition maintenance :: "app_env \<Rightarrow> app \<Rightarrow> app" where
  "maintenance env k = prune env (persist env (\<lambda>_. k))"

subsection \<open>Cancellation and progress\<close>

fun cancel_each :: "app_env \<Rightarrow> data_task_snapshot list \<Rightarrow> app \<Rightarrow> app" where
  "cancel_each env [] k = k"
| "cancel_each env (s # ss) k =
     (if is_terminal (sn_status s) then cancel_each env ss k
      else registry_op env (\<lambda>now. cancel now (sn_task_id s)) (\<lambda>r. case r of
          Inl _ \<Rightarrow> cancel_each env ss k
        | Inr c \<Rightarrow> publish env c (cancel_each env ss k)))"

definition cancel_all :: "app_env \<Rightarrow> app \<Rightarrow> app" where
  "cancel_all env k = registry_op env list_tasks (\<lambda>ss. cancel_each env ss (prune env k))"

text \<open>
  The signal belongs to the registration the worker was started for. A record that was registered
  again under the same id has a signal of its own, so it is raised on a task that is in work.
\<close>

definition stop_worker :: "app_env \<Rightarrow> string \<Rightarrow> app \<Rightarrow> app" where
  "stop_worker env tid k = registry_op env (\<lambda>_ reg. ((),
     case get_record tid reg of
       Some r \<Rightarrow> if in_work r then raise_signal tid reg else reg
     | None \<Rightarrow> reg)) (\<lambda>_. k)"

definition report :: "app_env \<Rightarrow> string \<Rightarrow> nat \<times> data_task_status \<Rightarrow> progress_update
    \<Rightarrow> (nat \<times> data_task_status \<Rightarrow> app) \<Rightarrow> app" where
  "report env tid latest update k =
     registry_op env (\<lambda>now reg. ((), progress now tid update reg)) (\<lambda>_.
     ask (ae_clock env) (\<lambda>now.
       if snd latest \<noteq> up_status update \<or> 200 \<le> now - fst latest
       then (let next = registry_op env (\<lambda>now. snapshot now tid) (\<lambda>r. case r of
                 Inr s \<Rightarrow> emit_event s (k (now, up_status update))
               | Inl _ \<Rightarrow> k (now, up_status update)) in
             persist env (\<lambda>saved. case saved of Inl _ \<Rightarrow> stop_worker env tid next | Inr _ \<Rightarrow> next))
       else k latest))"

fun reports :: "app_env \<Rightarrow> string \<Rightarrow> nat \<times> data_task_status \<Rightarrow> progress_update list \<Rightarrow> app \<Rightarrow> app" where
  "reports env tid latest [] k = k"
| "reports env tid latest (u # us) k = report env tid latest u (\<lambda>l. reports env tid l us k)"

definition first_report :: "nat \<Rightarrow> nat \<times> data_task_status" where
  "first_report now = (now - 1000, Created)"

subsection \<open>Previews\<close>

definition insert_plan_envelope :: "string \<Rightarrow> plan_envelope \<Rightarrow> runtime \<Rightarrow> unit \<times> runtime" where
  "insert_plan_envelope plan e s = ((), s\<lparr>rt_plans := (plan, e) # filter (\<lambda>(i, _). i \<noteq> plan) (rt_plans s)\<rparr>)"

definition remove_plan_envelope :: "string \<Rightarrow> runtime \<Rightarrow> unit \<times> runtime" where
  "remove_plan_envelope plan s = ((), s\<lparr>rt_plans := filter (\<lambda>(i, _). i \<noteq> plan) (rt_plans s)\<rparr>)"

definition leave_directory :: "string \<Rightarrow> bool option \<Rightarrow> runtime \<Rightarrow> unit \<times> runtime" where
  "leave_directory path left s = ((), case left of None \<Rightarrow> s | Some filled \<Rightarrow> s\<lparr>rt_dirs := (path, filled) # rt_dirs s\<rparr>)"

definition remove_if_empty :: "string \<Rightarrow> runtime \<Rightarrow> unit \<times> runtime" where
  "remove_if_empty path s = ((), if (path, True) \<in> set (rt_dirs s) then s
     else s\<lparr>rt_dirs := filter (\<lambda>(p, _). p \<noteq> path) (rt_dirs s)\<rparr>)"

definition preview_done :: "app_env \<Rightarrow> string \<Rightarrow> data_task_snapshot task_result \<Rightarrow> app" where
  "preview_done env path ended =
     (let rest = prune env (local_op (remove_if_empty path) (\<lambda>_. Halt)) in
      case ended of Inr sn \<Rightarrow> publish env sn rest | Inl _ \<Rightarrow> rest)"

definition finish_op :: "app_env \<Rightarrow> string \<Rightarrow> data_task_result \<Rightarrow> (data_task_snapshot task_result \<Rightarrow> app) \<Rightarrow> app" where
  "finish_op env tid result = registry_op env (\<lambda>now. finish now tid result)"

definition offer_plan :: "app_env \<Rightarrow> string \<Rightarrow> string \<Rightarrow> plan_envelope \<Rightarrow> app" where
  "offer_plan env tid path e =
     (let preview = sp_preview (en_plan e); plan = pv_plan_id preview in
      local_op (insert_plan_envelope plan e) (\<lambda>_.
      registry_op env (\<lambda>now. set_ready now tid preview) (\<lambda>r. case r of
          Inr sn \<Rightarrow> preview_done env path (Inr sn)
        | Inl err \<Rightarrow> local_op (remove_plan_envelope plan) (\<lambda>_.
            finish_op env tid (failed_result err) (preview_done env path)))))"

definition preview_worker :: "app_env \<Rightarrow> string \<Rightarrow> string \<Rightarrow> connection_config \<Rightarrow> connection_config \<Rightarrow> app" where
  "preview_worker env tid path source target =
     ask (ae_clock env) (\<lambda>now.
     ask (ae_prepare env) (\<lambda>(updates, result, left).
     reports env tid (first_report now) updates (
     local_op (leave_directory path left) (\<lambda>_.
     case (case result of None \<Rightarrow> Inl internal_error | Some r \<Rightarrow> r) of
       Inr plan \<Rightarrow> offer_plan env tid path \<lparr>en_plan = plan, en_source_digest = ae_digest env source,
         en_target_digest = ae_digest env target, en_directory = path\<rparr>
     | Inl err \<Rightarrow> finish_op env tid (failed_result err) (preview_done env path)))))"

text \<open>What is done when the new state of a task cannot be saved.\<close>

definition give_up :: "app_env \<Rightarrow> string \<Rightarrow> data_task_error \<Rightarrow> app" where
  "give_up env tid err = finish_op env tid (failed_result err) (\<lambda>r. answer (RError (case r of Inl e \<Rightarrow> e | Inr _ \<Rightarrow> err)))"

definition saved_connections :: "app_env \<Rightarrow> (connection_config list task_result \<Rightarrow> app) \<Rightarrow> app" where
  "saved_connections env k = ask (ae_saved env) (\<lambda>saved.
     k (ok_or (task_error ''plan_stale'' ''the saved connections cannot be read'') saved))"

definition start_preview :: "app_env \<Rightarrow> string \<Rightarrow> data_task_request \<Rightarrow> app" where
  "start_preview env tid request =
     initialize env (\<lambda>dir. case dir of Inl e \<Rightarrow> answer (RError e) | Inr dir \<Rightarrow>
     saved_connections env (\<lambda>saved. case rbind saved (\<lambda>saved. selected_configs saved request) of
       Inl e \<Rightarrow> answer (RError e)
     | Inr (source, target) \<Rightarrow>
         if req_mode request \<notin> set (supported_modes (get_config_capabilities (cc_database_type source)
           (cc_database_type target) (cc_read_only target)))
         then answer (RError (task_error ''unsupported_capability'' ''the mode is not supported for these databases''))
         else registry_op env (\<lambda>now. register_preview now tid request) (\<lambda>r. case r of
           Inl e \<Rightarrow> answer (RError e)
         | Inr (sn, start, _) \<Rightarrow>
             if \<not> start then answer (RSnapshot sn)
             else persist env (\<lambda>p. case p of
               Inl e \<Rightarrow> give_up env tid e
             | Inr _ \<Rightarrow> publish env sn (ask (ae_uuid env) (\<lambda>u.
                 Fork (preview_worker env tid (dir @ ''/snapshots/task-'' @ u) source target) (answer (RSnapshot sn))))))))"

subsection \<open>Executions\<close>

definition execution_worker :: "app_env \<Rightarrow> string \<Rightarrow> plan_envelope \<Rightarrow> app" where
  "execution_worker env tid e =
     ask (ae_clock env) (\<lambda>now.
     ask (ae_execute env) (\<lambda>(updates, result).
     reports env tid (first_report now) updates (
     finish_op env tid (case result of Some r \<Rightarrow> r | None \<Rightarrow> unknown_result (pv_tables (sp_preview (en_plan e)))) (\<lambda>_.
     prune env (
     registry_op env (\<lambda>now. snapshot now tid) (\<lambda>r. case r of
       Inr sn \<Rightarrow> publish env sn Halt | Inl _ \<Rightarrow> Halt))))))"

definition begin_op :: "app_env \<Rightarrow> execute_input \<Rightarrow> ((data_task_snapshot \<times> bool \<times> bool) task_result \<Rightarrow> app) \<Rightarrow> app" where
  "begin_op env input = registry_op env (\<lambda>now. begin_execution (ae_is_uuid env) now input)"

definition find_envelope :: "string \<Rightarrow> (plan_envelope task_result \<Rightarrow> app) \<Rightarrow> app" where
  "find_envelope plan = local_op (\<lambda>s. (ok_or (task_error ''plan_stale'' ''the preview is gone or has expired'')
     (map_of (rt_plans s) plan), s))"

definition start_execution :: "app_env \<Rightarrow> execute_input \<Rightarrow> plan_envelope \<Rightarrow> app" where
  "start_execution env input e =
     begin_op env input (\<lambda>r. case r of
       Inl err \<Rightarrow> answer (RError err)
     | Inr (sn, start, _) \<Rightarrow>
         if \<not> start then answer (RSnapshot sn)
         else persist env (\<lambda>p. case p of
           Inl err \<Rightarrow> give_up env (sn_task_id sn) err
         | Inr _ \<Rightarrow> publish env sn
             (Fork (execution_worker env (sn_task_id sn) e) (answer (RSnapshot sn)))))"

text \<open>An execution that is known already is asked for again; no worker is started.\<close>

definition note_stray :: "data_task_snapshot \<Rightarrow> bool \<Rightarrow> runtime \<Rightarrow> unit \<times> runtime" where
  "note_stray sn start s = ((), if start then s\<lparr>rt_stray := sn_task_id sn # rt_stray s\<rparr> else s)"

definition repeat_execution :: "app_env \<Rightarrow> execute_input \<Rightarrow> app" where
  "repeat_execution env input = begin_op env input (\<lambda>r. case r of
     Inl e \<Rightarrow> answer (RError e)
   | Inr (sn, start, _) \<Rightarrow> atomically (note_stray sn start) (\<lambda>_. answer (RSnapshot sn)))"

definition execute_task :: "app_env \<Rightarrow> execute_input \<Rightarrow> app" where
  "execute_task env input =
     initialize env (\<lambda>dir. case dir of Inl e \<Rightarrow> answer (RError e) | Inr _ \<Rightarrow>
     registry_op env list_tasks (\<lambda>ss.
       if \<exists>s \<in> set ss. sn_execution_id s = Some (ex_execution_id input)
       then repeat_execution env input
       else prune env (
         find_envelope (ex_plan_id input) (\<lambda>found. case found of Inl err \<Rightarrow> answer (RError err) | Inr e \<Rightarrow>
         saved_connections env (\<lambda>saved.
         case rbind saved (\<lambda>saved. rbind (selected_configs saved (sp_request (en_plan e))) (\<lambda>(source, target).
           check_configurations (ae_digest env) source target (en_source_digest e) (en_target_digest e))) of
           Inl err \<Rightarrow> answer (RError err)
         | Inr _ \<Rightarrow> start_execution env input e)))))"

subsection \<open>The other commands\<close>

definition get_task :: "app_env \<Rightarrow> string \<Rightarrow> app" where
  "get_task env tid =
     initialize env (\<lambda>dir. case dir of Inl e \<Rightarrow> answer (RError e) | Inr _ \<Rightarrow>
     registry_op env (\<lambda>now. snapshot now tid) (\<lambda>r. case r of
       Inl e \<Rightarrow> answer (RError e) | Inr sn \<Rightarrow> prune env (answer (RSnapshot sn))))"

definition get_diff :: "app_env \<Rightarrow> string \<Rightarrow> string \<Rightarrow> string option \<Rightarrow> nat \<Rightarrow> app" where
  "get_diff env plan table cursor page_size =
     initialize env (\<lambda>dir. case dir of Inl e \<Rightarrow> answer (RError e) | Inr _ \<Rightarrow>
     prune env (
       if page_size = 0 \<or> 200 < page_size then answer (RError (task_error ''resource_limit'' ''a page has 1 to 200 rows''))
       else find_envelope plan (\<lambda>found. case found of Inl err \<Rightarrow> answer (RError err) | Inr e \<Rightarrow>
         local_op (\<lambda>s. case diff_page (ae_plan env) (en_plan e) table cursor page_size (rt_resources s) of
             (r, res) \<Rightarrow> (r, s\<lparr>rt_resources := res\<rparr>)) (\<lambda>r. case r of
           Inl _ \<Rightarrow> answer (RError (task_error ''resource_limit'' ''the differences cannot be read''))
         | Inr page \<Rightarrow> (case ae_page_json env page of
             None \<Rightarrow> answer (RError internal_error)
           | Some bs \<Rightarrow> if 1024 * 1024 < length bs
               then answer (RError (task_error ''resource_limit'' ''the page is larger than 1 MiB''))
               else answer (RPage page))))))"

definition cancel_task :: "app_env \<Rightarrow> string \<Rightarrow> app" where
  "cancel_task env tid =
     initialize env (\<lambda>dir. case dir of Inl e \<Rightarrow> answer (RError e) | Inr _ \<Rightarrow>
     registry_op env (\<lambda>now. cancel now tid) (\<lambda>r. case r of
       Inl e \<Rightarrow> answer (RError e) | Inr sn \<Rightarrow> publish env sn (prune env (answer (RSnapshot sn)))))"

definition list_data_tasks :: "app_env \<Rightarrow> app" where
  "list_data_tasks env =
     initialize env (\<lambda>dir. case dir of Inl e \<Rightarrow> answer (RError e) | Inr _ \<Rightarrow>
     prune env (registry_op env list_tasks (\<lambda>ss. answer (RTasks ss))))"

definition discard_preview :: "app_env \<Rightarrow> string \<Rightarrow> app" where
  "discard_preview env plan =
     initialize env (\<lambda>dir. case dir of Inl e \<Rightarrow> answer (RError e) | Inr _ \<Rightarrow>
     registry_op env (\<lambda>now. discard now plan) (\<lambda>r. case r of
       Inl e \<Rightarrow> answer (RError e)
     | Inr None \<Rightarrow> prune env (answer RDone)
     | Inr (Some sn) \<Rightarrow> publish env sn (prune env (answer RDone))))"

subsection \<open>The exit\<close>

datatype exit_decision = Allow | Confirm | KeepOpen

definition request_exit :: "bool \<Rightarrow> bool \<Rightarrow> exit_decision \<times> bool" where
  "request_exit active prompt_open =
     (if \<not> active then (Allow, prompt_open) else if prompt_open then (KeepOpen, True) else (Confirm, True))"

definition continue_waiting :: "runtime \<Rightarrow> unit \<times> runtime" where
  "continue_waiting s = ((), s\<lparr>rt_prompt := False\<rparr>)"

definition exit_step :: "bool \<Rightarrow> runtime \<Rightarrow> unit \<times> runtime" where
  "exit_step active s = (case request_exit active (rt_prompt s) of (decision, prompt_open) \<Rightarrow>
     ((), s\<lparr>rt_prompt := prompt_open, rt_exited := (rt_exited s \<or> decision = Allow),
        rt_dialog := (rt_dialog s \<or> decision = Confirm)\<rparr>))"

definition confirm_exit :: "app_env \<Rightarrow> app" where
  "confirm_exit env = registry_op env has_active (\<lambda>active. local_op (exit_step active) (\<lambda>_. Halt))"

definition answer_dialog :: "app_env \<Rightarrow> bool \<Rightarrow> app" where
  "answer_dialog env stop =
     local_op (\<lambda>s. ((), s\<lparr>rt_dialog := False\<rparr>)) (\<lambda>_.
       if stop then cancel_all env (local_op (\<lambda>s. ((), s\<lparr>rt_waiting := True\<rparr>)) (\<lambda>_. Halt))
       else local_op continue_waiting (\<lambda>_. Halt))"

text \<open>One round of the loop that waits for the tasks to end.\<close>

definition exit_tick :: "app_env \<Rightarrow> app" where
  "exit_tick env = registry_op env has_active (\<lambda>active. if active then Halt else maintenance env (confirm_exit env))"

subsection \<open>The program\<close>

datatype event = StartPreview string data_task_request | GetTask string
  | GetDiff string string "string option" nat | ExecuteTask execute_input | CancelTask string | ListTasks
  | DiscardPreview string | Maintenance | CloseRequested | DialogAnswered bool | ExitTick

fun handler :: "app_env \<Rightarrow> event \<Rightarrow> app" where
  "handler env (StartPreview tid request) = start_preview env tid request"
| "handler env (GetTask tid) = get_task env tid"
| "handler env (GetDiff plan table cursor n) = get_diff env plan table cursor n"
| "handler env (ExecuteTask input) = execute_task env input"
| "handler env (CancelTask tid) = cancel_task env tid"
| "handler env ListTasks = list_data_tasks env"
| "handler env (DiscardPreview plan) = discard_preview env plan"
| "handler env Maintenance = maintenance env Halt"
| "handler env CloseRequested = confirm_exit env"
| "handler env (DialogAnswered stop) = answer_dialog env stop"
| "handler env ExitTick = exit_tick env"

fun enabled :: "event \<Rightarrow> runtime \<Rightarrow> bool" where
  "enabled (DialogAnswered _) s = rt_dialog s"
| "enabled ExitTick s = rt_waiting s"
| "enabled _ s = True"

definition start_state :: "history_file \<Rightarrow> resources \<Rightarrow> runtime" where
  "start_state hist res = \<lparr>rt_registry = empty_registry, rt_plans = [], rt_directory = None, rt_history = hist,
     rt_dirs = [], rt_resources = res, rt_prompt = False, rt_dialog = False, rt_waiting = False, rt_exited = False,
     rt_events = [], rt_replies = [], rt_calls = 0, rt_stray = []\<rparr>"

inductive app_step :: "app_env \<Rightarrow> runtime threads \<Rightarrow> runtime threads \<Rightarrow> bool" for env where
  arrives: "enabled e s \<Longrightarrow> \<not> rt_exited s \<Longrightarrow> app_step env (ps, s) (ps @ [handler env e], s)"
| goes_on: "runs c d \<Longrightarrow> \<not> rt_exited (snd c) \<Longrightarrow> app_step env c d"

definition reachable_app :: "app_env \<Rightarrow> runtime threads \<Rightarrow> bool" where
  "reachable_app env c \<longleftrightarrow> (\<exists>hist res. (app_step env)\<^sup>*\<^sup>* ([], start_state hist res) c)"

end
