(* ===== verification/Runtime_Proofs.thy ===== *)
theory Runtime_Proofs
  imports Runtime
begin

text \<open>
  What the threads of the runtime achieve together. Every command answers for the tasks it gets under
  way: it goes on to finish them or leaves behind a worker that does. From this follows that all tasks
  come to an end under every schedule, that the program can exit, and that the registry of the runtime
  is one of the reachable ones, so that everything proved of the registry holds for the program. Two
  schedules show what can go wrong.
\<close>

subsection \<open>Tasks that are under way\<close>

definition under_way :: "task_record \<Rightarrow> bool" where
  "under_way r \<longleftrightarrow> \<not> is_terminal (status r) \<and> status r \<noteq> Ready"

definition unsettled :: "string \<Rightarrow> registry \<Rightarrow> bool" where
  "unsettled i reg \<longleftrightarrow> (\<exists>r. get_record i reg = Some r \<and> under_way r)"

text \<open>An operation of the registry that lets no task get under way.\<close>

definition calm :: "(registry \<Rightarrow> registry) \<Rightarrow> bool" where
  "calm f \<longleftrightarrow> (\<forall>reg i. registry_ok reg \<longrightarrow> unsettled i (f reg) \<longrightarrow> unsettled i reg)"

lemma calmI: "(\<And>reg i. registry_ok reg \<Longrightarrow> unsettled i (f reg) \<Longrightarrow> unsettled i reg) \<Longrightarrow> calm f"
  by (simp add: calm_def)

lemma calmD: "calm f \<Longrightarrow> registry_ok reg \<Longrightarrow> unsettled i (f reg) \<Longrightarrow> unsettled i reg"
  by (simp add: calm_def)

lemma unsettled_simps [simp]:
  "unsettled i (reg\<lparr>writer := w\<rparr>) = unsettled i reg"
  "unsettled i (reg\<lparr>cancelled_before_register := c\<rparr>) = unsettled i reg"
  by (simp_all add: unsettled_def)

lemma unsettled_update:
  "unsettled i (update_record j f reg) \<Longrightarrow>
     (\<And>r. get_record j reg = Some r \<Longrightarrow> under_way (f r) \<Longrightarrow> under_way r) \<Longrightarrow> unsettled i reg"
  by (auto simp: unsettled_def get_update_record split: if_splits)

lemma unsettled_update_other: "unsettled i (update_record j f reg) \<Longrightarrow> i \<noteq> j \<Longrightarrow> unsettled i reg"
  by (auto simp: unsettled_def get_update_record split: if_splits)

lemma under_way_simps [simp]:
  "under_way (touch_record now r) = under_way r"
  "under_way (expire_record now r) \<longleftrightarrow> under_way r"
  "\<not> under_way (ready_record now preview r)"
  "\<not> is_terminal (status r) \<Longrightarrow> under_way (cancel_record now r) \<longleftrightarrow> status r \<noteq> Ready \<and> status r \<noteq> Created"
  "is_terminal (res_status result) \<Longrightarrow> \<not> under_way (finish_record now result r)"
  "under_way (cleanup_record now m r) = under_way r"
  "under_way (r\<lparr>cancel_flag := b\<rparr>) = under_way r"
  by (auto simp: under_way_def status_def expire_record_def ready_record_def cancel_record_def finish_record_def
      cleanup_record_def is_expired_def Let_def)

lemma calm_expire: "calm (expire now)"
  by (rule calmI) (auto simp: unsettled_def)

lemma ok_distinct: "registry_ok reg \<Longrightarrow> distinct (map fst (records reg))"
  using records_okD(1) by (simp add: registry_ok_def)

lemma get_trim: "distinct (map fst (records reg)) \<Longrightarrow> get_record i (trim_registry reg) = Some r \<Longrightarrow> get_record i reg = Some r"
proof -
  assume d: "distinct (map fst (records reg))" and r: "get_record i (trim_registry reg) = Some r"
  obtain P where P: "trim_registry reg = reg\<lparr>records := filter P (records reg)\<rparr>" using trim_registry_eq [of reg] by blast
  then show ?thesis using get_record_Some [OF r] d by (simp add: get_record_iff)
qed

lemma unsettled_trim: "distinct (map fst (records reg)) \<Longrightarrow> unsettled i (trim_registry reg) \<Longrightarrow> unsettled i reg"
  by (auto simp: unsettled_def dest: get_trim)

lemma calm_list: "calm (\<lambda>reg. snd (list_tasks now reg))"
  using calm_expire by (simp add: list_tasks_def Let_def)

lemma calm_snapshot: "calm (\<lambda>reg. snd (snapshot now tid reg))"
  using calm_expire by (simp add: snapshot_def Let_def)

lemma calm_has_active: "calm (\<lambda>reg. snd (has_active now reg))"
  using calm_list by (simp add: has_active_def case_prod_beta' Let_def)

lemma calm_cancel: "calm (\<lambda>reg. snd (cancel now tid reg))"
proof (rule calmI)
  fix reg i
  assume u: "unsettled i (snd (cancel now tid reg))"
  show "unsettled i reg"
  proof (cases "get_record tid reg")
    case None
    then show ?thesis using u by (auto simp: cancel_def split: if_splits)
  next
    case (Some r)
    then show ?thesis using u
      by (auto simp: cancel_def Let_def split: if_splits elim!: unsettled_update) (simp add: under_way_def)
  qed
qed

lemma calm_discard: "calm (\<lambda>reg. snd (discard now plan reg))"
proof (rule calmI)
  fix reg i
  assume ok: "registry_ok reg" and u: "unsettled i (snd (discard now plan reg))"
  have "snd (discard now plan reg) = expire now reg
      \<or> (\<exists>tid. snd (discard now plan reg) = snd (cancel now tid (expire now reg)))"
    by (auto simp: discard_def list_tasks_def Let_def case_prod_beta' split: option.split)
  then show "unsettled i reg"
    using u calmD [OF calm_expire ok] calmD [OF calm_cancel registry_ok_expire [OF ok]] by metis
qed

lemma calm_set_ready: "calm (\<lambda>reg. snd (set_ready now tid preview reg))"
  by (rule calmI) (auto simp: set_ready_def Let_def split: option.splits if_splits elim!: unsettled_update)

lemma calm_cleanup: "calm (append_cleanup_error now tid message)"
  by (rule calmI) (auto simp: append_cleanup_error_def elim!: unsettled_update)

lemma calm_raise: "calm (raise_signal tid)"
  by (rule calmI) (auto simp: raise_signal_def elim!: unsettled_update)

lemma ok_distinct_finish:
  "distinct (map fst (records reg)) \<Longrightarrow> distinct (map fst (records (update_record tid f reg)))"
  by (simp add: update_record_records comp_def case_prod_beta')

lemma calm_finish: "calm (\<lambda>reg. snd (finish now tid result reg))"
proof (rule calmI)
  fix reg i
  assume ok: "registry_ok reg" and u: "unsettled i (snd (finish now tid result reg))"
  show "unsettled i reg"
  proof (cases "\<not> is_terminal (res_status result) \<or> get_record tid reg = None
      \<or> is_terminal (status (the (get_record tid reg)))")
    case True
    then show ?thesis using u by (auto simp: finish_def split: option.splits if_splits)
  next
    case False
    then show ?thesis using u ok_distinct_finish [OF ok_distinct [OF ok], of tid]
      by (auto simp: finish_def Let_def split: option.splits if_splits dest!: unsettled_trim [rotated] elim!: unsettled_update)
  qed
qed

lemma finish_settles:
  assumes "registry_ok reg" and "is_terminal (res_status result)"
  shows "\<not> unsettled tid (snd (finish now tid result reg))"
proof
  assume u: "unsettled tid (snd (finish now tid result reg))"
  show False
  proof (cases "get_record tid reg = None \<or> is_terminal (status (the (get_record tid reg)))")
    case True
    then show ?thesis using u assms(2) by (auto simp: finish_def unsettled_def under_way_def split: option.splits if_splits)
  next
    case False
    then have "unsettled tid (update_record tid (\<lambda>_. finish_record now result (the (get_record tid reg))) reg)"
      using u assms(2) ok_distinct_finish [OF ok_distinct [OF assms(1)], of tid]
      by (auto simp: finish_def Let_def split: option.splits if_splits dest!: unsettled_trim [rotated])
    then show ?thesis using assms(2) by (auto simp: unsettled_def get_update_record)
  qed
qed

lemma set_ready_settles: "fst (set_ready now tid preview reg) = Inr sn \<Longrightarrow> \<not> unsettled tid (snd (set_ready now tid preview reg))"
  by (auto simp: set_ready_def Let_def unsettled_def get_update_record split: option.splits if_splits)

lemma progress_unsettles: "unsettled i (progress now tid update reg) \<Longrightarrow> i = tid \<or> unsettled i reg"
  by (auto simp: progress_def split: option.splits if_splits dest: unsettled_update_other)

lemma restore_one_unsettles: "unsettled i (restore_one s reg) \<Longrightarrow> is_terminal (sn_status s) \<Longrightarrow> unsettled i reg"
  by (auto simp: restore_one_def unsettled_def under_way_def status_def get_record_def map_add_def split: if_splits option.splits)

lemma restore_unsettles:
  assumes "\<forall>s \<in> set items. is_terminal (sn_status s)" and "unsettled i (restore items reg)"
  shows "unsettled i reg"
proof -
  have "unsettled i reg" if "unsettled i (fold restore_one xs reg)" "\<forall>s \<in> set xs. is_terminal (sn_status s)" for xs
    using that by (induction xs arbitrary: reg) (auto dest: restore_one_unsettles)
  then show ?thesis using assms by (auto simp: restore_def dest: in_set_takeD)
qed

lemma register_unsettles:
  assumes "registry_ok reg" and "unsettled i (snd (register_preview now tid request reg))"
  shows "unsettled i reg \<or> i = tid \<and> (\<exists>sn c. fst (register_preview now tid request reg) = Inr (sn, True, c))"
proof -
  define reg' where "reg' = expire now reg"
  have old: "unsettled i reg" if "unsettled i reg'" using calmD [OF calm_expire assms(1)] that by (simp add: reg'_def)
  show ?thesis
  proof (cases "snd (register_preview now tid request reg) \<in> {reg, reg'}")
    case True
    then show ?thesis using assms(2) old by auto
  next
    case False
    let ?c = "tid \<in> set (cancelled_before_register reg')"
    let ?r = "\<lparr>snap = new_snapshot now tid request ?c, cancel_flag = ?c, execution = None, plan_id = None, pending_cleanup_errors = []\<rparr>"
    let ?new = "reg'\<lparr>cancelled_before_register := removeAll tid (cancelled_before_register reg'), records := records reg' @ [(tid, ?r)]\<rparr>"
    have new: "get_record tid reg' = None" "snd (register_preview now tid request reg) = trim_registry ?new"
      "fst (register_preview now tid request reg) = Inr (new_snapshot now tid request ?c, \<not> ?c, ?c)"
      using False by (auto simp: register_preview_def Let_def simp flip: reg'_def split: sum.splits option.splits if_splits)
    have "distinct (map fst (records reg'))" unfolding reg'_def by (rule ok_distinct [OF registry_ok_expire [OF assms(1)]])
    then have "distinct (map fst (records ?new))" using new(1) by (auto simp: get_record_None)
    then have "unsettled i ?new" using unsettled_trim assms(2) new(2) by metis
    then have "i = tid \<and> under_way ?r \<or> unsettled i reg'" using new(1) by (auto simp: unsettled_def get_add split: if_splits)
    then show ?thesis using old new(3) by (auto simp: under_way_def status_def new_snapshot_def split: if_splits)
  qed
qed

lemma begin_unsettles:
  assumes "registry_ok reg" and "unsettled i (snd (begin_execution is_uuid now input reg))"
  shows "unsettled i reg \<or> (\<exists>sn c. fst (begin_execution is_uuid now input reg) = Inr (sn, True, c) \<and> sn_task_id sn = i)"
proof (cases rule: begin_execution_cases [of is_uuid now input reg])
  case same
  then show ?thesis using assms(2) by simp
next
  case expired
  then show ?thesis using assms calmD [OF calm_expire] by simp
next
  case (start tid r)
  have "record_ok tid r" using registry_ok_get [OF registry_ok_expire [OF assms(1)] start(3)] .
  then have "sn_task_id (snap (start_record now input r)) = tid" by (simp add: record_ok_def start_record_def)
  then show ?thesis using assms start(6) calmD [OF calm_expire assms(1)] by (auto dest!: unsettled_update_other)
qed


subsection \<open>Every thread answers for the tasks it gets under way\<close>

definition app_ok :: "app_env \<Rightarrow> runtime \<Rightarrow> bool" where
  "app_ok env s \<longleftrightarrow> reachable_registry (ae_is_uuid env) (rt_registry s)"

definition app_due :: "string \<Rightarrow> runtime \<Rightarrow> bool" where
  "app_due i s \<longleftrightarrow> unsettled i (rt_registry s) \<and> i \<notin> set (rt_stray s)"

abbreviation app_answers :: "app_env \<Rightarrow> app \<Rightarrow> bool" where
  "app_answers env \<equiv> answers (app_ok env) app_due"

abbreviation app_settles :: "app_env \<Rightarrow> string \<Rightarrow> app \<Rightarrow> bool" where
  "app_settles env \<equiv> settles (app_ok env) app_due"

named_theorems app_intros \<open>what the threads of the runtime answer for and settle\<close>

lemma app_ok_step: "app_ok env s \<Longrightarrow> registry_step (ae_is_uuid env) (rt_registry s) reg \<Longrightarrow> rt_registry t = reg \<Longrightarrow> app_ok env t"
  by (auto simp: app_ok_def reachable_registry_def)

lemma app_ok_same: "app_ok env s \<Longrightarrow> rt_registry t = rt_registry s \<Longrightarrow> app_ok env t"
  by (simp add: app_ok_def)

lemma app_ok_registry: "app_ok env s \<Longrightarrow> registry_ok (rt_registry s)"
  by (auto simp: app_ok_def intro: reachable_registry_ok)

lemma answers_registry_op:
  assumes "\<And>now reg. registry_step (ae_is_uuid env) reg (snd (f now reg))"
    and "\<And>now reg. registry_ok reg \<Longrightarrow> app_answers env (k (fst (f now reg)))"
    and "\<And>now reg i. registry_ok reg \<Longrightarrow> unsettled i (snd (f now reg)) \<Longrightarrow>
      unsettled i reg \<or> app_settles env i (k (fst (f now reg)))"
  shows "app_answers env (registry_op env f k)"
  unfolding registry_op_def answers_atomically
proof (intro allI impI conjI)
  let ?f = "\<lambda>s. case f (ae_clock env (rt_calls s)) (rt_registry s) of
     (x, reg) \<Rightarrow> (x, s\<lparr>rt_registry := reg, rt_calls := rt_calls s + 1\<rparr>)"
  fix s assume ok: "app_ok env s"
  have run: "rt_registry (snd (?f s)) = snd (f (ae_clock env (rt_calls s)) (rt_registry s))"
    "fst (?f s) = fst (f (ae_clock env (rt_calls s)) (rt_registry s))" "rt_stray (snd (?f s)) = rt_stray s"
    by (simp_all add: case_prod_beta')
  show "app_ok env (snd (?f s))" using app_ok_step [OF ok assms(1) run(1)] .
  show "app_answers env (k (fst (?f s)))" unfolding run(2) using assms(2) app_ok_registry [OF ok] .
  fix i assume "app_due i (snd (?f s))" "\<not> app_due i s"
  then show "app_settles env i (k (fst (?f s)))"
    using assms(3) [OF app_ok_registry [OF ok]] unfolding app_due_def run by blast
qed

lemma answers_calm:
  assumes "\<And>now reg. registry_step (ae_is_uuid env) reg (snd (f now reg))" and "\<And>now. calm (\<lambda>reg. snd (f now reg))"
    and "\<And>x. app_answers env (k x)"
  shows "app_answers env (registry_op env f k)"
  using assms(1,3) calmD [OF assms(2)] by (intro answers_registry_op) blast+

lemma settles_registry_op [app_intros]:
  "(\<And>x. app_settles env i (k x)) \<Longrightarrow> app_settles env i (registry_op env f k)"
  by (simp add: registry_op_def settles_atomically)

lemma answers_local_op [app_intros]: "(\<And>x. app_answers env (k x)) \<Longrightarrow> app_answers env (local_op f k)"
  unfolding local_op_def answers_atomically
  by (auto simp: app_due_def case_prod_beta' intro: app_ok_same)

lemma settles_local_op [app_intros]: "(\<And>x. app_settles env i (k x)) \<Longrightarrow> app_settles env i (local_op f k)"
  by (simp add: local_op_def settles_atomically)

lemma answers_ask [app_intros]: "(\<And>x. app_answers env (k x)) \<Longrightarrow> app_answers env (ask f k)"
  unfolding ask_def answers_atomically by (auto simp: app_due_def intro: app_ok_same)

lemma settles_ask [app_intros]: "(\<And>x. app_settles env i (k x)) \<Longrightarrow> app_settles env i (ask f k)"
  by (simp add: ask_def settles_atomically)

lemma answers_halt [app_intros]: "app_answers env Halt"
  by simp

lemma answers_fork [app_intros]: "app_answers env p \<Longrightarrow> app_answers env q \<Longrightarrow> app_answers env (Fork p q)"
  by simp

lemma settles_fork [app_intros]: "app_settles env i p \<Longrightarrow> app_settles env i (Fork p q)"
  by simp

lemma app_cases [app_intros]:
  "(\<And>e. x = Inl e \<Longrightarrow> app_answers env (f e)) \<Longrightarrow> (\<And>y. x = Inr y \<Longrightarrow> app_answers env (g y)) \<Longrightarrow>
     app_answers env (case x of Inl e \<Rightarrow> f e | Inr y \<Rightarrow> g y)"
  "(\<And>e. x = Inl e \<Longrightarrow> app_settles env i (f e)) \<Longrightarrow> (\<And>y. x = Inr y \<Longrightarrow> app_settles env i (g y)) \<Longrightarrow>
     app_settles env i (case x of Inl e \<Rightarrow> f e | Inr y \<Rightarrow> g y)"
  "(z = None \<Longrightarrow> app_answers env p) \<Longrightarrow> (\<And>y. z = Some y \<Longrightarrow> app_answers env (h y)) \<Longrightarrow>
     app_answers env (case z of None \<Rightarrow> p | Some y \<Rightarrow> h y)"
  "(\<And>a b. w = (a, b) \<Longrightarrow> app_answers env (d a b)) \<Longrightarrow> app_answers env (case w of (a, b) \<Rightarrow> d a b)"
  "(\<And>a b. w = (a, b) \<Longrightarrow> app_settles env i (d a b)) \<Longrightarrow> app_settles env i (case w of (a, b) \<Rightarrow> d a b)"
  "(b \<Longrightarrow> app_answers env p) \<Longrightarrow> (\<not> b \<Longrightarrow> app_answers env q) \<Longrightarrow> app_answers env (if b then p else q)"
  "(b \<Longrightarrow> app_settles env i p) \<Longrightarrow> (\<not> b \<Longrightarrow> app_settles env i q) \<Longrightarrow> app_settles env i (if b then p else q)"
  by (auto split: sum.split option.split prod.split)

lemma step_same: "calm (\<lambda>reg. reg)"
  by (simp add: calm_def)

lemma answers_list [app_intros]: "(\<And>x. app_answers env (k x)) \<Longrightarrow> app_answers env (registry_op env list_tasks k)"
  by (rule answers_calm) (auto intro: step_list calm_list)

lemma answers_snapshot [app_intros]:
  "(\<And>x. app_answers env (k x)) \<Longrightarrow> app_answers env (registry_op env (\<lambda>now. snapshot now tid) k)"
  by (rule answers_calm) (auto intro: step_snapshot calm_snapshot)

lemma answers_cancel [app_intros]:
  "(\<And>x. app_answers env (k x)) \<Longrightarrow> app_answers env (registry_op env (\<lambda>now. cancel now tid) k)"
  by (rule answers_calm) (auto intro: step_cancel calm_cancel)

lemma answers_discard [app_intros]:
  "(\<And>x. app_answers env (k x)) \<Longrightarrow> app_answers env (registry_op env (\<lambda>now. discard now plan) k)"
  by (rule answers_calm) (auto intro: step_discard calm_discard)

lemma answers_has_active [app_intros]:
  "(\<And>x. app_answers env (k x)) \<Longrightarrow> app_answers env (registry_op env has_active k)"
  by (rule answers_calm) (auto intro: step_active calm_has_active)

lemma answers_set_ready [app_intros]:
  "(\<And>x. app_answers env (k x)) \<Longrightarrow> app_answers env (registry_op env (\<lambda>now. set_ready now tid preview) k)"
  by (rule answers_calm) (auto intro: step_ready calm_set_ready)

lemma answers_finish [app_intros]: "(\<And>x. app_answers env (k x)) \<Longrightarrow> app_answers env (finish_op env tid result k)"
  unfolding finish_op_def by (rule answers_calm) (auto intro: step_finish calm_finish)

lemma settles_finish [app_intros]: "is_terminal (res_status result) \<Longrightarrow> app_settles env tid (finish_op env tid result k)"
  by (simp add: finish_op_def registry_op_def settles_atomically app_due_def case_prod_beta' finish_settles app_ok_registry)

lemma answers_cleanup [app_intros]: "app_answers env k \<Longrightarrow> app_answers env (cleanup_op env tid message k)"
  unfolding cleanup_op_def by (rule answers_calm) (auto intro: step_cleanup calm_cleanup)

lemma settles_cleanup [app_intros]: "app_settles env i k \<Longrightarrow> app_settles env i (cleanup_op env tid message k)"
  unfolding cleanup_op_def by (rule settles_registry_op)

lemma answers_stop [app_intros]:
  assumes "app_answers env k"
  shows "app_answers env (stop_worker env tid k)"
  unfolding stop_worker_def
proof (rule answers_calm)
  fix now reg
  have "registry_step (ae_is_uuid env) reg (case get_record tid reg of
      Some r \<Rightarrow> if in_work r then raise_signal tid reg else reg | None \<Rightarrow> reg)"
  proof (cases "\<exists>r. get_record tid reg = Some r \<and> in_work r")
    case True
    then show ?thesis by (auto intro!: step_signal)
  next
    case False
    then have "(case get_record tid reg of Some r \<Rightarrow> if in_work r then raise_signal tid reg else reg | None \<Rightarrow> reg)
        = restore [] reg" by (auto simp: restore_def split: option.split)
    then show ?thesis using step_restore [of "[]"] by simp
  qed
  then show "registry_step (ae_is_uuid env) reg (snd ((), case get_record tid reg of
      Some r \<Rightarrow> if in_work r then raise_signal tid reg else reg | None \<Rightarrow> reg))" by simp
  show "calm (\<lambda>reg. snd ((), case get_record tid reg of
      Some r \<Rightarrow> if in_work r then raise_signal tid reg else reg | None \<Rightarrow> reg))"
    by (rule calmI) (auto split: option.splits if_splits dest: calmD [OF calm_raise])
qed (use assms in simp)

lemma settles_stop [app_intros]: "app_settles env i k \<Longrightarrow> app_settles env i (stop_worker env tid k)"
  unfolding stop_worker_def by (rule settles_registry_op)

lemma answers_persist [app_intros]:
  assumes "\<And>x. app_answers env (k x)"
  shows "app_answers env (persist env k)"
  unfolding persist_def answers_atomically
proof (intro allI impI conjI)
  let ?f = "\<lambda>s. case rt_directory s of
     None \<Rightarrow> (Inl file_error, s)
   | Some _ \<Rightarrow> (case list_tasks (ae_clock env (rt_calls s)) (rt_registry s) of (items, reg) \<Rightarrow>
       case save_history (ae_to_vec env) (ae_save env (rt_calls s)) items (rt_history s) of (r, saved) \<Rightarrow>
         (r, s\<lparr>rt_registry := reg, rt_history := saved, rt_calls := rt_calls s + 1\<rparr>))"
  have stray: "rt_stray (snd (?f s)) = rt_stray s" for s by (simp split: option.split prod.split)
  have reg: "rt_registry (snd (?f s)) = rt_registry s
      \<or> rt_registry (snd (?f s)) = snd (list_tasks (ae_clock env (rt_calls s)) (rt_registry s))" for s
    by (simp split: option.split prod.split)
  fix s assume ok: "app_ok env s"
  show "app_ok env (snd (?f s))"
    using reg [of s] app_ok_step [OF ok step_list] app_ok_same [OF ok] by blast
  show "app_answers env (k (fst (?f s)))" by (rule assms)
  fix i assume "app_due i (snd (?f s))" "\<not> app_due i s"
  then have "unsettled i (rt_registry (snd (?f s)))" "\<not> unsettled i (rt_registry s)"
    unfolding app_due_def stray by blast+
  then show "app_settles env i (k (fst (?f s)))"
    using reg [of s] calmD [OF calm_list app_ok_registry [OF ok]] by metis
qed

lemma settles_persist [app_intros]: "(\<And>x. app_settles env i (k x)) \<Longrightarrow> app_settles env i (persist env k)"
  by (simp add: persist_def settles_atomically)

lemma initialize_registry:
  "rt_registry (snd (initialize_step env s)) = rt_registry s
   \<or> (\<exists>restored. load_history (ae_from_slice env) (rt_history s) = Inr restored
        \<and> rt_registry (snd (initialize_step env s)) = restore restored (rt_registry s))"
  by (simp add: initialize_step_def Let_def split: option.split sum.split)

lemma answers_initialize [app_intros]:
  assumes "\<And>x. app_answers env (k x)"
  shows "app_answers env (initialize env k)"
  unfolding initialize_def answers_atomically
proof (intro allI impI conjI)
  have stray: "rt_stray (snd (initialize_step env s)) = rt_stray s" for s
    by (simp add: initialize_step_def Let_def split: option.split sum.split)
  have reg: "rt_registry (snd (initialize_step env s)) = rt_registry s
      \<or> (\<exists>items. (\<forall>s \<in> set items. is_terminal (sn_status s) \<and> sn_preview s = None)
           \<and> rt_registry (snd (initialize_step env s)) = restore items (rt_registry s))" for s
    using initialize_registry [of env s] load_history_Inr recover_terminal by metis
  fix s assume ok: "app_ok env s"
  show "app_ok env (snd (initialize_step env s))"
    using reg [of s] app_ok_step [OF ok step_restore] app_ok_same [OF ok] by metis
  show "app_answers env (k (fst (initialize_step env s)))" by (rule assms)
  fix i assume "app_due i (snd (initialize_step env s))" "\<not> app_due i s"
  then have "unsettled i (rt_registry (snd (initialize_step env s)))" "\<not> unsettled i (rt_registry s)"
    unfolding app_due_def stray by blast+
  then show "app_settles env i (k (fst (initialize_step env s)))"
    using reg [of s] restore_unsettles by metis
qed

lemma answers_report_op [app_intros]:
  assumes "app_answers env k" and "app_settles env tid k"
  shows "app_answers env (registry_op env (\<lambda>now reg. ((), progress now tid update reg)) (\<lambda>_. k))"
proof (rule answers_registry_op)
  show "registry_step (ae_is_uuid env) reg (snd ((), progress now tid update reg))" for now reg by (simp add: step_progress)
  show "unsettled i reg \<or> app_settles env i k" if "unsettled i (snd ((), progress now tid update reg))" for now reg i
    using that progress_unsettles assms(2) by fastforce
qed (rule assms(1))

lemma answers_emit [app_intros]: "app_answers env k \<Longrightarrow> app_answers env (emit_event sn k)"
  unfolding emit_event_def by (rule answers_local_op)

lemma settles_emit [app_intros]: "app_settles env i k \<Longrightarrow> app_settles env i (emit_event sn k)"
  unfolding emit_event_def by (rule settles_local_op)

lemma answers_answer [app_intros]: "app_answers env (answer r)"
  unfolding answer_def by (intro app_intros)

lemma answers_publish [app_intros]: "app_answers env k \<Longrightarrow> app_answers env (publish env sn k)"
  unfolding publish_def Let_def by (intro app_intros)

lemma settles_publish [app_intros]: "app_settles env i k \<Longrightarrow> app_settles env i (publish env sn k)"
  unfolding publish_def Let_def by (intro app_intros)

lemma answers_remove [app_intros]: "app_answers env k \<Longrightarrow> app_answers env (remove_directories env ds k)"
  by (induction ds) (auto intro!: app_intros)

lemma settles_remove [app_intros]: "app_settles env i k \<Longrightarrow> app_settles env i (remove_directories env ds k)"
  by (induction ds) (auto intro!: app_intros)

lemma answers_prune [app_intros]: "app_answers env k \<Longrightarrow> app_answers env (prune env k)"
  unfolding prune_def by (intro app_intros)

lemma settles_prune [app_intros]: "app_settles env i k \<Longrightarrow> app_settles env i (prune env k)"
  unfolding prune_def by (intro app_intros)

lemma answers_maintenance [app_intros]: "app_answers env k \<Longrightarrow> app_answers env (maintenance env k)"
  unfolding maintenance_def by (intro app_intros)

lemma answers_cancel_each [app_intros]: "app_answers env k \<Longrightarrow> app_answers env (cancel_each env ss k)"
  by (induction ss) (auto intro!: app_intros)

lemma answers_cancel_all [app_intros]: "app_answers env k \<Longrightarrow> app_answers env (cancel_all env k)"
  unfolding cancel_all_def by (intro app_intros)

lemma settles_report:
  "(\<And>l. app_settles env i (k l)) \<Longrightarrow> app_settles env i (report env tid latest update k)"
  unfolding report_def Let_def by (intro app_intros)

lemma settles_reports [app_intros]: "app_settles env i k \<Longrightarrow> app_settles env i (reports env tid latest us k)"
  by (induction us arbitrary: latest) (simp_all add: settles_report)

lemma answers_report:
  "(\<And>l. app_answers env (k l)) \<Longrightarrow> (\<And>l. app_settles env tid (k l)) \<Longrightarrow> app_answers env (report env tid latest update k)"
  unfolding report_def Let_def by (intro app_intros)

lemma answers_reports [app_intros]:
  "app_answers env k \<Longrightarrow> app_settles env tid k \<Longrightarrow> app_answers env (reports env tid latest us k)"
  by (induction us arbitrary: latest) (simp_all add: answers_report settles_reports)

subsection \<open>Workers\<close>

lemma failed_terminal: "is_terminal (res_status (failed_result e))"
  by (simp add: failed_result_def)

lemma answers_preview_done [app_intros]: "app_answers env (preview_done env path r)"
  unfolding preview_done_def Let_def by (intro app_intros)

lemma settles_set_ready:
  assumes "\<And>e. app_settles env tid (k (Inl e))"
  shows "app_settles env tid (registry_op env (\<lambda>now. set_ready now tid preview) k)"
  unfolding registry_op_def settles_atomically
proof (intro allI impI)
  fix s assume "app_ok env s"
  show "\<not> app_due tid (snd (case set_ready (ae_clock env (rt_calls s)) tid preview (rt_registry s) of
      (x, reg) \<Rightarrow> (x, s\<lparr>rt_registry := reg, rt_calls := rt_calls s + 1\<rparr>)))
    \<or> app_settles env tid (k (fst (case set_ready (ae_clock env (rt_calls s)) tid preview (rt_registry s) of
      (x, reg) \<Rightarrow> (x, s\<lparr>rt_registry := reg, rt_calls := rt_calls s + 1\<rparr>))))"
    using assms set_ready_settles [of "ae_clock env (rt_calls s)" tid preview "rt_registry s"]
    by (cases "fst (set_ready (ae_clock env (rt_calls s)) tid preview (rt_registry s))")
      (simp_all add: app_due_def case_prod_beta')
qed

lemma answers_offer [app_intros]: "app_answers env (offer_plan env tid path e)"
  unfolding offer_plan_def Let_def by (intro app_intros)

lemma settles_offer [app_intros]: "app_settles env tid (offer_plan env tid path e)"
  unfolding offer_plan_def Let_def
  by (intro settles_local_op settles_set_ready) (simp, intro settles_local_op settles_finish failed_terminal)

lemma preview_worker_answers [app_intros]: "app_answers env (preview_worker env tid path source target)"
  unfolding preview_worker_def by (intro app_intros failed_terminal)

lemma preview_worker_settles [app_intros]: "app_settles env tid (preview_worker env tid path source target)"
  unfolding preview_worker_def by (intro app_intros failed_terminal)

text \<open>What the executor answers is the end of the task.\<close>

definition executor_ends :: "app_env \<Rightarrow> bool" where
  "executor_ends env \<longleftrightarrow> (\<forall>n r. snd (ae_execute env n) = Some r \<longrightarrow> is_terminal (res_status r))"

lemma executor_result:
  "executor_ends env \<Longrightarrow> ae_execute env n = (us, result) \<Longrightarrow>
     is_terminal (res_status (case result of Some r \<Rightarrow> r | None \<Rightarrow> unknown_result tables))"
  by (auto simp: executor_ends_def unknown_result_def split: option.split) (metis snd_conv)

lemma settles_ask_at: "(\<And>n. app_settles env i (k (f n))) \<Longrightarrow> app_settles env i (ask f k)"
  by (simp add: ask_def settles_atomically)

lemma answers_ask_at: "(\<And>n. app_answers env (k (f n))) \<Longrightarrow> app_answers env (ask f k)"
  unfolding ask_def answers_atomically by (auto simp: app_due_def intro: app_ok_same)

lemma execution_worker_settles [app_intros]:
  assumes "executor_ends env"
  shows "app_settles env tid (execution_worker env tid e)"
  unfolding execution_worker_def
  by (intro settles_ask settles_ask_at app_cases settles_reports settles_finish executor_result [OF assms])

lemma execution_worker_answers [app_intros]:
  assumes "executor_ends env"
  shows "app_answers env (execution_worker env tid e)"
  unfolding execution_worker_def
  by (rule answers_ask, rule answers_ask_at, rule app_cases)
    (intro app_intros executor_result [OF assms])

subsection \<open>Commands\<close>

lemma answers_give_up [app_intros]: "app_answers env (give_up env tid e)"
  unfolding give_up_def by (intro app_intros)

lemma settles_give_up [app_intros]: "app_settles env tid (give_up env tid e)"
  unfolding give_up_def by (intro app_intros failed_terminal)

lemma answers_saved [app_intros]: "(\<And>x. app_answers env (k x)) \<Longrightarrow> app_answers env (saved_connections env k)"
  unfolding saved_connections_def by (rule answers_ask)

lemma answers_register:
  assumes "\<And>x. app_answers env (k x)" and "\<And>sn c. app_settles env tid (k (Inr (sn, True, c)))"
  shows "app_answers env (registry_op env (\<lambda>now. register_preview now tid request) k)"
proof (rule answers_registry_op)
  show "unsettled i reg \<or> app_settles env i (k (fst (register_preview now tid request reg)))"
    if "registry_ok reg" "unsettled i (snd (register_preview now tid request reg))" for now reg i
    using register_unsettles [OF that] assms(2) by auto
qed (simp_all add: step_register assms(1))

lemma answers_begin:
  assumes "\<And>x. app_answers env (k x)" and "\<And>sn c. app_settles env (sn_task_id sn) (k (Inr (sn, True, c)))"
  shows "app_answers env (begin_op env input k)"
  unfolding begin_op_def
proof (rule answers_registry_op)
  show "unsettled i reg \<or> app_settles env i (k (fst (begin_execution (ae_is_uuid env) now input reg)))"
    if "registry_ok reg" "unsettled i (snd (begin_execution (ae_is_uuid env) now input reg))" for now reg i
    using begin_unsettles [OF that] assms(2) by auto
qed (simp_all add: step_begin assms(1))

lemma answers_start_preview: "app_answers env (start_preview env tid request)"
  unfolding start_preview_def
  by (intro app_intros answers_register) simp_all

lemma answers_start_execution:
  assumes "executor_ends env"
  shows "app_answers env (start_execution env input e)"
  unfolding start_execution_def
  by (intro answers_begin app_intros assms) (simp_all add: settles_give_up execution_worker_settles [OF assms])

lemma answers_note [app_intros]: "app_answers env k \<Longrightarrow> app_answers env (atomically (note_stray sn start) (\<lambda>_. k))"
  unfolding answers_atomically by (auto simp: app_due_def note_stray_def intro: app_ok_same split: if_splits)

lemma settles_note: "app_settles env (sn_task_id sn) (atomically (note_stray sn True) k)"
  by (simp add: settles_atomically note_stray_def app_due_def)

lemma answers_repeat [app_intros]: "app_answers env (repeat_execution env input)"
  unfolding repeat_execution_def by (intro answers_begin app_intros) (auto simp: settles_note)

lemma answers_execute [app_intros]:
  assumes "executor_ends env"
  shows "app_answers env (execute_task env input)"
  unfolding execute_task_def find_envelope_def
  by (intro app_intros answers_start_execution assms)

lemma answers_get_task: "app_answers env (get_task env tid)"
  unfolding get_task_def by (intro app_intros)

lemma answers_find [app_intros]: "(\<And>x. app_answers env (k x)) \<Longrightarrow> app_answers env (find_envelope plan k)"
  unfolding find_envelope_def by (rule answers_local_op)

lemma answers_get_diff: "app_answers env (get_diff env plan table cursor n)"
  unfolding get_diff_def by (intro app_intros)

lemma answers_cancel_task: "app_answers env (cancel_task env tid)"
  unfolding cancel_task_def by (intro app_intros)

lemma answers_list_tasks: "app_answers env (list_data_tasks env)"
  unfolding list_data_tasks_def by (intro app_intros)

lemma answers_discard_preview: "app_answers env (discard_preview env plan)"
  unfolding discard_preview_def by (intro app_intros)

lemma answers_confirm [app_intros]: "app_answers env (confirm_exit env)"
  unfolding confirm_exit_def by (intro app_intros)

lemma answers_dialog: "app_answers env (answer_dialog env stop)"
  unfolding answer_dialog_def by (intro app_intros)

lemma answers_tick: "app_answers env (exit_tick env)"
  unfolding exit_tick_def by (intro app_intros)

subsection \<open>The exit\<close>

definition at_rest :: "runtime \<Rightarrow> bool" where
  "at_rest s \<longleftrightarrow> registry_ok (rt_registry s) \<and> (\<forall>i. \<not> unsettled i (rt_registry s))"

lemma at_rest_step:
  assumes "at_rest s" and "registry_step is_uuid (rt_registry s) (f (rt_registry s))" and "calm f"
    and "rt_registry t = f (rt_registry s)"
  shows "at_rest t"
  using assms registry_step_ok [OF assms(2)] calmD [OF assms(3)] by (auto simp: at_rest_def)

lemma at_rest_inactive:
  assumes "at_rest s"
  shows "\<not> fst (has_active now (rt_registry s))"
proof -
  let ?reg = "expire now (rt_registry s)"
  have ok: "registry_ok ?reg" "\<And>i. \<not> unsettled i ?reg"
    using assms registry_ok_expire calmD [OF calm_expire] unfolding at_rest_def by blast+
  have "is_terminal (status r) \<or> status r = Ready" if "(i, r) \<in> set (records ?reg)" for i r
    using ok(2) [of i] that get_record_iff [OF ok_distinct [OF ok(1)]] unfolding unsettled_def under_way_def by blast
  then show ?thesis by (fastforce simp: has_active_def list_tasks_def Let_def status_def)
qed

lemma alone_cleanup:
  assumes "\<And>t. at_rest t \<Longrightarrow> P (run_alone k t)" and "at_rest s"
  shows "P (run_alone (cleanup_op env tid m k) s)"
  unfolding cleanup_op_def registry_op_def run_alone_atomically prod.case
  by (rule assms(1), rule at_rest_step [OF assms(2) step_cleanup calm_cleanup]) simp

lemma alone_remove:
  assumes "\<And>t. at_rest t \<Longrightarrow> P (run_alone k t)"
  shows "at_rest s \<Longrightarrow> P (run_alone (remove_directories env ds k) s)"
proof (induction ds arbitrary: s)
  case (Cons d ds)
  obtain tid path where d: "d = (tid, path)" by fastforce
  have "P (run_alone (if ok then remove_directories env ds k
      else cleanup_op env tid ''a temporary snapshot was not removed'' (remove_directories env ds k)) t)"
    if "at_rest t" for ok t
    using Cons.IH that alone_cleanup [of P, OF Cons.IH that] by simp
  then show ?case using Cons.prems
    by (simp add: d local_op_def case_prod_beta' at_rest_def)
qed (simp add: assms)

lemma alone_list:
  assumes "\<And>x t. at_rest t \<Longrightarrow> P (run_alone (k x) t)" and "at_rest s"
  shows "P (run_alone (registry_op env list_tasks k) s)"
  unfolding registry_op_def run_alone_atomically case_prod_beta'
  by (rule assms(1), rule at_rest_step [OF assms(2) step_list calm_list]) simp

lemma alone_prune:
  assumes "\<And>t. at_rest t \<Longrightarrow> P (run_alone k t)" and "at_rest s"
  shows "P (run_alone (prune env k) s)"
  unfolding prune_def
proof (rule alone_list [OF _ assms(2)])
  fix x t assume "at_rest t"
  then show "P (run_alone (local_op (take_plans (kept_plans x)) (\<lambda>removed. remove_directories env removed k)) t)"
    using alone_remove [of P, OF assms(1)] by (simp add: local_op_def case_prod_beta' at_rest_def)
qed

lemma alone_persist:
  assumes "\<And>x t. at_rest t \<Longrightarrow> P (run_alone (k x) t)" and "at_rest s"
  shows "P (run_alone (persist env k) s)"
proof (cases "rt_directory s")
  case None
  then show ?thesis using assms by (simp add: persist_def)
next
  case (Some dir)
  show ?thesis
    unfolding persist_def run_alone_atomically Some option.case case_prod_beta'
    by (simp, rule assms(1), rule at_rest_step [OF assms(2) step_list calm_list]) simp
qed

lemma alone_exit:
  assumes "at_rest s"
  shows "rt_exited (run_alone (exit_tick env) s)"
proof -
  have confirm: "rt_exited (run_alone (confirm_exit env) t)" if "at_rest t" for t
    using at_rest_inactive [OF that]
    by (simp add: confirm_exit_def registry_op_def local_op_def case_prod_beta' exit_step_def request_exit_def)
  have "at_rest (s\<lparr>rt_registry := snd (has_active now (rt_registry s)), rt_calls := n\<rparr>)" for now n
    by (rule at_rest_step [OF assms step_active calm_has_active]) simp
  moreover have "rt_exited (run_alone (maintenance env (confirm_exit env)) t)" if "at_rest t" for t
    unfolding maintenance_def by (intro alone_prune [of rt_exited] alone_persist [of rt_exited] confirm that)
  ultimately show ?thesis
    using at_rest_inactive [OF assms] by (simp add: exit_tick_def registry_op_def case_prod_beta')
qed


text \<open>What runs until the exit is a run of the program.\<close>

lemma runs_until_exit:
  "runs\<^sup>*\<^sup>* c d \<Longrightarrow> (\<exists>e. (app_step env)\<^sup>*\<^sup>* c e \<and> rt_exited (snd e)) \<or> (app_step env)\<^sup>*\<^sup>* c d"
proof (induction rule: rtranclp_induct)
  case (step d e)
  then show ?case using goes_on [OF step.hyps(2), of env] by (meson rtranclp.rtrancl_into_rtrancl)
qed simp

subsection \<open>The runs of the program\<close>

lemma handler_answers:
  assumes "executor_ends env"
  shows "app_answers env (handler env e)"
  using assms
  by (cases e) (simp_all add: answers_start_preview answers_execute answers_get_task answers_get_diff answers_cancel_task
      answers_list_tasks answers_discard_preview answers_confirm answers_dialog answers_tick answers_maintenance)

lemma start_covered: "covered (app_ok env) app_due ([], start_state hist res)"
  by (simp add: covered_def app_ok_def app_due_def start_state_def reachable_registry_def unsettled_def empty_registry_def
      get_record_def)

lemma app_step_covered:
  assumes "executor_ends env" and "app_step env c d" and "covered (app_ok env) app_due c"
  shows "covered (app_ok env) app_due d"
  using assms(2)
proof cases
  case (arrives e s ps)
  then show ?thesis using assms(3) handler_answers [OF assms(1)] by (auto simp: covered_def)
qed (use runs_covered assms(3) in blast)

lemma reachable_covered:
  assumes "executor_ends env" and "reachable_app env c"
  shows "covered (app_ok env) app_due c"
proof -
  obtain hist res where "(app_step env)\<^sup>*\<^sup>* ([], start_state hist res) c" using assms(2) by (auto simp: reachable_app_def)
  then show ?thesis
    by (induction rule: rtranclp_induct) (auto intro: start_covered app_step_covered [OF assms(1)])
qed

lemma runs_star_covered: "runs\<^sup>*\<^sup>* c d \<Longrightarrow> covered good due c \<Longrightarrow> covered good due d"
  by (induction rule: rtranclp_induct) (auto intro: runs_covered)

subsection \<open>Examples\<close>

text \<open>Events that arrive and threads that are given a turn, in a fixed order.\<close>

fun play_move :: "app_env \<Rightarrow> event + nat \<Rightarrow> runtime threads \<Rightarrow> runtime threads" where
  "play_move env (Inl e) c = (if enabled e (snd c) \<and> \<not> rt_exited (snd c) then (fst c @ [handler env e], snd c) else c)"
| "play_move env (Inr i) c = (if i < length (fst c) \<and> \<not> rt_exited (snd c) then run_thread i c else c)"

primrec play :: "app_env \<Rightarrow> (event + nat) list \<Rightarrow> runtime threads \<Rightarrow> runtime threads" where
  "play env [] c = c"
| "play env (m # ms) c = play env ms (play_move env m c)"

lemma play_move_steps: "(app_step env)\<^sup>*\<^sup>* c (play_move env m c)"
proof (cases m)
  case (Inl e)
  then show ?thesis using arrives [of e "snd c" env "fst c"] by auto
next
  case (Inr i)
  then show ?thesis using goes_on [OF run [of i "fst c" "snd c"]] by auto
qed

lemma play_steps: "(app_step env)\<^sup>*\<^sup>* c (play env ms c)"
proof (induction ms arbitrary: c)
  case (Cons m ms)
  show ?case unfolding play.simps using play_move_steps Cons.IH by (rule rtranclp_trans)
qed simp

lemma play_reachable: "reachable_app env (play env ms ([], start_state hist res))"
  unfolding reachable_app_def using play_steps by blast

definition example_handle :: spool_handle where
  "example_handle = \<lparr>h_inner = example_inner, h_file = [], h_index = []\<rparr>"

definition example_app :: app_env where
  "example_app = \<lparr>ae_plan = plain_plan_env, ae_to_vec = (\<lambda>_. Some []), ae_from_slice = (\<lambda>_. Some []), 
     ae_page_json = (\<lambda>_. Some []), ae_digest = (\<lambda>_. []), ae_is_uuid = (\<lambda>_. True), ae_uuid = (\<lambda>_. ''u''), ae_clock = (\<lambda>n. n),
     ae_init = (\<lambda>_. \<lparr>ii_base = Some ''d'', ii_plain = True, ii_created = True, ii_secured = True, ii_lock_file = True,
       ii_lock_free = True, ii_snapshots_exist = False, ii_snapshots_plain = True, ii_snapshots_removed = True,
       ii_snapshots_made = True, ii_snapshots_secured = True\<rparr>),
     ae_save = (\<lambda>_. (True, True, True)), ae_remove = (\<lambda>_. True),
     ae_saved = (\<lambda>_. Some [example_config ''a'' ''one'', example_config ''b'' ''two'']),
     ae_prepare = (\<lambda>_. ([], Some (Inr \<lparr>sp_request = sample_request, sp_mapping = plan_mapping, sp_preview = example_preview,
       sp_source = \<lparr>so_spool = example_handle, so_digest = []\<rparr>, sp_target = \<lparr>so_spool = example_handle, so_digest = []\<rparr>,
       sp_target_full = \<lparr>so_spool = example_handle, so_digest = []\<rparr>, sp_operations = example_handle,
       sp_expected = \<lparr>so_spool = example_handle, so_digest = []\<rparr>, sp_source_metadata = plan_metadata,
       sp_target_metadata = plan_metadata\<rparr>), Some True)),
     ae_execute = (\<lambda>_. ([], None))\<rparr>"


text \<open>All threads have ended, in a state of which something holds.\<close>

definition ends_in :: "(runtime \<Rightarrow> bool) \<Rightarrow> runtime threads \<Rightarrow> bool" where
  "ends_in P c \<longleftrightarrow> fst c = [] \<and> P (snd c)"

definition task_status :: "runtime \<Rightarrow> data_task_status option" where
  "task_status s = map_option status (get_record ''task'' (rt_registry s))"

definition previewed :: "runtime threads" where
  "previewed = play example_app (Inl (StartPreview ''task'' sample_request) # replicate 23 (Inr 0))
     ([], start_state Missing (new_resources None))"

lemma previewed_ready: "ends_in (\<lambda>s. rt_stray s = [] \<and> task_status s = Some Ready \<and> map fst (rt_plans s) = [''plan'']) previewed"
  by code_simp

lemma previewed_reachable: "reachable_app example_app previewed"
  unfolding previewed_def by (rule play_reachable)

text \<open>A history with an execution of an earlier run of the program, and the same execution id sent again.\<close>

definition old_snapshot :: data_task_snapshot where
  "old_snapshot = (new_snapshot 0 ''old'' sample_request True)\<lparr>sn_execution_id := Some ''u''\<rparr>"

definition restored_app :: app_env where
  "restored_app = example_app\<lparr>ae_from_slice := \<lambda>_. Some [old_snapshot]\<rparr>"

definition stranded :: "runtime threads" where
  "stranded = play restored_app (Inl (StartPreview ''task'' sample_request) # replicate 23 (Inr 0)
     @ Inl (ExecuteTask example_input) # replicate 6 (Inr 0)) ([], start_state (Regular []) (new_resources None))"

text \<open>The list of the tasks is read while a preview is being registered.\<close>

definition lost_plan :: "runtime threads" where
  "lost_plan = play example_app (Inl (StartPreview ''task'' sample_request) # replicate 13 (Inr 0)
     @ Inl ListTasks # replicate 10 (Inr 1) @ replicate 10 (Inr 0)) ([], start_state Missing (new_resources None))"




text \<open>The window is closed while a preview is being made, and the user wants to exit.\<close>

definition waiting :: "runtime threads" where
  "waiting = play example_app (Inl (StartPreview ''task'' sample_request) # replicate 9 (Inr 0)
     @ Inl CloseRequested # replicate 3 (Inr 2) @ Inl (DialogAnswered True) # replicate 10 (Inr 2) @ replicate 20 (Inr 0))
     ([], start_state Missing (new_resources None))"




end
