(* ===== verification/Spec2Isabelle.thy ===== *)
theory Spec2Isabelle
  imports Rust_Prelude Data_Value Data_Models Type_Mapping Metadata Transfer_Row Batch
    Registry History Actions Spool Spool_Sort Plan Connection Session Batch_Reader
    Batch_Content Execute Sqlite_Adapter Sqlite_Execute Sqlite_Session Prepare Sqlite_Task
    Threads Runtime Runtime_Proofs
begin

section \<open>The data task engine of db-connect\<close>

text \<open>
  db-connect is a desktop client for five kinds of databases. Its data tasks copy rows from one
  database to another, which may be of another kind: a transfer appends to or replaces the rows of the
  target, a row synchronisation mirrors or merges rows by their keys. This development models that
  engine (\<open>src-tauri/src/db/data\_tasks\<close>, \<open>src-tauri/src/commands/data\_tasks.rs\<close> and what they use of
  \<open>models\<close>, \<open>lifecycle.rs\<close> and \<open>lib.rs\<close>) and proves what makes it safe to point at a database that
  matters.

  A task goes through these stations. A request names two saved connections, tables and columns; it is
  validated. The preview reads both databases in one consistent read each, writes the rows it reads to
  encrypted temporary files, sorts these, compares them and stores a plan: the operations to carry out
  and the rows that will be in the target after them. The user looks at the plan and starts its
  execution, which must find everything as the preview left it; it reads the target again, writes in
  one transaction, reads the target once more, compares it with the expected rows of the plan and only
  then commits. All of this runs in the background, one task at a time may write, tasks can be cancelled
  at any time, their history is kept on disk, and the program does not exit under a running task.
\<close>

subsection \<open>Which theory models what\<close>

text \<open>
  \<^item> \<open>Rust\_Prelude\<close>: the fragment of Rust and its standard library that the code uses (results and the
    question mark operator, checked and saturating arithmetic, UTF-8, splitting and parsing of texts,
    big-endian bytes). \<open>Actions\<close>: code that fails and changes state, with its weakest preconditions;
    all theories that have state use it.
  \<^item> \<open>Data\_Value\<close> (\<open>value.rs\<close>): cell values, their normal forms, the canonical bytes of a row and their
    decoder. The locales \<open>codec\<close> and \<open>whole\_codec\<close> are the contract of an encoder and its reader and are
    interpreted for numbers, fields, texts, values and rows.
  \<^item> \<open>Data\_Models\<close> (\<open>models/data\_tasks.rs\<close>): requests and their validation, previews, results.
    \<open>Type\_Mapping\<close> (\<open>type\_mapping.rs\<close>): the types of the columns, which of them may be copied to
    which, temporal values. \<open>Metadata\<close> (\<open>metadata.rs\<close>): capabilities, the validation of a mapping with
    the order of the tables by their foreign keys, the identity of the endpoints.
  \<^item> \<open>Transfer\_Row\<close>: the conversion of a row between kinds of databases. \<open>Batch\<close>
    (\<open>adapters/batch.rs\<close>): the write statements; the locale \<open>quoting\<close> is the contract of quoting an
    identifier, interpreted for the three ways it is done.
  \<^item> \<open>Registry\<close> (\<open>registry.rs\<close>): the tasks of the program; every method is one step under its lock, and
    \<open>registry\_step\<close> are the steps. \<open>History\<close> (\<open>history.rs\<close>): what is kept of them on disk.
  \<^item> \<open>Spool\<close>, \<open>Spool\_Sort\<close> (\<open>spool.rs\<close>): budgets and leases, encrypted files, cursors, the external sort.
    \<open>Plan\<close> (\<open>plan.rs\<close>): from three snapshots to operations and expected rows, the fingerprint, the
    pages of the differences.
  \<^item> \<open>Connection\<close> (\<open>models/types.rs\<close>, \<open>commands/temporary\_database.rs\<close>): saved connections, the
    redaction of their secrets, their fingerprints.
  \<^item> \<open>Session\<close> (\<open>executor.rs\<close>, \<open>adapters/mod.rs\<close>): the interface of a database session, projections,
    progress, network snapshots. \<open>Batch\_Reader\<close>, \<open>Batch\_Content\<close>: the operations of a plan in batches.
    \<open>Execute\<close>: the execution over sessions. Its locale \<open>data\_session\<close> is the contract of a session.
  \<^item> \<open>Sqlite\_Adapter\<close> (\<open>adapters/sqlite.rs\<close>): structure, snapshot query, rows and binding for SQLite.
    \<open>Sqlite\_Execute\<close>: preview and execution between two SQLite files, over a driver whose contract is
    the locale \<open>sqlite\_driver\<close>. \<open>Sqlite\_Session\<close> (\<open>adapters/sqlite\_async.rs\<close>): SQLite as one end of a
    task; \<open>sublocale\<close> there shows that a driver with its contract gives a session with its contract.
    \<open>Prepare\<close>: previews over sessions and the capabilities command. \<open>Sqlite\_Task\<close>: preview and execution
    of a task between SQLite files put together, with the locale \<open>sqlite\_reader\<close>.
  \<^item> \<open>Threads\<close>, \<open>Runtime\<close>, \<open>Runtime\_Proofs\<close> (\<open>commands/data\_tasks.rs\<close>, \<open>lifecycle.rs\<close>, \<open>lib.rs\<close>): the
    commands, the workers and the exit of the program as threads of atomic steps on one state.
\<close>

subsection \<open>How the model stands for the code\<close>

text \<open>
  A Rust \<open>struct\<close> is a record, an \<open>enum\<close> a datatype, a \<open>Result<T, String>\<close> a sum with the error on the
  left, a \<open>Result<T, DataTaskError>\<close> a sum with that record. Texts are lists of bytes. Messages to the
  user are given in English; the code in front of the first colon, which the program reads, is kept.
  Panics that can be reached are errors that begin with \<open>panic:\<close>. Counters of rows and bytes are natural
  numbers with the saturation or the check of the code written out; words stand where the code works on
  the bits.

  An owned file or lease that Rust drops on an early return is given back by \<open>or\_drop\<close>, \<open>or\_release\<close> or
  \<open>afinally\<close> around the code after it. The cancellation flag is read at numbered polls, and \<open>stop\_at\<close>
  says from which poll on it is set, so a theorem for all states holds for a cancellation at any time.
  A call of the operating system succeeds as a parameter says for its number, so a theorem holds for
  failures at any place. The channel between the reader and the writer of a network snapshot has one
  place: the rows are taken in the order they were sent, and the error of the writing side comes first.

  Loops of the code that end for a reason are total functions with a measure (rows left in a file,
  tables left, batches left); there is no fuel. \<open>tasks\_settle\<close> is proved by well-founded recursion over
  the trees of the threads.

  Some definitions have two shapes for the evaluation of examples: the sections on evaluation contain
  equations that are proved and change nothing.
\<close>

subsection \<open>What is assumed\<close>

text \<open>
  \<^item> \<open>aead\_ok\<close>: decryption with the same key, nonce and associated data gives back what was encrypted,
    and the sealed text is longer by the tag. SHA-256 is a function without properties: where the code
    compares digests it also compares rows or does not need the digest to be injective.
  \<^item> \<open>data\_session\<close>: only a commit changes the durable content of the target; inside the protected
    transaction calls leave it open unless they fail; a stream that ends without an error has delivered
    the visible rows; a confirmed commit makes the visible content durable.
  \<^item> \<open>sqlite\_driver\<close>, \<open>sqlite\_reader\<close>: the same of SQLite on one connection, statement by statement; a
    query delivers what is stored; opening sees the committed content. Neither says anything of rows,
    plans or outcomes. All contracts are interpreted by a small driver that the examples run on.
  \<^item> Texts that stand for Rust strings are valid UTF-8 where an encoder needs it (\<open>wf\_row\<close>, \<open>names\_ok\<close>).
  \<^item> The calendar, JSON, uuid, the clock, the random generator, the file system and the sizes the
    allocator gives are arguments of the definitions, without any law where none is named.
\<close>

subsection \<open>What is shown\<close>

text \<open>
  \<^item> Values: the canonical encoding is read back, its size is bounded, rows have the same key bytes
    only if they have the same key, numbers and temporal values keep their meaning (C1 to C6).
  \<^item> What may start: validation accepts what it should, types that are compatible lose no value, tables
    are written in an order the foreign keys allow, converted rows stand for the same values (C5 to C10).
  \<^item> Statements: identifiers cannot be misread, values are bound and never part of the text (C11 to C13).
  \<^item> Tasks: one writer in every reachable state, a start only from a preview that is still good, final
    states that stay, cancellations that hold, a history that tells no secrets (C14 to C21).
  \<^item> Files: round trips, nonces that are used once, a sort that sorts and gives its memory back (C22 to C27).
  \<^item> Plans: the operations of a plan lead to its expected rows, and these are what the mode of the task
    asks for (C28 to C30). Fingerprints hide secrets (C31).
  \<^item> Execution: every result tells the truth about the durable content of the target, over sessions (C32)
    and between SQLite files (C39), batches leave nothing out (C33), rows read from SQLite are typed (C38),
    and a task between SQLite files that reports a commit has done what it was asked for (C40).
  \<^item> The program: under every schedule all tasks end (C34) and a user who chose to exit gets out (C35).
    C36 and C37 are two schedules that the program does not handle.
\<close>

subsection \<open>Not modelled\<close>

text \<open>
  The adapters of MySQL, PostgreSQL, SQL Server and ClickHouse: each is a long sequence of queries of a
  catalogue and of conversions by a driver that is not part of the repository; the executor sees them
  through the session interface only. Serialisation by serde, the events sent to the window, and the
  closing of connections, which no result depends on. \<open>memory\_size\<close> of a row, which depends on the
  capacities of the allocator and is a parameter. Of a plan on disk, the reading of pages by test code.

  The editor of db-connect is another program beside the data tasks: its drivers and commands, the
  comparison and synchronisation of schemas, the execution of SQL files, tunnels, keyring and the user
  interface. They share with the data tasks only the saved connections and are left aside.
\<close>

end
